(* ===== verification/HRT_Prelude.thy ===== *)
theory HRT_Prelude
  imports Main "HOL-Library.Word"
begin

text \<open>
  Shared vocabulary of the HardRT development: the machine types of the C sources, the
  named fact collections the component theories extend, and the generic facts about
  words, lists and remainders that more than one component needs.

  \<^item> \<open>u8\<close>, \<open>u16\<close>, \<open>u32\<close>, \<open>u64\<close> are the C99 exact-width types; \<open>uintptr\<close> and \<open>size_t\<close> have
    the width of the Cortex-M target. The C \<open>int\<close> of task ids and return codes is \<open>int\<close>:
    no computation in the sources takes such a value out of the range of a C \<open>int\<close>.
  \<^item> \<open>ring_simps\<close> collects the equations of ring buffers, \<open>frame_simps\<close> the equations which
    say that an operation leaves a field alone, \<open>kernel_defs\<close> the definitions a proof by
    computation unfolds.
\<close>

type_synonym u8 = "8 word"
type_synonym u16 = "16 word"
type_synonym u32 = "32 word"
type_synonym u64 = "64 word"
type_synonym uintptr = "32 word"
type_synonym size_t = "32 word"

named_theorems ring_simps
named_theorems frame_simps
named_theorems kernel_defs

section \<open>Words\<close>

lemma unat_of_nat_small [simp]:
  "n < 2 ^ LENGTH('w) \<Longrightarrow> unat (word_of_nat n :: 'w::len word) = n"
  by (simp add: unat_of_nat take_bit_nat_eq_self)

lemma unat_Suc_bounded:
  fixes c :: "'w::len word"
  assumes "unat c < n" "n < 2 ^ LENGTH('w)"
  shows "unat (c + 1) = Suc (unat c)"
proof -
  have "c + 1 \<noteq> 0"
  proof
    assume "c + 1 = 0"
    then have "unat (c + 1) = 0" by simp
    then have "(unat c + 1) mod 2 ^ LENGTH('w) = 0"
      using assms by (simp add: unat_word_ariths)
    with assms show False by simp
  qed
  then show ?thesis by (simp add: unatSuc add.commute)
qed

lemma unat_pred_pos:
  fixes c :: "'w::len word"
  assumes "c \<noteq> 0"
  shows "unat (c - 1) = unat c - 1"
  using assms by (simp add: unat_minus_one)

lemma unat_eq_0_iff [simp]: "unat (w :: 'w::len word) = 0 \<longleftrightarrow> w = 0"
  by (simp add: unat_eq_zero)

lemma unat_ucast_mod: "unat (ucast (w :: 'v::len word) :: 'w::len word) = unat w mod 2 ^ LENGTH('w)"
  by (simp add: unsigned_ucast_eq take_bit_eq_mod)

lemma unat_ucast_up:
  assumes "LENGTH('v) \<le> LENGTH('w)"
  shows "unat (ucast (w :: 'v::len word) :: 'w::len word) = unat w"
proof -
  have "unat w < 2 ^ LENGTH('v)" by (rule unsigned_less)
  also have "(2 :: nat) ^ LENGTH('v) \<le> 2 ^ LENGTH('w)" using assms by simp
  finally show ?thesis by (simp add: unat_ucast_mod)
qed

section \<open>Remainders\<close>

lemma mod_add_inj_le:
  fixes h i j n :: nat
  assumes "i \<le> j" "j < n" "(h + j) mod n = (h + i) mod n"
  shows "i = j"
proof -
  have "n dvd (h + j) - (h + i)"
    using assms(1,3) by (subst mod_eq_dvd_iff_nat [symmetric]) auto
  then have "n dvd j - i" by simp
  with assms(1,2) show ?thesis by (auto dest: dvd_imp_le)
qed

lemma mod_add_inj:
  fixes h i j n :: nat
  assumes "i < n" "j < n" "(h + i) mod n = (h + j) mod n"
  shows "i = j"
  using assms mod_add_inj_le [of i j n h] mod_add_inj_le [of j i n h]
  by (cases "i \<le> j") auto

lemma mod_Suc_shift:
  fixes h i n :: nat
  shows "(Suc h mod n + i) mod n = (h + Suc i) mod n"
  by (simp add: mod_add_left_eq)

section \<open>Lists\<close>

lemma distinct_bounded_length:
  fixes xs :: "nat list"
  assumes "distinct xs" "\<And>x. x \<in> set xs \<Longrightarrow> x < n"
  shows "length xs \<le> n"
proof -
  have "set xs \<subseteq> {..<n}" using assms(2) by auto
  then have "card (set xs) \<le> n" by (metis card_lessThan card_mono finite_lessThan)
  with assms(1) show ?thesis by (simp add: distinct_card)
qed

lemma distinct_bounded_length_less:
  fixes xs :: "nat list"
  assumes "distinct xs" "\<And>x. x \<in> set xs \<Longrightarrow> x < n" "y < n" "y \<notin> set xs"
  shows "length xs < n"
proof -
  have "length (y # xs) \<le> n"
    using assms by (intro distinct_bounded_length) auto
  then show ?thesis by simp
qed

lemma nth_update_if: "xs[i := t] ! j = (if i = j \<and> i < length xs then t else xs ! j)"
  by (cases "i < length xs") (auto simp: list_update_beyond)

lemma nth_update_same: "f t = f (xs ! i) \<Longrightarrow> f (xs[i := t] ! j) = f (xs ! j)"
  by (simp add: nth_update_if)

lemma take_drop_prefix:
  assumes "a + n \<le> b" "b \<le> length xs"
  shows "take n (drop a (take b xs @ ys)) = take n (drop a xs)"
proof -
  have "take n (drop a (take b xs @ ys)) = take n (take (b - a) (drop a xs) @ ys)"
    using assms by (simp add: drop_take)
  also have "\<dots> = take n (take (b - a) (drop a xs))" using assms by simp
  also have "\<dots> = take n (drop a xs)" using assms by (simp add: min_def)
  finally show ?thesis .
qed

end
