(* ===== verification/HRT_Ring.thy ===== *)
theory HRT_Ring
  imports HRT_Prelude
begin

text \<open>
  Ring buffers. The ready queues of \<open>hardrt_core.c\<close>, the waiter queues of
  \<open>hardrt_sem.c\<close>, \<open>hardrt_mutex.c\<close> and \<open>hardrt_queue.c\<close>, and the message store of
  \<open>hardrt_queue.c\<close> are all an array of \<open>n\<close> slots with a head index, a tail index and an
  element count, kept in words of a fixed width. This theory holds what they share:

  \<^item> \<open>ring_ok\<close>, the well-formedness of the four fields, and \<open>ring_list\<close>, the queue content
    they stand for, oldest element first;
  \<^item> the effect on both of writing at the tail and of advancing the head;
  \<^item> the interface \<open>bounded_fifo\<close> that every such queue offers to its clients for the
    elements its users store (\<open>ok\<close>: task ids in range, items of the right size), with an
    abstract queue over lists as its specification (\<open>spec_ops\<close>) and the refinement lemma
    that any run of pushes and pops gives the results of the specification.
\<close>

section \<open>Indices and content\<close>

definition next_idx :: "nat \<Rightarrow> 'w::len word \<Rightarrow> 'w word" where
  "next_idx n i = word_of_nat ((unat i + 1) mod n)"

definition ring_ok :: "nat \<Rightarrow> 'x list \<Rightarrow> 'w::len word \<Rightarrow> 'w word \<Rightarrow> 'w word \<Rightarrow> bool" where
  "ring_ok n xs h t c \<longleftrightarrow>
     0 < n \<and> n < 2 ^ LENGTH('w) \<and> length xs = n \<and> unat h < n \<and> unat c \<le> n \<and>
     unat t = (unat h + unat c) mod n"

definition ring_list :: "nat \<Rightarrow> 'x list \<Rightarrow> 'w::len word \<Rightarrow> 'w word \<Rightarrow> 'x list" where
  "ring_list n xs h c = map (\<lambda>i. xs ! ((unat h + i) mod n)) [0..<unat c]"

section \<open>The interface of a bounded queue\<close>

datatype 'x fifo_op = Push 'x | Pop

fun run_ops :: "('x \<Rightarrow> 's \<Rightarrow> 's) \<Rightarrow> ('s \<Rightarrow> 'r \<times> 's) \<Rightarrow> 'x fifo_op list \<Rightarrow> 's \<Rightarrow> 'r list \<times> 's" where
  "run_ops push pop [] s = ([], s)"
| "run_ops push pop (Push x # ops) s = run_ops push pop ops (push x s)"
| "run_ops push pop (Pop # ops) s =
     (case pop s of (r, s') \<Rightarrow>
        (case run_ops push pop ops s' of (rs, s'') \<Rightarrow> (r # rs, s'')))"

fun spec_ops :: "'r \<Rightarrow> ('x \<Rightarrow> 'r) \<Rightarrow> nat \<Rightarrow> 'x fifo_op list \<Rightarrow> 'x list \<Rightarrow> 'r list \<times> 'x list" where
  "spec_ops none enc cap [] xs = ([], xs)"
| "spec_ops none enc cap (Push x # ops) xs =
     spec_ops none enc cap ops (if length xs < cap then xs @ [x] else xs)"
| "spec_ops none enc cap (Pop # ops) [] =
     (case spec_ops none enc cap ops [] of (rs, ys) \<Rightarrow> (none # rs, ys))"
| "spec_ops none enc cap (Pop # ops) (x # xs) =
     (case spec_ops none enc cap ops xs of (rs, ys) \<Rightarrow> (enc x # rs, ys))"

locale bounded_fifo =
  fixes push :: "'x \<Rightarrow> 's \<Rightarrow> 's"
    and pop :: "'s \<Rightarrow> 'r \<times> 's"
    and none :: 'r
    and enc :: "'x \<Rightarrow> 'r"
    and inv :: "'s \<Rightarrow> bool"
    and lst :: "'s \<Rightarrow> 'x list"
    and cap :: "'s \<Rightarrow> nat"
    and ok :: "'x \<Rightarrow> bool"
  assumes push_room: "inv s \<Longrightarrow> ok x \<Longrightarrow> length (lst s) < cap s \<Longrightarrow> lst (push x s) = lst s @ [x]"
    and push_full: "inv s \<Longrightarrow> ok x \<Longrightarrow> length (lst s) = cap s \<Longrightarrow> lst (push x s) = lst s"
    and push_inv: "inv s \<Longrightarrow> ok x \<Longrightarrow> inv (push x s)"
    and push_cap: "inv s \<Longrightarrow> ok x \<Longrightarrow> cap (push x s) = cap s"
    and pop_empty: "inv s \<Longrightarrow> lst s = [] \<Longrightarrow> pop s = (none, s)"
    and pop_fst: "inv s \<Longrightarrow> lst s = x # xs \<Longrightarrow> fst (pop s) = enc x"
    and pop_lst: "inv s \<Longrightarrow> lst s = x # xs \<Longrightarrow> lst (snd (pop s)) = xs"
    and pop_inv: "inv s \<Longrightarrow> inv (snd (pop s))"
    and pop_cap: "inv s \<Longrightarrow> cap (snd (pop s)) = cap s"
    and lst_bound: "inv s \<Longrightarrow> length (lst s) \<le> cap s"
begin

lemma push_lst:
  assumes "inv s" "ok x"
  shows "lst (push x s) = (if length (lst s) < cap s then lst s @ [x] else lst s)"
  using assms push_room push_full lst_bound [OF assms(1)] by (auto simp: not_less)

lemma run_ops_refines:
  assumes "inv s" "\<And>x. Push x \<in> set ops \<Longrightarrow> ok x"
  shows "fst (run_ops push pop ops s) = fst (spec_ops none enc (cap s) ops (lst s)) \<and>
         lst (snd (run_ops push pop ops s)) = snd (spec_ops none enc (cap s) ops (lst s)) \<and>
         inv (snd (run_ops push pop ops s))"
  using assms
proof (induction ops arbitrary: s)
  case Nil
  then show ?case by simp
next
  case (Cons op ops)
  show ?case
  proof (cases op)
    case (Push x)
    with Cons.IH [of "push x s"] Cons.prems show ?thesis
      by (simp add: push_inv push_cap push_lst)
  next
    case Pop
    have ih: "fst (run_ops push pop ops (snd (pop s))) =
          fst (spec_ops none enc (cap s) ops (lst (snd (pop s)))) \<and>
        lst (snd (run_ops push pop ops (snd (pop s)))) =
          snd (spec_ops none enc (cap s) ops (lst (snd (pop s)))) \<and>
        inv (snd (run_ops push pop ops (snd (pop s))))"
      using Cons.IH [of "snd (pop s)"] Cons.prems by (simp add: pop_inv pop_cap)
    show ?thesis
    proof (cases "lst s")
      case Nil
      with ih Cons.prems Pop show ?thesis by (simp add: pop_empty split_beta)
    next
      case (Cons y ys)
      with ih Pop \<open>inv s\<close> pop_fst [OF \<open>inv s\<close> Cons] pop_lst [OF \<open>inv s\<close> Cons]
      show ?thesis by (simp add: split_beta)
    qed
  qed
qed

lemma spec_push_all:
  "length ys + length xs \<le> c \<Longrightarrow>
   spec_ops none enc c (map Push xs @ ops) ys = spec_ops none enc c ops (ys @ xs)"
  by (induction xs arbitrary: ys) simp_all

lemma spec_pop_all:
  "spec_ops none enc c (replicate (length xs) Pop) xs = (map enc xs, [])"
  by (induction xs) simp_all

lemma fifo_order:
  assumes "inv s" "lst s = []" "length xs \<le> cap s" "\<And>x. x \<in> set xs \<Longrightarrow> ok x"
  shows "fst (run_ops push pop (map Push xs @ replicate (length xs) Pop) s) = map enc xs"
proof -
  have "spec_ops none enc (cap s) (map Push xs @ replicate (length xs) Pop) [] = (map enc xs, [])"
    using assms(3) by (simp add: spec_push_all spec_pop_all)
  with run_ops_refines [of s "map Push xs @ replicate (length xs) Pop"] assms show ?thesis
    by auto
qed

end

section \<open>Writing at the tail, advancing the head\<close>

lemma unat_next_idx:
  assumes "0 < n" "n < 2 ^ LENGTH('w)"
  shows "unat (next_idx n (i :: 'w::len word)) = (unat i + 1) mod n"
proof -
  have "(unat i + 1) mod n < n" using assms(1) by simp
  also note assms(2)
  finally show ?thesis by (simp add: next_idx_def)
qed

lemma ring_ok_tail: "ring_ok n xs h t c \<Longrightarrow> unat t < n"
  by (simp add: ring_ok_def)

lemma ring_ok_head: "ring_ok n xs h t c \<Longrightarrow> unat h < n"
  by (simp add: ring_ok_def)

lemma ring_ok_length: "ring_ok n xs h t c \<Longrightarrow> length xs = n"
  by (simp add: ring_ok_def)

lemma ring_ok_count: "ring_ok n xs h t c \<Longrightarrow> unat c \<le> n"
  by (simp add: ring_ok_def)

lemma ring_ok_init:
  "0 < n \<Longrightarrow> n < 2 ^ LENGTH('w) \<Longrightarrow> length xs = n \<Longrightarrow> ring_ok n xs (0 :: 'w::len word) 0 0"
  by (simp add: ring_ok_def)

lemma length_ring_list [simp]: "length (ring_list n xs h c) = unat c"
  by (simp add: ring_list_def)

lemma ring_list_zero [simp]: "ring_list n xs h 0 = []"
  by (simp add: ring_list_def)

lemma ring_push_ok:
  assumes "ring_ok n xs h t c" "unat c < n"
  shows "ring_ok n (xs[unat t := x]) h (next_idx n t) (c + 1)"
proof -
  from assms have c: "unat (c + 1) = Suc (unat c)"
    by (intro unat_Suc_bounded) (auto simp: ring_ok_def)
  from assms have t: "unat (next_idx n t) = (unat t + 1) mod n"
    by (intro unat_next_idx) (auto simp: ring_ok_def)
  from assms c t show ?thesis by (auto simp: ring_ok_def mod_simps)
qed

lemma ring_push_list:
  assumes "ring_ok n xs h t c" "unat c < n"
  shows "ring_list n (xs[unat t := x]) h (c + 1) = ring_list n xs h c @ [x]"
proof -
  from assms have c: "unat (c + 1) = Suc (unat c)"
    by (intro unat_Suc_bounded) (auto simp: ring_ok_def)
  from assms have t: "unat t = (unat h + unat c) mod n" "unat t < length xs"
    by (auto simp: ring_ok_def)
  have "xs[unat t := x] ! ((unat h + i) mod n) = xs ! ((unat h + i) mod n)"
    if "i < unat c" for i
  proof -
    have "unat t \<noteq> (unat h + i) mod n"
      using that assms(2) t(1) mod_add_inj [of "unat c" n i "unat h"] by auto
    then show ?thesis by simp
  qed
  then show ?thesis using c t by (simp add: ring_list_def)
qed

lemma ring_pop_ok:
  assumes "ring_ok n xs h t c" "c \<noteq> 0"
  shows "ring_ok n xs (next_idx n h) t (c - 1)"
proof -
  from assms(2) have c: "unat (c - 1) = unat c - 1" "0 < unat c"
    by (simp_all add: unat_pred_pos unat_gt_0)
  from assms have h: "unat (next_idx n h) = (unat h + 1) mod n"
    by (intro unat_next_idx) (auto simp: ring_ok_def)
  have "(Suc (unat h) mod n + (unat c - 1)) mod n = (unat h + unat c) mod n"
    using c(2) by (cases "unat c") (simp_all only: mod_Suc_shift diff_Suc_1 less_irrefl)
  with assms(1) c h show ?thesis by (auto simp: ring_ok_def)
qed

lemma ring_pop_list:
  assumes "ring_ok n xs h t c" "c \<noteq> 0"
  shows "ring_list n xs h c = xs ! unat h # ring_list n xs (next_idx n h) (c - 1)"
proof -
  from assms(2) obtain m where m: "unat c = Suc m" "unat (c - 1) = m"
    by (cases "unat c") (simp_all add: unat_pred_pos)
  from assms have h: "unat (next_idx n h) = (unat h + 1) mod n" "unat h < n"
    by (auto simp: ring_ok_def unat_next_idx)
  have "[0..<Suc m] = 0 # map Suc [0..<m]" by (simp add: upt_conv_Cons map_Suc_upt del: upt_Suc)
  with m h show ?thesis by (simp add: ring_list_def mod_Suc_shift del: upt_Suc)
qed

lemma ring_list_Nil_iff [simp]: "ring_list n xs h c = [] \<longleftrightarrow> c = 0"
  by (simp add: ring_list_def)

lemma ring_list_hd:
  assumes "ring_ok n xs h t c" "ring_list n xs h c = y # ys"
  shows "xs ! unat h = y" "ring_list n xs (next_idx n h) (c - 1) = ys" "c \<noteq> 0"
proof -
  show c: "c \<noteq> 0" using assms(2) by (metis ring_list_Nil_iff list.discI)
  show "xs ! unat h = y" "ring_list n xs (next_idx n h) (c - 1) = ys"
    using assms(2) ring_pop_list [OF assms(1) c] by auto
qed

lemmas ring_facts = ring_push_ok ring_push_list ring_pop_ok ring_ok_tail ring_ok_head
  ring_ok_length ring_ok_count

end
