(* ===== verification/HRT_Types.thy ===== *)
theory HRT_Types
  imports HRT_Ring
begin

text \<open>
  The data of \<open>inc/hardrt.h\<close> and of the globals of \<open>src/core/hardrt_core.c\<close>.

  \<^item> Enumerations are datatypes, structures are records. A pointer is an address of type
    \<open>uintptr\<close> with \<open>0\<close> for \<open>NULL\<close>; an optional pointer argument (\<open>cfg\<close>, \<open>attr\<close>) is an option.
  \<^item> \<open>kernel\<close> holds the file-scope variables of the core. It is an extensible record: each
    port extends it by its own variables, and the core operations work on any extension.
  \<^item> \<open>build\<close> is what is fixed when the library is built: the sizing knobs
    \<open>HARDRT_MAX_TASKS\<close> and \<open>HARDRT_MAX_PRIO\<close>, the \<open>HARDRT_DEBUG\<close> switch, and the port the
    core is linked with, as the hooks the core calls. The header gives 8 and 4 as defaults
    and CMake passes 9 and 4 unless told otherwise, so nothing here fixes the two numbers.
  \<^item> \<open>g_fault\<close> is not a variable of the program: it becomes true when the C code would access
    \<open>g_tcbs\<close> outside its bounds or through \<open>NULL\<close>, which is undefined behaviour.
  \<^item> The write-only \<open>dbg_*\<close> variables of a debug build are left out, and
    \<open>HARDRT_STALL_ON_ERROR\<close> has its default 0, so that \<open>hrt_error\<close> returns.
\<close>

section \<open>Enumerations and structures of hardrt.h\<close>

datatype hrt_state = HRT_READY | HRT_SLEEP | HRT_BLOCKED | HRT_UNUSED

datatype hrt_err =
    NONE | ERR_INVALID_ID | ERR_INVALID_NEXT_ID | ERR_SP_NULL | ERR_TCB_NULL
  | ERR_INVALID_TASK | ERR_NO_TASKS | ERR_INVALID_PRIO | ERR_RQ_OVERFLOW | ERR_RQ_UNDERFLOW
  | ERR_INVALID_ID_FROM_RQ | ERR_STACK_UNDERFLOW_INIT | ERR_STACK_RANGE | ERR_STACK_ALIGN
  | ERR_INVALID_RAM_RANGE | ERR_DUP_READY | ERR_MUTEX_OWNER | ERR_MUTEX_RECURSIVE
  | ERR_MUTEX_BAD_CTX

datatype hrt_policy = HRT_SCHED_PRIORITY | HRT_SCHED_RR | HRT_SCHED_PRIORITY_RR

datatype hrt_tick_source = HRT_TICK_SYSTICK | HRT_TICK_EXTERNAL

text \<open>\<open>hrt_prio_t\<close> is an enumeration whose values the code converts to \<open>uint8_t\<close>; C lets a
  caller store any value of the underlying type in it.\<close>

type_synonym hrt_prio = u32

abbreviation (input) HRT_PRIO0 :: hrt_prio where "HRT_PRIO0 \<equiv> 0"
abbreviation (input) HRT_PRIO1 :: hrt_prio where "HRT_PRIO1 \<equiv> 1"
abbreviation (input) HRT_PRIO2 :: hrt_prio where "HRT_PRIO2 \<equiv> 2"
abbreviation (input) HRT_PRIO3 :: hrt_prio where "HRT_PRIO3 \<equiv> 3"

record hrt_config =
  cfg_tick_hz :: u32
  cfg_policy :: hrt_policy
  cfg_default_slice :: u16
  cfg_core_hz :: u32
  cfg_tick_src :: hrt_tick_source

record hrt_task_attr =
  priority :: hrt_prio
  timeslice :: u16

record hrt_tcb =
  sp :: uintptr
  stack_base :: uintptr
  stack_words :: size_t
  entry :: uintptr
  arg :: uintptr
  wake_tick :: u32
  timeslice_cfg :: u16
  slice_left :: u16
  prio :: u8
  state :: hrt_state

text \<open>The block \<open>memset\<close> leaves: every field zero, and the enumeration constant of value 0
  in the state.\<close>

definition zero_tcb :: hrt_tcb where
  "zero_tcb = \<lparr>sp = 0, stack_base = 0, stack_words = 0, entry = 0, arg = 0, wake_tick = 0,
     timeslice_cfg = 0, slice_left = 0, prio = 0, state = HRT_READY\<rparr>"

section \<open>Globals of the core\<close>

record prio_q =
  rq_q :: "u8 list"
  rq_head :: u8
  rq_tail :: u8
  rq_count :: u8

definition zero_prio_q :: "nat \<Rightarrow> prio_q" where
  "zero_prio_q n = \<lparr>rq_q = replicate n 0, rq_head = 0, rq_tail = 0, rq_count = 0\<rparr>"

record kernel =
  g_tcbs :: "hrt_tcb list"
  g_current :: int
  g_tick :: u32
  g_tick_hz :: u32
  g_policy :: hrt_policy
  g_default_slice :: u16
  g_core_hz :: u32
  g_tick_src :: hrt_tick_source
  g_error :: hrt_err
  g_rq :: "prio_q list"
  g_fault :: bool

section \<open>The build: sizes, debug switch and port hooks\<close>

text \<open>
  \<open>port_yield_to_scheduler\<close> also says whether control left the caller: the code after the
  call then runs only when the caller is scheduled again.
\<close>

record 'k build =
  HARDRT_MAX_TASKS :: nat
  HARDRT_MAX_PRIO :: nat
  HARDRT_DEBUG :: bool
  sym_task_trampoline :: uintptr
  port_start_systick :: "u32 \<Rightarrow> 'k \<Rightarrow> 'k"
  port_init_idle_task :: "'k \<Rightarrow> 'k"
  port_prepare_task_stack :: "int \<Rightarrow> uintptr \<Rightarrow> uintptr \<Rightarrow> size_t \<Rightarrow> 'k \<Rightarrow> 'k"
  port_enter_scheduler :: "'k \<Rightarrow> 'k"
  port_pend_context_switch :: "'k \<Rightarrow> 'k"
  port_yield_to_scheduler :: "'k \<Rightarrow> bool \<times> 'k"
  port_crit_enter :: "'k \<Rightarrow> 'k"
  port_crit_exit :: "'k \<Rightarrow> 'k"

type_synonym 'p env = "'p kernel_scheme build"

definition HRT_IDLE_ID :: "'p env \<Rightarrow> int" where
  "HRT_IDLE_ID B = int (HARDRT_MAX_TASKS B) - 1"

text \<open>The sizes CMake accepts, with the upper bound the 8-bit indices need. CMake checks the
  first three; it does not check the last.\<close>

definition valid_build :: "'p env \<Rightarrow> bool" where
  "valid_build B \<longleftrightarrow> 1 \<le> HARDRT_MAX_PRIO B \<and> HARDRT_MAX_PRIO B \<le> 12 \<and>
     HARDRT_MAX_PRIO B \<le> HARDRT_MAX_TASKS B \<and> HARDRT_MAX_TASKS B \<le> 255"

section \<open>Core part of a state\<close>

text \<open>\<open>core\<close> drops the port's variables. Hooks that only touch port variables leave it
  unchanged; \<open>sched_core\<close> also forgets the two things a stack-preparing hook may write, the
  saved stack pointers and the error code.\<close>

abbreviation core :: "'p kernel_scheme \<Rightarrow> kernel" where
  "core \<equiv> kernel.truncate"

definition sched_core :: "'p kernel_scheme \<Rightarrow> kernel" where
  "sched_core k = core (k\<lparr>g_tcbs := map (\<lambda>t. t\<lparr>sp := 0\<rparr>) (g_tcbs k), g_error := NONE\<rparr>)"

lemma core_fields:
  assumes "core (a :: 'p kernel_scheme) = core (b :: 'q kernel_scheme)"
  shows "g_tcbs a = g_tcbs b" "g_current a = g_current b" "g_tick a = g_tick b"
    "g_tick_hz a = g_tick_hz b" "g_policy a = g_policy b" "g_default_slice a = g_default_slice b"
    "g_core_hz a = g_core_hz b" "g_tick_src a = g_tick_src b" "g_error a = g_error b"
    "g_rq a = g_rq b" "g_fault a = g_fault b"
  using assms by (simp_all add: kernel.truncate_def)

lemma valid_build_bounds:
  assumes "valid_build B"
  shows "0 < HARDRT_MAX_TASKS B" "HARDRT_MAX_TASKS B < 256" "0 < HARDRT_MAX_PRIO B"
    "HARDRT_MAX_PRIO B < 256"
  using assms by (auto simp: valid_build_def)

end
