(* ===== verification/HRT_Core.thy ===== *)
theory HRT_Core
  imports HRT_Types
begin

text \<open>
  The operations of \<open>src/core/hardrt_core.c\<close>, in the order of the file. Every function takes
  the build \<open>B\<close> and the kernel state \<open>k\<close> and returns the new state, after its result if it has
  one. A pointer into \<open>g_tcbs\<close> is an optional index, \<open>None\<close> for \<open>NULL\<close>; \<open>deref\<close> marks the
  first use of such a pointer and \<open>tcb_of\<close> and \<open>tcb_upd\<close> read and write through it. Code
  under \<open>#if HARDRT_DEBUG == 1\<close> is guarded by \<open>HARDRT_DEBUG B\<close>.

  \<open>hrt_sleep\<close>, \<open>hrt_yield\<close> and \<open>hrt_task_delete\<close> end in the port's hop to the scheduler, and
  their boolean result says whether control left the caller there.
\<close>

section \<open>Error code and access to control blocks\<close>

definition hrt_error :: "hrt_err \<Rightarrow> 'p kernel_scheme \<Rightarrow> 'p kernel_scheme" where
  "hrt_error code k = k\<lparr>g_error := code\<rparr>"

definition hrt__tcb :: "'p env \<Rightarrow> int \<Rightarrow> int option" where
  "hrt__tcb B i =
     (if HARDRT_DEBUG B \<and> (i < 0 \<or> i \<ge> int (HARDRT_MAX_TASKS B)) then None else Some i)"

definition tcb_valid :: "'p kernel_scheme \<Rightarrow> int option \<Rightarrow> bool" where
  "tcb_valid k t = (case t of None \<Rightarrow> False | Some i \<Rightarrow> 0 \<le> i \<and> nat i < length (g_tcbs k))"

definition deref :: "int option \<Rightarrow> 'p kernel_scheme \<Rightarrow> 'p kernel_scheme" where
  "deref t k = (if tcb_valid k t then k else k\<lparr>g_fault := True\<rparr>)"

definition tcb_of :: "'p kernel_scheme \<Rightarrow> int option \<Rightarrow> hrt_tcb" where
  "tcb_of k t = (if tcb_valid k t then g_tcbs k ! nat (the t) else zero_tcb)"

definition tcb_upd :: "int option \<Rightarrow> (hrt_tcb \<Rightarrow> hrt_tcb) \<Rightarrow> 'p kernel_scheme \<Rightarrow> 'p kernel_scheme" where
  "tcb_upd t f k =
     (if tcb_valid k t
      then k\<lparr>g_tcbs := (g_tcbs k)[nat (the t) := f (g_tcbs k ! nat (the t))]\<rparr>
      else k\<lparr>g_fault := True\<rparr>)"

section \<open>Ready queues\<close>

definition rq_push :: "'p env \<Rightarrow> u8 \<Rightarrow> int \<Rightarrow> 'p kernel_scheme \<Rightarrow> 'p kernel_scheme" where
  "rq_push B p i k =
     (if unat p \<ge> HARDRT_MAX_PRIO B then hrt_error ERR_INVALID_PRIO k
      else if HARDRT_DEBUG B \<and> (i < 0 \<or> i \<ge> int (HARDRT_MAX_TASKS B))
      then hrt_error ERR_INVALID_ID k
      else let q = g_rq k ! unat p in
        if unat (rq_count q) \<ge> HARDRT_MAX_TASKS B then hrt_error ERR_RQ_OVERFLOW k
        else k\<lparr>g_rq := (g_rq k)[unat p :=
               q\<lparr>rq_q := (rq_q q)[unat (rq_tail q) := word_of_int i],
                 rq_tail := next_idx (HARDRT_MAX_TASKS B) (rq_tail q),
                 rq_count := rq_count q + 1\<rparr>]\<rparr>)"

definition rq_pop :: "'p env \<Rightarrow> u8 \<Rightarrow> 'p kernel_scheme \<Rightarrow> int \<times> 'p kernel_scheme" where
  "rq_pop B p k =
     (if HARDRT_DEBUG B \<and> unat p \<ge> HARDRT_MAX_PRIO B then (-1, hrt_error ERR_INVALID_PRIO k)
      else let q = g_rq k ! unat p in
        if rq_count q = 0 then (-1, k)
        else if HARDRT_DEBUG B \<and> uint (rq_count q) < 0 then (-1000, hrt_error ERR_RQ_UNDERFLOW k)
        else let i = uint (rq_q q ! unat (rq_head q)) in
          if HARDRT_DEBUG B \<and> (i < 0 \<or> i \<ge> int (HARDRT_MAX_TASKS B))
          then (-1, hrt_error ERR_INVALID_ID_FROM_RQ k)
          else (i, k\<lparr>g_rq := (g_rq k)[unat p :=
                 q\<lparr>rq_head := next_idx (HARDRT_MAX_TASKS B) (rq_head q),
                   rq_count := rq_count q - 1\<rparr>]\<rparr>))"

section \<open>Stack pointers\<close>

definition get_sp :: "'p env \<Rightarrow> int \<Rightarrow> 'p kernel_scheme \<Rightarrow> uintptr \<times> 'p kernel_scheme" where
  "get_sp B i k = (let k = deref (hrt__tcb B i) k in (sp (tcb_of k (hrt__tcb B i)), k))"

definition set_sp :: "'p env \<Rightarrow> int \<Rightarrow> uintptr \<Rightarrow> 'p kernel_scheme \<Rightarrow> 'p kernel_scheme" where
  "set_sp B i s k =
     (let k = (if s = 0 then hrt_error ERR_SP_NULL k else k)
      in tcb_upd (hrt__tcb B i) (\<lambda>t. t\<lparr>sp := s\<rparr>) k)"

section \<open>Initialisation and task creation\<close>

definition hrt_init :: "'p env \<Rightarrow> hrt_config option \<Rightarrow> 'p kernel_scheme \<Rightarrow> int \<times> 'p kernel_scheme" where
  "hrt_init B cfg k =
     (let k = k\<lparr>g_tcbs := replicate (HARDRT_MAX_TASKS B) zero_tcb,
                g_rq := replicate (HARDRT_MAX_PRIO B) (zero_prio_q (HARDRT_MAX_TASKS B))\<rparr>;
          k = k\<lparr>g_tcbs := map (\<lambda>t. t\<lparr>state := HRT_UNUSED\<rparr>) (g_tcbs k)\<rparr>;
          k = k\<lparr>g_tick := 0, g_current := -1\<rparr>;
          k = (case cfg of
                 Some c \<Rightarrow>
                   k\<lparr>g_tick_hz := (if cfg_tick_hz c \<noteq> 0 then cfg_tick_hz c else 1000),
                     g_policy := cfg_policy c,
                     g_default_slice := (if cfg_default_slice c \<noteq> 0 then cfg_default_slice c else 5),
                     g_core_hz := cfg_core_hz c,
                     g_tick_src := cfg_tick_src c\<rparr>
               | None \<Rightarrow>
                   k\<lparr>g_tick_hz := 1000, g_policy := HRT_SCHED_PRIORITY_RR, g_default_slice := 5\<rparr>);
          k = port_start_systick B (g_tick_hz k) k;
          k = port_init_idle_task B k
      in (0, k))"

definition first_unused :: "'p env \<Rightarrow> 'p kernel_scheme \<Rightarrow> nat option" where
  "first_unused B k = find (\<lambda>i. state (g_tcbs k ! i) = HRT_UNUSED) [0..<HARDRT_MAX_TASKS B]"

definition hrt_create_task ::
  "'p env \<Rightarrow> uintptr \<Rightarrow> uintptr \<Rightarrow> uintptr \<Rightarrow> size_t \<Rightarrow> hrt_task_attr option \<Rightarrow>
   'p kernel_scheme \<Rightarrow> int \<times> 'p kernel_scheme" where
  "hrt_create_task B fn a stack n attr k =
     (if fn = 0 \<or> stack = 0 \<or> n < 64 then (-1, hrt_error ERR_INVALID_TASK k)
      else case first_unused B k of
        None \<Rightarrow> (-1, hrt_error ERR_INVALID_ID k)
      | Some i \<Rightarrow>
          let t = hrt__tcb B (int i) in
          if t = None then (-1, hrt_error ERR_TCB_NULL k)
          else
            let k = tcb_upd t (\<lambda>_. zero_tcb) k;
                k = tcb_upd t (\<lambda>u. u\<lparr>entry := fn, arg := a,
                      prio := ucast (case attr of Some x \<Rightarrow> priority x | None \<Rightarrow> HRT_PRIO1),
                      timeslice_cfg := (case attr of Some x \<Rightarrow> timeslice x
                                                   | None \<Rightarrow> g_default_slice k),
                      stack_base := stack, stack_words := n\<rparr>) k;
                k = port_prepare_task_stack B (int i) (sym_task_trampoline B) stack n k;
                k = tcb_upd t (\<lambda>u. u\<lparr>state := HRT_READY\<rparr>) k;
                k = tcb_upd t (\<lambda>u. u\<lparr>slice_left := timeslice_cfg u\<rparr>) k;
                k = rq_push B (prio (tcb_of k t)) (uint (word_of_nat i :: u8)) k
            in (int i, k))"

definition hrt_start :: "'p env \<Rightarrow> 'p kernel_scheme \<Rightarrow> 'p kernel_scheme" where
  "hrt_start B k = port_enter_scheduler B (port_pend_context_switch B k)"

section \<open>Sleeping, yielding, deleting\<close>

definition hrt__ms_to_ticks :: "u32 \<Rightarrow> u32 \<Rightarrow> u32" where
  "hrt__ms_to_ticks ms tick_hz =
     (if ms = 0 \<or> tick_hz = 0 then 1
      else let t = (ucast ms :: u64) * ucast tick_hz + 999;
               t = t div 1000;
               t = (if t = 0 then 1 else t);
               t = (if t > 0xFFFFFFFF then 0xFFFFFFFF else t)
           in ucast t)"

definition hrt_sleep :: "'p env \<Rightarrow> u32 \<Rightarrow> 'p kernel_scheme \<Rightarrow> bool \<times> 'p kernel_scheme" where
  "hrt_sleep B ms k =
     (if HARDRT_DEBUG B \<and> g_current k < 0 then (False, hrt_error ERR_INVALID_ID k)
      else let t = hrt__tcb B (g_current k) in
        if HARDRT_DEBUG B \<and> t = None then (False, hrt_error ERR_TCB_NULL k)
        else
          let ticks = hrt__ms_to_ticks ms (g_tick_hz k);
              k = tcb_upd t (\<lambda>u. u\<lparr>wake_tick := g_tick k + ticks\<rparr>) k;
              k = tcb_upd t (\<lambda>u. u\<lparr>state := HRT_SLEEP\<rparr>) k;
              k = port_pend_context_switch B k
          in port_yield_to_scheduler B k)"

definition hrt_yield :: "'p env \<Rightarrow> 'p kernel_scheme \<Rightarrow> bool \<times> 'p kernel_scheme" where
  "hrt_yield B k =
     (if HARDRT_DEBUG B \<and> g_current k < 0 then (False, hrt_error ERR_INVALID_ID k)
      else let t = hrt__tcb B (g_current k) in
        if HARDRT_DEBUG B \<and> t = None then (False, hrt_error ERR_TCB_NULL k)
        else
          let k = deref t k;
              k = (if state (tcb_of k t) = HRT_READY
                   then let k = tcb_upd t (\<lambda>u. u\<lparr>slice_left := timeslice_cfg u\<rparr>) k
                        in rq_push B (prio (tcb_of k t)) (uint (word_of_int (g_current k) :: u8)) k
                   else k);
              k = port_pend_context_switch B k
          in port_yield_to_scheduler B k)"

definition hrt__get_current :: "'p kernel_scheme \<Rightarrow> int" where
  "hrt__get_current k = g_current k"

definition hrt_task_delete :: "'p env \<Rightarrow> 'p kernel_scheme \<Rightarrow> bool \<times> 'p kernel_scheme" where
  "hrt_task_delete B k =
     (let cur = hrt__get_current k in
      if cur < 0 \<or> cur = HRT_IDLE_ID B then (False, k)
      else
        let k = port_crit_enter B k;
            t = hrt__tcb B cur;
            k = (if t \<noteq> None then tcb_upd t (\<lambda>u. u\<lparr>state := HRT_UNUSED\<rparr>) k else k);
            k = port_crit_exit B k;
            k = port_pend_context_switch B k
        in port_yield_to_scheduler B k)"

section \<open>Time and runtime tuning\<close>

definition hrt_tick_now :: "'p kernel_scheme \<Rightarrow> u32" where
  "hrt_tick_now k = g_tick k"

definition hrt_now_ms :: "'p kernel_scheme \<Rightarrow> u32" where
  "hrt_now_ms k =
     (if g_tick_hz k = 0 then 0
      else ucast (((ucast (g_tick k) :: u64) * 1000) div ucast (g_tick_hz k)))"

definition hrt_set_policy :: "hrt_policy \<Rightarrow> 'p kernel_scheme \<Rightarrow> 'p kernel_scheme" where
  "hrt_set_policy p k = k\<lparr>g_policy := p\<rparr>"

definition hrt_set_default_timeslice :: "u16 \<Rightarrow> 'p kernel_scheme \<Rightarrow> 'p kernel_scheme" where
  "hrt_set_default_timeslice t k = k\<lparr>g_default_slice := t\<rparr>"

section \<open>Helpers used by the tick, the primitives and the ports\<close>

definition hrt__make_ready :: "'p env \<Rightarrow> int \<Rightarrow> 'p kernel_scheme \<Rightarrow> 'p kernel_scheme" where
  "hrt__make_ready B i k =
     (if HARDRT_DEBUG B \<and> (i < 0 \<or> i \<ge> int (HARDRT_MAX_TASKS B)) then hrt_error ERR_INVALID_ID k
      else let t = hrt__tcb B i in
        if HARDRT_DEBUG B \<and> t = None then hrt_error ERR_TCB_NULL k
        else if HARDRT_DEBUG B \<and> state (tcb_of k t) = HRT_READY then hrt_error ERR_DUP_READY k
        else
          let k = tcb_upd t (\<lambda>u. u\<lparr>state := HRT_READY\<rparr>) k;
              k = tcb_upd t (\<lambda>u. u\<lparr>slice_left := timeslice_cfg u\<rparr>) k
          in rq_push B (prio (tcb_of k t)) (uint (word_of_int i :: u8)) k)"

definition hrt__requeue_noreset :: "'p env \<Rightarrow> int \<Rightarrow> 'p kernel_scheme \<Rightarrow> 'p kernel_scheme" where
  "hrt__requeue_noreset B i k =
     (if HARDRT_DEBUG B \<and> (i < 0 \<or> i \<ge> int (HARDRT_MAX_TASKS B)) then hrt_error ERR_INVALID_ID k
      else let t = hrt__tcb B i in
        if HARDRT_DEBUG B \<and> t = None then hrt_error ERR_TCB_NULL k
        else let k = deref t k in
          if state (tcb_of k t) = HRT_READY
          then rq_push B (prio (tcb_of k t)) (uint (word_of_int i :: u8)) k
          else k)"

function pick_from :: "'p env \<Rightarrow> nat \<Rightarrow> 'p kernel_scheme \<Rightarrow> int \<times> 'p kernel_scheme" where
  "pick_from B p k =
     (if p < HARDRT_MAX_PRIO B
      then (case rq_pop B (word_of_nat p) k of
              (candidate, k') \<Rightarrow>
                if candidate \<ge> 0 then (candidate, k') else pick_from B (Suc p) k')
      else (HRT_IDLE_ID B, k))"
  by pat_completeness auto
termination
  by (relation "measure (\<lambda>(B, p, k). HARDRT_MAX_PRIO B - p)") auto

declare pick_from.simps [simp del]

definition hrt__pick_next_ready :: "'p env \<Rightarrow> 'p kernel_scheme \<Rightarrow> int \<times> 'p kernel_scheme" where
  "hrt__pick_next_ready B k = pick_from B 0 k"

definition hrt__set_current :: "'p env \<Rightarrow> int \<Rightarrow> 'p kernel_scheme \<Rightarrow> 'p kernel_scheme" where
  "hrt__set_current B i k =
     (if HARDRT_DEBUG B \<and> (i < 0 \<or> i \<ge> int (HARDRT_MAX_TASKS B)) then hrt_error ERR_INVALID_ID k
      else k\<lparr>g_current := i\<rparr>)"

definition hrt__inc_tick :: "'p kernel_scheme \<Rightarrow> 'p kernel_scheme" where
  "hrt__inc_tick k = k\<lparr>g_tick := g_tick k + 1\<rparr>"

definition hrt__policy :: "'p kernel_scheme \<Rightarrow> hrt_policy" where
  "hrt__policy k = g_policy k"

definition hrt__cfg_core_hz :: "'p kernel_scheme \<Rightarrow> u32" where
  "hrt__cfg_core_hz k = g_core_hz k"

definition hrt__cfg_tick_src :: "'p kernel_scheme \<Rightarrow> hrt_tick_source" where
  "hrt__cfg_tick_src k = g_tick_src k"

definition hrt__cfg_tick_hz :: "'p kernel_scheme \<Rightarrow> u32" where
  "hrt__cfg_tick_hz k = g_tick_hz k"

definition hrt__save_current_sp :: "'p env \<Rightarrow> uintptr \<Rightarrow> 'p kernel_scheme \<Rightarrow> 'p kernel_scheme" where
  "hrt__save_current_sp B s k = set_sp B (hrt__get_current k) s k"

definition hrt__load_next_sp_and_set_current ::
  "'p env \<Rightarrow> int \<Rightarrow> 'p kernel_scheme \<Rightarrow> uintptr \<times> 'p kernel_scheme" where
  "hrt__load_next_sp_and_set_current B next_id k =
     (case get_sp B next_id k of (s, k) \<Rightarrow> (s, hrt__set_current B next_id k))"

definition rr_policy :: "hrt_policy \<Rightarrow> bool" where
  "rr_policy pol \<longleftrightarrow> pol = HRT_SCHED_RR \<or> pol = HRT_SCHED_PRIORITY_RR"

definition hrt__on_scheduler_entry :: "'p env \<Rightarrow> 'p kernel_scheme \<Rightarrow> 'p kernel_scheme" where
  "hrt__on_scheduler_entry B k =
     (let t = hrt__tcb B (g_current k) in
      if HARDRT_DEBUG B \<and> t = None then hrt_error ERR_TCB_NULL k
      else let k = deref t k in
        if state (tcb_of k t) \<noteq> HRT_READY then k
        else if rr_policy (g_policy k) \<and> timeslice_cfg (tcb_of k t) > 0 \<and> slice_left (tcb_of k t) = 0
        then let k = tcb_upd t (\<lambda>u. u\<lparr>slice_left := timeslice_cfg u\<rparr>) k
             in rq_push B (prio (tcb_of k t)) (uint (word_of_int (g_current k) :: u8)) k
        else k)"

definition hrt__test_set_tick :: "u32 \<Rightarrow> 'p kernel_scheme \<Rightarrow> 'p kernel_scheme" where
  "hrt__test_set_tick v k = k\<lparr>g_tick := v\<rparr>"

definition hrt__test_get_tick :: "'p kernel_scheme \<Rightarrow> u32" where
  "hrt__test_get_tick k = g_tick k"

section \<open>The scheduling decision of a preemptive port\<close>

definition hrt__schedule :: "'p env \<Rightarrow> uintptr \<Rightarrow> 'p kernel_scheme \<Rightarrow> uintptr \<times> 'p kernel_scheme" where
  "hrt__schedule B old_sp k =
     (let k = (if old_sp \<noteq> 0
               then
                 let k = (if HARDRT_DEBUG B \<and>
                             (g_current k < 0 \<or> g_current k \<ge> int (HARDRT_MAX_TASKS B))
                          then hrt_error ERR_INVALID_ID k else k);
                     cur = hrt__tcb B (g_current k);
                     k = (if HARDRT_DEBUG B \<and> cur = None then hrt_error ERR_TCB_NULL k else k);
                     k = set_sp B (g_current k) old_sp k;
                     k = deref cur k
                 in if state (tcb_of k cur) = HRT_READY
                    then rq_push B (prio (tcb_of k cur)) (g_current k) k else k
               else k)
      in case hrt__pick_next_ready B k of
           (next_id, k) \<Rightarrow>
             let k = (if HARDRT_DEBUG B \<and> (next_id < 0 \<or> next_id \<ge> int (HARDRT_MAX_TASKS B))
                      then hrt_error ERR_INVALID_NEXT_ID k else k);
                 k = hrt__set_current B next_id k
             in get_sp B next_id k)"

end
