(* ===== verification/HRT_Ready.thy ===== *)
theory HRT_Ready
  imports HRT_Core
begin

text \<open>
  The ready queues: what they contain, the invariant between them and the task states, and
  the choice of the next task.

  \<^item> \<open>rq_list B k p\<close> is the content of the ready queue of priority \<open>p\<close>, \<open>abs_rq\<close> the list of
    all of them; \<open>spec_pick\<close> is the scheduling rule over such lists.
  \<^item> \<open>kshape\<close> is well-formedness of the arrays and rings. \<open>kwf\<close> adds that a queued id names a
    READY task of that priority and occurs once. \<open>kinv B R k\<close> adds that every READY task is
    queued, except exactly the tasks in \<open>R\<close>; \<open>R\<close> holds the running task while it runs.
  \<^item> The lemmas say what pushing, popping, waking and choosing do to these, and that none of
    them faults or reports an error in a well-formed state.
\<close>

section \<open>Content and invariant\<close>

definition rq_list :: "'p env \<Rightarrow> 'p kernel_scheme \<Rightarrow> nat \<Rightarrow> nat list" where
  "rq_list B k p =
     (let q = g_rq k ! p in map unat (ring_list (HARDRT_MAX_TASKS B) (rq_q q) (rq_head q) (rq_count q)))"

definition abs_rq :: "'p env \<Rightarrow> 'p kernel_scheme \<Rightarrow> nat list list" where
  "abs_rq B k = map (rq_list B k) [0..<HARDRT_MAX_PRIO B]"

fun spec_pick :: "nat list list \<Rightarrow> nat option \<times> nat list list" where
  "spec_pick [] = (None, [])"
| "spec_pick ([] # qs) = (case spec_pick qs of (r, qs') \<Rightarrow> (r, [] # qs'))"
| "spec_pick ((x # xs) # qs) = (Some x, xs # qs)"

definition prio_q_ok :: "nat \<Rightarrow> prio_q \<Rightarrow> bool" where
  "prio_q_ok n q \<longleftrightarrow> ring_ok n (rq_q q) (rq_head q) (rq_tail q) (rq_count q)"

definition kshape :: "'p env \<Rightarrow> 'p kernel_scheme \<Rightarrow> bool" where
  "kshape B k \<longleftrightarrow> valid_build B \<and> length (g_tcbs k) = HARDRT_MAX_TASKS B \<and>
     length (g_rq k) = HARDRT_MAX_PRIO B \<and>
     (\<forall>p < HARDRT_MAX_PRIO B. prio_q_ok (HARDRT_MAX_TASKS B) (g_rq k ! p))"

definition queued :: "'p env \<Rightarrow> 'p kernel_scheme \<Rightarrow> nat \<Rightarrow> bool" where
  "queued B k i \<longleftrightarrow> (\<exists>p < HARDRT_MAX_PRIO B. i \<in> set (rq_list B k p))"

definition kwf :: "'p env \<Rightarrow> 'p kernel_scheme \<Rightarrow> bool" where
  "kwf B k \<longleftrightarrow> kshape B k \<and>
     (\<forall>p < HARDRT_MAX_PRIO B. distinct (rq_list B k p) \<and>
        (\<forall>i \<in> set (rq_list B k p). i < HARDRT_MAX_TASKS B \<and>
           state (g_tcbs k ! i) = HRT_READY \<and> unat (prio (g_tcbs k ! i)) = p)) \<and>
     (\<forall>i < HARDRT_MAX_TASKS B. state (g_tcbs k ! i) \<noteq> HRT_UNUSED \<longrightarrow>
        unat (prio (g_tcbs k ! i)) < HARDRT_MAX_PRIO B)"

definition kinv :: "'p env \<Rightarrow> nat set \<Rightarrow> 'p kernel_scheme \<Rightarrow> bool" where
  "kinv B R k \<longleftrightarrow> kwf B k \<and>
     (\<forall>i < HARDRT_MAX_TASKS B. state (g_tcbs k ! i) = HRT_READY \<longrightarrow> (queued B k i \<longleftrightarrow> i \<notin> R))"

section \<open>Access to control blocks in range\<close>

lemma hrt__tcb_in_range [simp]:
  "0 \<le> i \<Longrightarrow> i < int (HARDRT_MAX_TASKS B) \<Longrightarrow> hrt__tcb B i = Some i"
  by (simp add: hrt__tcb_def)

lemma tcb_valid_Some [simp]: "tcb_valid k (Some (int i)) \<longleftrightarrow> i < length (g_tcbs k)"
  by (simp add: tcb_valid_def)

lemma deref_Some [simp]: "i < length (g_tcbs k) \<Longrightarrow> deref (Some (int i)) k = k"
  by (simp add: deref_def)

lemma tcb_of_Some [simp]: "i < length (g_tcbs k) \<Longrightarrow> tcb_of k (Some (int i)) = g_tcbs k ! i"
  by (simp add: tcb_of_def)

lemma tcb_upd_Some [simp]:
  "i < length (g_tcbs k) \<Longrightarrow>
   tcb_upd (Some (int i)) f k = k\<lparr>g_tcbs := (g_tcbs k)[i := f (g_tcbs k ! i)]\<rparr>"
  by (simp add: tcb_upd_def)

lemma uint_u8_small [simp]: "i < 256 \<Longrightarrow> uint (word_of_nat i :: u8) = int i"
  by (simp add: unsigned_of_nat take_bit_nat_eq_self)

lemma uint_u8_of_int [simp]: "i < 256 \<Longrightarrow> uint (word_of_int (int i) :: u8) = int i"
  by (simp add: unsigned_of_int take_bit_int_eq_self)

lemma unat_u8_of_int [simp]: "i < 256 \<Longrightarrow> unat (word_of_int (int i) :: u8) = i"
  by simp

section \<open>Fields the queue operations leave alone\<close>

lemma hrt_error_fields [simp]:
  "g_tcbs (hrt_error e k) = g_tcbs k" "g_current (hrt_error e k) = g_current k"
  "g_tick (hrt_error e k) = g_tick k" "g_tick_hz (hrt_error e k) = g_tick_hz k"
  "g_policy (hrt_error e k) = g_policy k" "g_rq (hrt_error e k) = g_rq k"
  "g_fault (hrt_error e k) = g_fault k" "g_error (hrt_error e k) = e"
  "g_tick_src (hrt_error e k) = g_tick_src k"
  by (simp_all add: hrt_error_def)

lemma rq_push_fields [simp]:
  "g_tcbs (rq_push B p i k) = g_tcbs k" "g_current (rq_push B p i k) = g_current k"
  "g_tick (rq_push B p i k) = g_tick k" "g_tick_hz (rq_push B p i k) = g_tick_hz k"
  "g_policy (rq_push B p i k) = g_policy k" "g_fault (rq_push B p i k) = g_fault k"
  "g_tick_src (rq_push B p i k) = g_tick_src k"
  by (simp_all add: rq_push_def Let_def)

lemma rq_pop_fields [simp]:
  "g_tcbs (snd (rq_pop B p k)) = g_tcbs k" "g_current (snd (rq_pop B p k)) = g_current k"
  "g_tick (snd (rq_pop B p k)) = g_tick k" "g_tick_hz (snd (rq_pop B p k)) = g_tick_hz k"
  "g_policy (snd (rq_pop B p k)) = g_policy k" "g_fault (snd (rq_pop B p k)) = g_fault k"
  "g_tick_src (snd (rq_pop B p k)) = g_tick_src k"
  by (simp_all add: rq_pop_def Let_def)

lemma rq_list_cong: "g_rq k = g_rq k' \<Longrightarrow> rq_list B k = rq_list B k'"
  by (simp add: rq_list_def fun_eq_iff)

lemma rq_list_upd [simp]:
  "rq_list B (k\<lparr>g_tcbs := t\<rparr>) = rq_list B k" "rq_list B (k\<lparr>g_error := e\<rparr>) = rq_list B k"
  "rq_list B (k\<lparr>g_current := c\<rparr>) = rq_list B k" "rq_list B (k\<lparr>g_tick := n\<rparr>) = rq_list B k"
  "rq_list B (hrt_error e k) = rq_list B k"
  by (simp_all add: rq_list_def fun_eq_iff hrt_error_def)

section \<open>Pushing and popping\<close>

lemma kshapeD:
  assumes "kshape B k"
  shows "valid_build B" "length (g_tcbs k) = HARDRT_MAX_TASKS B"
    "length (g_rq k) = HARDRT_MAX_PRIO B"
    "p < HARDRT_MAX_PRIO B \<Longrightarrow> prio_q_ok (HARDRT_MAX_TASKS B) (g_rq k ! p)"
  using assms by (simp_all add: kshape_def)

lemma length_rq_list: "length (rq_list B k p) = unat (rq_count (g_rq k ! p))"
  by (simp add: rq_list_def Let_def)

lemma rq_push_room:
  assumes "kshape B k" "unat p < HARDRT_MAX_PRIO B" "i < HARDRT_MAX_TASKS B"
    "length (rq_list B k (unat p)) < HARDRT_MAX_TASKS B"
  shows "kshape B (rq_push B p (int i) k)"
    and "rq_list B (rq_push B p (int i) k) r = rq_list B k r @ (if r = unat p then [i] else [])"
    and "g_error (rq_push B p (int i) k) = g_error k"
proof -
  let ?N = "HARDRT_MAX_TASKS B" and ?q = "g_rq k ! unat p"
  have sh: "valid_build B" "length (g_tcbs k) = ?N" "length (g_rq k) = HARDRT_MAX_PRIO B"
    using assms(1) by (auto simp: kshape_def)
  have ok: "ring_ok ?N (rq_q ?q) (rq_head ?q) (rq_tail ?q) (rq_count ?q)"
    using assms(1,2) by (simp add: kshape_def prio_q_ok_def)
  have room: "unat (rq_count ?q) < ?N" using assms(4) by (simp add: length_rq_list)
  have i: "i < 256" using assms(3) valid_build_bounds [OF sh(1)] by simp
  have eq: "rq_push B p (int i) k = k\<lparr>g_rq := (g_rq k)[unat p :=
      ?q\<lparr>rq_q := (rq_q ?q)[unat (rq_tail ?q) := word_of_int (int i)],
         rq_tail := next_idx ?N (rq_tail ?q), rq_count := rq_count ?q + 1\<rparr>]\<rparr>"
    using assms(2,3) room by (simp add: rq_push_def Let_def)
  show "kshape B (rq_push B p (int i) k)"
    using assms(1,2) sh ring_push_ok [OF ok room, of "word_of_int (int i)"]
    by (auto simp: eq kshape_def prio_q_ok_def nth_update_if)
  show "rq_list B (rq_push B p (int i) k) r = rq_list B k r @ (if r = unat p then [i] else [])"
    using assms(2) sh i ring_push_list [OF ok room, of "word_of_int (int i)"]
    by (simp add: eq rq_list_def Let_def del: of_int_of_nat_eq)
  show "g_error (rq_push B p (int i) k) = g_error k" by (simp add: eq)
qed

lemma rq_push_full:
  assumes "unat p < HARDRT_MAX_PRIO B" "i < HARDRT_MAX_TASKS B"
    "length (rq_list B k (unat p)) \<ge> HARDRT_MAX_TASKS B"
  shows "rq_push B p (int i) k = hrt_error ERR_RQ_OVERFLOW k"
  using assms by (simp add: rq_push_def Let_def length_rq_list)

lemma rq_push_bad_prio:
  "unat p \<ge> HARDRT_MAX_PRIO B \<Longrightarrow> rq_push B p i k = hrt_error ERR_INVALID_PRIO k"
  by (simp add: rq_push_def)

lemma rq_pop_empty:
  assumes "unat p < HARDRT_MAX_PRIO B" "rq_list B k (unat p) = []"
  shows "rq_pop B p k = (-1, k)"
  using assms by (auto simp: rq_pop_def rq_list_def Let_def)

lemma rq_pop_Cons:
  assumes "kshape B k" "unat p < HARDRT_MAX_PRIO B" "rq_list B k (unat p) = i # js"
    "i < HARDRT_MAX_TASKS B"
  shows "fst (rq_pop B p k) = int i"
    and "kshape B (snd (rq_pop B p k))"
    and "rq_list B (snd (rq_pop B p k)) r = (if r = unat p then js else rq_list B k r)"
    and "g_error (snd (rq_pop B p k)) = g_error k"
proof -
  let ?N = "HARDRT_MAX_TASKS B" and ?q = "g_rq k ! unat p"
  have sh: "valid_build B" "length (g_tcbs k) = ?N" "length (g_rq k) = HARDRT_MAX_PRIO B"
    using assms(1) by (auto simp: kshape_def)
  have ok: "ring_ok ?N (rq_q ?q) (rq_head ?q) (rq_tail ?q) (rq_count ?q)"
    using assms(1,2) by (simp add: kshape_def prio_q_ok_def)
  obtain w ws where ws: "ring_list ?N (rq_q ?q) (rq_head ?q) (rq_count ?q) = w # ws"
    and w: "unat w = i" "map unat ws = js"
    using assms(3) by (auto simp: rq_list_def Let_def map_eq_Cons_conv)
  note hd = ring_list_hd [OF ok ws]
  have wi: "uint w = int i" using w(1) by (metis int_nat_eq uint_nat)
  have eq: "rq_pop B p k = (int i, k\<lparr>g_rq := (g_rq k)[unat p :=
      ?q\<lparr>rq_head := next_idx ?N (rq_head ?q), rq_count := rq_count ?q - 1\<rparr>]\<rparr>)"
    using assms(2,4) hd(1,3) wi by (simp add: rq_pop_def Let_def)
  show "fst (rq_pop B p k) = int i" by (simp add: eq)
  show "kshape B (snd (rq_pop B p k))"
    using assms(1,2) sh ring_pop_ok [OF ok hd(3)]
    by (auto simp: eq kshape_def prio_q_ok_def nth_update_if)
  show "rq_list B (snd (rq_pop B p k)) r = (if r = unat p then js else rq_list B k r)"
    using assms(2) sh hd w by (simp add: eq rq_list_def Let_def)
  show "g_error (snd (rq_pop B p k)) = g_error k" by (simp add: eq)
qed

section \<open>A ready queue offers the bounded-queue interface\<close>

definition rq_inv :: "'p env \<Rightarrow> u8 \<Rightarrow> 'p kernel_scheme \<Rightarrow> bool" where
  "rq_inv B p k \<longleftrightarrow> kshape B k \<and> unat p < HARDRT_MAX_PRIO B \<and>
     (\<forall>i \<in> set (rq_list B k (unat p)). i < HARDRT_MAX_TASKS B)"

lemma rq_list_bound: "kshape B k \<Longrightarrow> p < HARDRT_MAX_PRIO B \<Longrightarrow>
    length (rq_list B k p) \<le> HARDRT_MAX_TASKS B"
  by (auto simp: length_rq_list kshape_def prio_q_ok_def dest: ring_ok_count)

lemma rq_list_hrt_error_full:
  "unat p < HARDRT_MAX_PRIO B \<Longrightarrow> i < HARDRT_MAX_TASKS B \<Longrightarrow>
   length (rq_list B k (unat p)) = HARDRT_MAX_TASKS B \<Longrightarrow>
   rq_list B (rq_push B p (int i) k) = rq_list B k"
  by (simp add: rq_push_full)

lemma rq_inv_push:
  assumes "rq_inv B p k" "i < HARDRT_MAX_TASKS B"
  shows "rq_inv B p (rq_push B p (int i) k)"
proof (cases "length (rq_list B k (unat p)) < HARDRT_MAX_TASKS B")
  case True
  with assms show ?thesis by (auto simp: rq_inv_def rq_push_room)
next
  case False
  with assms show ?thesis by (simp add: rq_inv_def rq_push_full kshape_def)
qed

lemma rq_inv_pop:
  assumes "rq_inv B p k"
  shows "rq_inv B p (snd (rq_pop B p k))"
proof (cases "rq_list B k (unat p)")
  case Nil
  with assms show ?thesis by (simp add: rq_inv_def rq_pop_empty)
next
  case (Cons i js)
  with assms have "i < HARDRT_MAX_TASKS B" by (auto simp: rq_inv_def)
  with Cons assms rq_pop_Cons [of B k p i js] show ?thesis by (auto simp: rq_inv_def)
qed

interpretation rq: bounded_fifo "\<lambda>i. rq_push B p (int i)" "rq_pop B p" "-1" int
    "rq_inv B p" "\<lambda>k. rq_list B k (unat p)" "\<lambda>k. HARDRT_MAX_TASKS B"
    "\<lambda>i. i < HARDRT_MAX_TASKS B" for B :: "'p env" and p :: u8
proof (unfold_locales, goal_cases)
  case (1 k i)
  then show ?case by (simp add: rq_inv_def rq_push_room)
next
  case (2 k i)
  then show ?case by (simp add: rq_inv_def rq_list_hrt_error_full)
next
  case (3 k i)
  then show ?case by (rule rq_inv_push)
next
  case (5 k)
  then show ?case by (simp add: rq_inv_def rq_pop_empty)
next
  case (6 k i js)
  then show ?case by (auto simp: rq_inv_def intro: rq_pop_Cons(1))
next
  case (7 k i js)
  then show ?case using rq_pop_Cons(3) [of B k p i js "unat p"] by (auto simp: rq_inv_def)
next
  case (8 k)
  then show ?case by (rule rq_inv_pop)
next
  case (10 k)
  then show ?case by (simp add: rq_inv_def rq_list_bound)
qed simp_all

section \<open>Queues and task states\<close>

lemma kwf_shape: "kwf B k \<Longrightarrow> kshape B k"
  by (simp add: kwf_def)

lemma kinv_kwf: "kinv B R k \<Longrightarrow> kwf B k"
  by (simp add: kinv_def)

lemma kwf_sizes:
  assumes "kwf B k"
  shows "valid_build B" "length (g_tcbs k) = HARDRT_MAX_TASKS B"
    "length (g_rq k) = HARDRT_MAX_PRIO B" "HARDRT_MAX_TASKS B < 256" "HARDRT_MAX_PRIO B < 256"
    "0 < HARDRT_MAX_TASKS B"
  using assms by (auto simp: kwf_def kshape_def valid_build_def)

lemma kwf_queued:
  assumes "kwf B k" "queued B k i"
  shows "i < HARDRT_MAX_TASKS B" "state (g_tcbs k ! i) = HRT_READY"
  using assms by (auto simp: kwf_def queued_def)

lemma kwf_in_rq:
  assumes "kwf B k" "p < HARDRT_MAX_PRIO B" "i \<in> set (rq_list B k p)"
  shows "i < HARDRT_MAX_TASKS B" "state (g_tcbs k ! i) = HRT_READY"
    "unat (prio (g_tcbs k ! i)) = p" "queued B k i"
  using assms by (auto simp: kwf_def queued_def)

lemma kwf_prio:
  "kwf B k \<Longrightarrow> i < HARDRT_MAX_TASKS B \<Longrightarrow> state (g_tcbs k ! i) \<noteq> HRT_UNUSED \<Longrightarrow>
   unat (prio (g_tcbs k ! i)) < HARDRT_MAX_PRIO B"
  by (simp add: kwf_def)

lemma kwf_room:
  assumes "kwf B k" "i < HARDRT_MAX_TASKS B" "\<not> queued B k i" "p < HARDRT_MAX_PRIO B"
  shows "length (rq_list B k p) < HARDRT_MAX_TASKS B"
  using assms by (intro distinct_bounded_length_less [where y = i]) (auto simp: kwf_def queued_def)

lemma kwf_write:
  assumes "kwf B k" "\<not> queued B k i"
    "state t \<noteq> HRT_UNUSED \<Longrightarrow> unat (prio t) < HARDRT_MAX_PRIO B"
  shows "kwf B (k\<lparr>g_tcbs := (g_tcbs k)[i := t]\<rparr>)"
  using assms by (auto simp: kwf_def kshape_def queued_def nth_update_if)

lemma kwf_write_same:
  assumes "kwf B k" "state t = state (g_tcbs k ! i)" "prio t = prio (g_tcbs k ! i)"
  shows "kwf B (k\<lparr>g_tcbs := (g_tcbs k)[i := t]\<rparr>)"
  using assms(1) nth_update_same [where f = state and t = t and xs = "g_tcbs k" and i = i]
    nth_update_same [where f = prio and t = t and xs = "g_tcbs k" and i = i] assms(2,3)
  by (simp add: kwf_def kshape_def)

lemma queued_upd [simp]:
  "queued B (k\<lparr>g_tcbs := t\<rparr>) i \<longleftrightarrow> queued B k i" "queued B (k\<lparr>g_error := e\<rparr>) i \<longleftrightarrow> queued B k i"
  "queued B (k\<lparr>g_current := c\<rparr>) i \<longleftrightarrow> queued B k i" "queued B (k\<lparr>g_tick := n\<rparr>) i \<longleftrightarrow> queued B k i"
  by (simp_all add: queued_def)

lemma kwf_push:
  assumes "kwf B k" "i < HARDRT_MAX_TASKS B" "\<not> queued B k i" "state (g_tcbs k ! i) = HRT_READY"
  shows "kwf B (rq_push B (prio (g_tcbs k ! i)) (int i) k)"
    and "queued B (rq_push B (prio (g_tcbs k ! i)) (int i) k) j \<longleftrightarrow> queued B k j \<or> j = i"
    and "rq_list B (rq_push B (prio (g_tcbs k ! i)) (int i) k) r =
         rq_list B k r @ (if r = unat (prio (g_tcbs k ! i)) then [i] else [])"
    and "g_error (rq_push B (prio (g_tcbs k ! i)) (int i) k) = g_error k"
proof -
  let ?p = "prio (g_tcbs k ! i)"
  have p: "unat ?p < HARDRT_MAX_PRIO B" using kwf_prio [OF assms(1,2)] assms(4) by simp
  note push = rq_push_room [OF kwf_shape [OF assms(1)] p assms(2) kwf_room [OF assms(1-3) p]]
  have "i \<notin> set (rq_list B k (unat ?p))" using assms(3) p by (auto simp: queued_def)
  then have "distinct (rq_list B (rq_push B ?p (int i) k) r) \<and>
      (\<forall>j \<in> set (rq_list B (rq_push B ?p (int i) k) r). j < HARDRT_MAX_TASKS B \<and>
         state (g_tcbs k ! j) = HRT_READY \<and> unat (prio (g_tcbs k ! j)) = r)"
    if "r < HARDRT_MAX_PRIO B" for r
    using assms(2,4) kwf_in_rq(1-3) [OF assms(1) that] assms(1) that unfolding push(2) kwf_def by auto
  with push(1) assms(1) show "kwf B (rq_push B ?p (int i) k)"
    unfolding kwf_def by simp
  show "queued B (rq_push B ?p (int i) k) j \<longleftrightarrow> queued B k j \<or> j = i"
    using p by (auto simp: queued_def push)
  show "rq_list B (rq_push B ?p (int i) k) r = rq_list B k r @ (if r = unat ?p then [i] else [])"
    by (rule push)
  show "g_error (rq_push B ?p (int i) k) = g_error k" by (rule push)
qed

lemma kinv_push:
  assumes "kinv B R k" "i < HARDRT_MAX_TASKS B" "i \<in> R" "state (g_tcbs k ! i) = HRT_READY"
  shows "kinv B (R - {i}) (rq_push B (prio (g_tcbs k ! i)) (int i) k)"
proof -
  have nq: "\<not> queued B k i" using assms by (simp add: kinv_def)
  note push = kwf_push [OF kinv_kwf [OF assms(1)] assms(2) nq assms(4)]
  show ?thesis using assms by (auto simp: kinv_def push)
qed

lemma kinv_write_idle:
  assumes "kinv B R k" "\<not> queued B k i" "state t \<noteq> HRT_READY"
    "state t \<noteq> HRT_UNUSED \<Longrightarrow> unat (prio t) < HARDRT_MAX_PRIO B"
  shows "kinv B (R - {i}) (k\<lparr>g_tcbs := (g_tcbs k)[i := t]\<rparr>)"
  using assms kwf_write [OF kinv_kwf [OF assms(1)] assms(2), of t] kwf_sizes(2) [OF kinv_kwf [OF assms(1)]]
  by (auto simp: kinv_def nth_update_if)

lemma kinv_write_same:
  assumes "kinv B R k" "state t = state (g_tcbs k ! i)" "prio t = prio (g_tcbs k ! i)"
  shows "kinv B R (k\<lparr>g_tcbs := (g_tcbs k)[i := t]\<rparr>)"
  using assms kwf_write_same [OF kinv_kwf [OF assms(1)] assms(2,3)]
    nth_update_same [where f = state and t = t and xs = "g_tcbs k" and i = i]
  by (simp add: kinv_def)

section \<open>Waking a task\<close>

definition ready_tcb :: "hrt_tcb \<Rightarrow> hrt_tcb" where
  "ready_tcb t = t\<lparr>state := HRT_READY, slice_left := timeslice_cfg t\<rparr>"

lemma ready_tcb_fields [simp]:
  "state (ready_tcb t) = HRT_READY" "prio (ready_tcb t) = prio t"
  "slice_left (ready_tcb t) = timeslice_cfg t" "timeslice_cfg (ready_tcb t) = timeslice_cfg t"
  "wake_tick (ready_tcb t) = wake_tick t" "sp (ready_tcb t) = sp t"
  by (simp_all add: ready_tcb_def)

lemma make_ready_eq:
  assumes "kwf B k" "i < HARDRT_MAX_TASKS B" "state (g_tcbs k ! i) \<noteq> HRT_READY"
  shows "hrt__make_ready B (int i) k =
         rq_push B (prio (g_tcbs k ! i)) (int i) (k\<lparr>g_tcbs := (g_tcbs k)[i := ready_tcb (g_tcbs k ! i)]\<rparr>)"
  using assms kwf_sizes [OF assms(1)]
  by (simp add: hrt__make_ready_def Let_def ready_tcb_def)

lemma make_ready_wakes:
  assumes "kinv B R k" "i < HARDRT_MAX_TASKS B"
    "state (g_tcbs k ! i) \<noteq> HRT_READY" "state (g_tcbs k ! i) \<noteq> HRT_UNUSED"
  shows "kinv B (R - {i}) (hrt__make_ready B (int i) k)"
    and "g_tcbs (hrt__make_ready B (int i) k) = (g_tcbs k)[i := ready_tcb (g_tcbs k ! i)]"
    and "rq_list B (hrt__make_ready B (int i) k) r =
         rq_list B k r @ (if r = unat (prio (g_tcbs k ! i)) then [i] else [])"
    and "g_error (hrt__make_ready B (int i) k) = g_error k"
    and "g_fault (hrt__make_ready B (int i) k) = g_fault k"
proof -
  let ?k = "k\<lparr>g_tcbs := (g_tcbs k)[i := ready_tcb (g_tcbs k ! i)]\<rparr>"
  note wf = kinv_kwf [OF assms(1)]
  note sz = kwf_sizes [OF wf]
  note eq = make_ready_eq [OF wf assms(2,3)]
  have nq: "\<not> queued B k i" using kwf_queued [OF wf] assms(3) by blast
  have wf': "kwf B ?k"
    using nq kwf_prio [OF wf assms(2,4)] by (intro kwf_write [OF wf]) simp_all
  have tcb: "g_tcbs ?k ! i = ready_tcb (g_tcbs k ! i)" using assms(2) sz by simp
  have push: "kwf B (hrt__make_ready B (int i) k)"
    "queued B (hrt__make_ready B (int i) k) j \<longleftrightarrow> queued B k j \<or> j = i"
    "rq_list B (hrt__make_ready B (int i) k) r =
         rq_list B k r @ (if r = unat (prio (g_tcbs k ! i)) then [i] else [])"
    "g_error (hrt__make_ready B (int i) k) = g_error k" for j r
    using kwf_push [OF wf' assms(2), unfolded tcb] nq by (simp_all add: eq)
  show tcbs: "g_tcbs (hrt__make_ready B (int i) k) = (g_tcbs k)[i := ready_tcb (g_tcbs k ! i)]"
    and "g_fault (hrt__make_ready B (int i) k) = g_fault k"
    by (simp_all add: eq)
  show "kinv B (R - {i}) (hrt__make_ready B (int i) k)"
    using assms(1) push(1) sz(2) by (auto simp: kinv_def push(2) tcbs nth_update_if)
  show "rq_list B (hrt__make_ready B (int i) k) r =
         rq_list B k r @ (if r = unat (prio (g_tcbs k ! i)) then [i] else [])"
    "g_error (hrt__make_ready B (int i) k) = g_error k"
    by (rule push)+
qed

lemma tcb_upd_fields [simp]:
  "g_current (tcb_upd t f k) = g_current k" "g_tick (tcb_upd t f k) = g_tick k"
  "g_tick_hz (tcb_upd t f k) = g_tick_hz k" "g_policy (tcb_upd t f k) = g_policy k"
  "g_rq (tcb_upd t f k) = g_rq k" "g_error (tcb_upd t f k) = g_error k"
  "g_tick_src (tcb_upd t f k) = g_tick_src k"
  by (simp_all add: tcb_upd_def)

lemma make_ready_fields [simp]:
  "g_current (hrt__make_ready B i k) = g_current k" "g_tick (hrt__make_ready B i k) = g_tick k"
  "g_tick_hz (hrt__make_ready B i k) = g_tick_hz k" "g_policy (hrt__make_ready B i k) = g_policy k"
  "g_tick_src (hrt__make_ready B i k) = g_tick_src k"
  by (simp_all add: hrt__make_ready_def Let_def)

section \<open>Choosing the next task\<close>

lemma unat_prio_word: "valid_build B \<Longrightarrow> p < HARDRT_MAX_PRIO B \<Longrightarrow> unat (word_of_nat p :: u8) = p"
  by (simp add: valid_build_def)

lemma pick_from_idle:
  assumes "valid_build B" "\<And>r. p \<le> r \<Longrightarrow> r < HARDRT_MAX_PRIO B \<Longrightarrow> rq_list B k r = []"
  shows "pick_from B p k = (HRT_IDLE_ID B, k)"
  using assms
proof (induction B p k rule: pick_from.induct)
  case (1 B p k)
  show ?case
  proof (cases "p < HARDRT_MAX_PRIO B")
    case True
    have "rq_pop B (word_of_nat p) k = (-1, k)"
      using True "1.prems" by (intro rq_pop_empty) (simp_all add: unat_prio_word)
    moreover have "pick_from B (Suc p) k = (HRT_IDLE_ID B, k)"
      using "1.IH" [OF True calculation [symmetric]] "1.prems" by simp
    ultimately show ?thesis using True by (subst pick_from.simps) simp
  next
    case False
    then show ?thesis by (subst pick_from.simps) simp
  qed
qed

lemma pick_from_found:
  assumes "kshape B k" "p \<le> r" "r < HARDRT_MAX_PRIO B" "rq_list B k r = i # js" "i < HARDRT_MAX_TASKS B"
    "\<And>q. p \<le> q \<Longrightarrow> q < r \<Longrightarrow> rq_list B k q = []"
  shows "pick_from B p k = (int i, snd (rq_pop B (word_of_nat r) k))"
  using assms
proof (induction B p k rule: pick_from.induct)
  case (1 B p k)
  have p: "p < HARDRT_MAX_PRIO B" "unat (word_of_nat p :: u8) = p"
    using "1.prems"(2,3) kshapeD(1) [OF "1.prems"(1)] unat_prio_word [of B p] by simp_all
  show ?case
  proof (cases "p = r")
    case True
    have "fst (rq_pop B (word_of_nat p) k) = int i"
      using "1.prems" p True by (intro rq_pop_Cons(1)) simp_all
    with p True show ?thesis by (subst pick_from.simps) (simp add: split_beta prod_eq_iff)
  next
    case False
    have pop: "rq_pop B (word_of_nat p) k = (-1, k)"
      using False "1.prems" p by (intro rq_pop_empty) simp_all
    have "pick_from B (Suc p) k = (int i, snd (rq_pop B (word_of_nat r) k))"
      using "1.IH" [OF p(1) pop [symmetric]] "1.prems" False by simp
    with pop p show ?thesis by (subst pick_from.simps) simp
  qed
qed

lemma pick_cases_shape:
  assumes "kshape B k" "\<forall>r < HARDRT_MAX_PRIO B. \<forall>i \<in> set (rq_list B k r). i < HARDRT_MAX_TASKS B"
  obtains (idle) "\<And>r. r < HARDRT_MAX_PRIO B \<Longrightarrow> rq_list B k r = []"
      "hrt__pick_next_ready B k = (HRT_IDLE_ID B, k)"
    | (found) r i js where "r < HARDRT_MAX_PRIO B" "rq_list B k r = i # js"
      "\<And>q. q < r \<Longrightarrow> rq_list B k q = []"
      "hrt__pick_next_ready B k = (int i, snd (rq_pop B (word_of_nat r) k))"
proof (cases "\<exists>r < HARDRT_MAX_PRIO B. rq_list B k r \<noteq> []")
  case False
  then have "pick_from B 0 k = (HRT_IDLE_ID B, k)"
    using kshapeD(1) [OF assms(1)] by (intro pick_from_idle) auto
  with False idle show ?thesis by (auto simp: hrt__pick_next_ready_def)
next
  case True
  define r where "r = (LEAST r. r < HARDRT_MAX_PRIO B \<and> rq_list B k r \<noteq> [])"
  have r: "r < HARDRT_MAX_PRIO B" "rq_list B k r \<noteq> []"
    using LeastI_ex [OF True [unfolded]] unfolding r_def by auto
  have least: "rq_list B k q = []" if "q < r" for q
    using not_less_Least [of q "\<lambda>r. r < HARDRT_MAX_PRIO B \<and> rq_list B k r \<noteq> []"] that r(1)
    unfolding r_def by auto
  from r(2) obtain i js where ij: "rq_list B k r = i # js" by (cases "rq_list B k r") auto
  have "pick_from B 0 k = (int i, snd (rq_pop B (word_of_nat r) k))"
    using r(1) ij least assms(2) by (intro pick_from_found [OF assms(1)]) auto
  with found [OF r(1) ij least] show ?thesis by (simp add: hrt__pick_next_ready_def)
qed

lemma pick_cases:
  assumes "kwf B k"
  obtains (idle) "\<And>r. r < HARDRT_MAX_PRIO B \<Longrightarrow> rq_list B k r = []"
      "hrt__pick_next_ready B k = (HRT_IDLE_ID B, k)"
    | (found) r i js where "r < HARDRT_MAX_PRIO B" "rq_list B k r = i # js"
      "\<And>q. q < r \<Longrightarrow> rq_list B k q = []"
      "hrt__pick_next_ready B k = (int i, snd (rq_pop B (word_of_nat r) k))"
  by (rule pick_cases_shape [OF kwf_shape [OF assms]]) (use assms that in \<open>auto simp: kwf_def\<close>)

lemma pick_found_shape:
  assumes "kshape B k" "r < HARDRT_MAX_PRIO B" "rq_list B k r = i # js" "i < HARDRT_MAX_TASKS B"
    "\<And>q. q < r \<Longrightarrow> rq_list B k q = []"
  shows "fst (hrt__pick_next_ready B k) = int i" "kshape B (snd (hrt__pick_next_ready B k))"
    "rq_list B (snd (hrt__pick_next_ready B k)) q = (if q = r then js else rq_list B k q)"
proof -
  have r: "unat (word_of_nat r :: u8) = r" using unat_prio_word kshapeD(1) [OF assms(1)] assms(2) by blast
  have eq: "hrt__pick_next_ready B k = (int i, snd (rq_pop B (word_of_nat r) k))"
    unfolding hrt__pick_next_ready_def using assms by (intro pick_from_found) auto
  show "fst (hrt__pick_next_ready B k) = int i" "kshape B (snd (hrt__pick_next_ready B k))"
    "rq_list B (snd (hrt__pick_next_ready B k)) q = (if q = r then js else rq_list B k q)"
    using rq_pop_Cons [OF assms(1), of "word_of_nat r", unfolded r, OF assms(2-4)] by (simp_all add: eq)
qed

lemma pick_from_fields:
  "g_tcbs (snd (pick_from B p k)) = g_tcbs k \<and> g_current (snd (pick_from B p k)) = g_current k \<and>
   g_tick (snd (pick_from B p k)) = g_tick k \<and> g_tick_hz (snd (pick_from B p k)) = g_tick_hz k \<and>
   g_policy (snd (pick_from B p k)) = g_policy k \<and> g_fault (snd (pick_from B p k)) = g_fault k \<and>
   g_tick_src (snd (pick_from B p k)) = g_tick_src k"
proof (induction B p k rule: pick_from.induct)
  case (1 B p k)
  show ?case
  proof (cases "p < HARDRT_MAX_PRIO B \<and> fst (rq_pop B (word_of_nat p) k) < 0")
    case True
    then have "pick_from B p k = pick_from B (Suc p) (snd (rq_pop B (word_of_nat p) k))"
      by (subst pick_from.simps) (simp add: split_beta)
    with "1.IH" [of "fst (rq_pop B (word_of_nat p) k)" "snd (rq_pop B (word_of_nat p) k)"] True
    show ?thesis by simp
  next
    case False
    then have "snd (pick_from B p k) = (if p < HARDRT_MAX_PRIO B then snd (rq_pop B (word_of_nat p) k) else k)"
      by (subst pick_from.simps) (auto simp add: split_beta)
    then show ?thesis by simp
  qed
qed

lemma pick_fields [simp]:
  "g_tcbs (snd (hrt__pick_next_ready B k)) = g_tcbs k"
  "g_current (snd (hrt__pick_next_ready B k)) = g_current k"
  "g_tick (snd (hrt__pick_next_ready B k)) = g_tick k"
  "g_tick_hz (snd (hrt__pick_next_ready B k)) = g_tick_hz k"
  "g_policy (snd (hrt__pick_next_ready B k)) = g_policy k"
  "g_fault (snd (hrt__pick_next_ready B k)) = g_fault k"
  "g_tick_src (snd (hrt__pick_next_ready B k)) = g_tick_src k"
  by (simp_all add: hrt__pick_next_ready_def pick_from_fields)

lemma spec_pick_none: "(\<And>q. q \<in> set qs \<Longrightarrow> q = []) \<Longrightarrow> spec_pick qs = (None, qs)"
proof (induction qs)
  case (Cons q qs)
  then show ?case by (cases q) auto
qed simp

lemma spec_pick_some:
  "r < length qs \<Longrightarrow> qs ! r = i # js \<Longrightarrow> (\<And>q. q < r \<Longrightarrow> qs ! q = []) \<Longrightarrow>
   spec_pick qs = (Some i, qs[r := js])"
proof (induction qs arbitrary: r)
  case (Cons x qs)
  show ?case
  proof (cases r)
    case 0
    with Cons.prems show ?thesis by simp
  next
    case (Suc s)
    have x: "x = []" using Cons.prems(3) [of 0] Suc by simp
    have ih: "spec_pick qs = (Some i, qs[s := js])"
    proof (rule Cons.IH)
      show "s < length qs" "qs ! s = i # js" using Cons.prems(1,2) Suc by simp_all
      show "qs ! q = []" if "q < s" for q using Cons.prems(3) [of "Suc q"] Suc that by simp
    qed
    show ?thesis unfolding x using Suc ih by simp
  qed
qed simp

lemma pick_pop:
  assumes "kwf B k" "r < HARDRT_MAX_PRIO B" "rq_list B k r = i # js"
  shows "kshape B (snd (rq_pop B (word_of_nat r) k))"
    and "rq_list B (snd (rq_pop B (word_of_nat r) k)) q = (if q = r then js else rq_list B k q)"
    and "g_error (snd (rq_pop B (word_of_nat r) k)) = g_error k"
    and "i < HARDRT_MAX_TASKS B"
proof -
  have r: "unat (word_of_nat r :: u8) = r"
    using unat_prio_word kwf_sizes(1) [OF assms(1)] assms(2) by blast
  show i: "i < HARDRT_MAX_TASKS B" using kwf_in_rq(1) [OF assms(1,2)] assms(3) by simp
  note pop = rq_pop_Cons [OF kwf_shape [OF assms(1)], of "word_of_nat r", unfolded r, OF assms(2,3) i]
  show "kshape B (snd (rq_pop B (word_of_nat r) k))"
    "rq_list B (snd (rq_pop B (word_of_nat r) k)) q = (if q = r then js else rq_list B k q)"
    "g_error (snd (rq_pop B (word_of_nat r) k)) = g_error k"
    by (rule pop)+
qed

lemma kwf_pop:
  assumes "kwf B k" "r < HARDRT_MAX_PRIO B" "rq_list B k r = i # js"
  shows "kwf B (snd (rq_pop B (word_of_nat r) k))"
    and "queued B (snd (rq_pop B (word_of_nat r) k)) j \<longleftrightarrow> queued B k j \<and> j \<noteq> i"
proof -
  let ?k = "snd (rq_pop B (word_of_nat r) k)"
  note pop = pick_pop [OF assms]
  have sub: "set (rq_list B ?k q) \<subseteq> set (rq_list B k q)" for q using assms(3) by (auto simp: pop(2))
  have dist: "distinct (rq_list B ?k q)" if "q < HARDRT_MAX_PRIO B" for q
    using assms that by (auto simp: pop(2) kwf_def)
  show "kwf B ?k"
    using assms(1) pop(1) dist sub unfolding kwf_def by (simp add: subset_iff)
  have ij: "i \<notin> set js" using assms unfolding kwf_def by (metis distinct.simps(2))
  have r: "q = r" if "q < HARDRT_MAX_PRIO B" "i \<in> set (rq_list B k q)" for q
    using kwf_in_rq(3) [OF assms(1) that] kwf_in_rq(3) [OF assms(1,2), of i] assms(3) by simp
  show "queued B ?k j \<longleftrightarrow> queued B k j \<and> j \<noteq> i"
  proof (cases "j = i")
    case True
    then show ?thesis using ij r by (auto simp: queued_def pop(2))
  next
    case False
    then have "j \<in> set (rq_list B ?k q) \<longleftrightarrow> j \<in> set (rq_list B k q)" for q
      using assms(3) by (simp add: pop(2))
    with False show ?thesis by (simp add: queued_def)
  qed
qed

lemma kinv_pick:
  assumes "kinv B {} k" "fst (hrt__pick_next_ready B k) = int i" "queued B k i \<or> int i \<noteq> HRT_IDLE_ID B"
  shows "kinv B {i} (snd (hrt__pick_next_ready B k))" "queued B k i"
    "g_error (snd (hrt__pick_next_ready B k)) = g_error k"
proof -
  note wf = kinv_kwf [OF assms(1)]
  obtain r js where r: "r < HARDRT_MAX_PRIO B" "rq_list B k r = i # js"
    and eq: "hrt__pick_next_ready B k = (int i, snd (rq_pop B (word_of_nat r) k))"
  proof (cases rule: pick_cases [OF wf])
    case 1
    then have False using assms(2,3) by (auto simp: queued_def)
    then show ?thesis ..
  next
    case (2 r j js)
    then show ?thesis using assms(2) that by simp
  qed
  note pop = kwf_pop [OF wf r]
  show "kinv B {i} (snd (hrt__pick_next_ready B k))"
    using assms(1) pop(1) by (auto simp: kinv_def eq pop(2))
  show "queued B k i" using r by (auto simp: queued_def)
  show "g_error (snd (hrt__pick_next_ready B k)) = g_error k" using pick_pop(3) [OF wf r] by (simp add: eq)
qed

lemma abs_rq_nth [simp]: "r < HARDRT_MAX_PRIO B \<Longrightarrow> abs_rq B k ! r = rq_list B k r"
  by (simp add: abs_rq_def)

lemma length_abs_rq [simp]: "length (abs_rq B k) = HARDRT_MAX_PRIO B"
  by (simp add: abs_rq_def)

definition pick_id :: "'p env \<Rightarrow> nat option \<Rightarrow> int" where
  "pick_id B r = (case r of None \<Rightarrow> HRT_IDLE_ID B | Some i \<Rightarrow> int i)"

lemma pick_spec:
  assumes "kwf B k"
  shows "fst (hrt__pick_next_ready B k) = pick_id B (fst (spec_pick (abs_rq B k)))"
    and "abs_rq B (snd (hrt__pick_next_ready B k)) = snd (spec_pick (abs_rq B k))"
    and "kwf B (snd (hrt__pick_next_ready B k))"
    and "g_error (snd (hrt__pick_next_ready B k)) = g_error k"
proof -
  have "fst (hrt__pick_next_ready B k) = pick_id B (fst (spec_pick (abs_rq B k))) \<and>
    abs_rq B (snd (hrt__pick_next_ready B k)) = snd (spec_pick (abs_rq B k)) \<and>
    kwf B (snd (hrt__pick_next_ready B k)) \<and> g_error (snd (hrt__pick_next_ready B k)) = g_error k"
  proof (cases rule: pick_cases [OF assms])
    case 1
    have "spec_pick (abs_rq B k) = (None, abs_rq B k)"
      using 1(1) by (intro spec_pick_none) (auto simp: abs_rq_def)
    with 1(2) assms show ?thesis by (simp add: pick_id_def)
  next
    case (2 r i js)
    note pop = pick_pop [OF assms 2(1,2)]
    have sp: "spec_pick (abs_rq B k) = (Some i, (abs_rq B k)[r := js])"
      using 2(1-3) by (intro spec_pick_some) simp_all
    have "abs_rq B (snd (rq_pop B (word_of_nat r) k)) = (abs_rq B k)[r := js]"
      using 2(1) by (intro nth_equalityI) (auto simp: nth_list_update pop(2))
    with sp 2(4) kwf_pop(1) [OF assms 2(1,2)] pop(3) show ?thesis by (simp add: pick_id_def)
  qed
  then show "fst (hrt__pick_next_ready B k) = pick_id B (fst (spec_pick (abs_rq B k)))"
    "abs_rq B (snd (hrt__pick_next_ready B k)) = snd (spec_pick (abs_rq B k))"
    "kwf B (snd (hrt__pick_next_ready B k))"
    "g_error (snd (hrt__pick_next_ready B k)) = g_error k"
    by simp_all
qed

lemma kinv_pick_current:
  assumes "kinv B {} k" "fst (hrt__pick_next_ready B k) = n"
  shows "0 \<le> n" "n < int (HARDRT_MAX_TASKS B)" "kinv B {nat n} (snd (hrt__pick_next_ready B k))"
proof -
  note wf = kinv_kwf [OF assms(1)]
  note sz = kwf_sizes [OF wf]
  have "0 \<le> n \<and> n < int (HARDRT_MAX_TASKS B) \<and> kinv B {nat n} (snd (hrt__pick_next_ready B k))"
  proof (cases rule: pick_cases [OF wf])
    case 1
    have "kinv B {nat n} k"
    proof -
      have "\<not> queued B k i" for i using 1(1) by (auto simp: queued_def)
      with assms(1) show ?thesis by (auto simp: kinv_def)
    qed
    with 1(2) assms(2) sz show ?thesis by (auto simp: HRT_IDLE_ID_def)
  next
    case (2 r i js)
    note pop = kwf_pop [OF wf 2(1,2)]
    have "kinv B {i} (snd (rq_pop B (word_of_nat r) k))"
      using assms(1) pop(1) by (auto simp: kinv_def pop(2))
    with 2 assms(2) pick_pop(4) [OF wf 2(1,2)] show ?thesis by auto
  qed
  then show "0 \<le> n" "n < int (HARDRT_MAX_TASKS B)" "kinv B {nat n} (snd (hrt__pick_next_ready B k))"
    by simp_all
qed

section \<open>The core leaves the port's variables alone\<close>

lemma more_basic [simp]:
  "kernel.more (hrt_error e k) = kernel.more k" "kernel.more (deref t k) = kernel.more k"
  "kernel.more (tcb_upd t f k) = kernel.more k" "kernel.more (rq_push B p i k) = kernel.more k"
  "kernel.more (snd (rq_pop B p k)) = kernel.more k" "kernel.more (hrt__set_current B i k) = kernel.more k"
  by (simp_all add: hrt_error_def deref_def tcb_upd_def rq_push_def rq_pop_def hrt__set_current_def Let_def)

lemma more_pick_from: "kernel.more (snd (pick_from B p k)) = kernel.more k"
proof (induction B p k rule: pick_from.induct)
  case (1 B p k)
  from "1.IH" [of "fst (rq_pop B (word_of_nat p) k)" "snd (rq_pop B (word_of_nat p) k)"]
  show ?case by (subst pick_from.simps) (auto simp add: split_beta)
qed

lemma more_ops [simp]:
  "kernel.more (snd (hrt__pick_next_ready B k)) = kernel.more k"
  "kernel.more (hrt__make_ready B i k) = kernel.more k"
  "kernel.more (hrt__on_scheduler_entry B k) = kernel.more k"
  by (simp_all add: hrt__pick_next_ready_def more_pick_from hrt__make_ready_def hrt__on_scheduler_entry_def Let_def)

end
