(* ===== verification/HRT_Tasks.thy ===== *)
theory HRT_Tasks
  imports HRT_Ready
begin

text \<open>
  What the core asks of a port, and what its task operations guarantee on any such port.

  The locale \<open>hrt_port\<close> is the contract of the hooks of a build: a request for a switch, the
  hop to the scheduler, critical sections and the tick source touch port variables only; the
  two hooks that prepare a stack may besides store a stack pointer and report an error. The
  lemmas inside it are the task operations' effect on the ready queues and the invariant.
  Each port theory interprets the locale on its own hooks.
\<close>

section \<open>The port contract\<close>

locale hrt_port =
  fixes B :: "'p env"
  assumes pend_core: "core (port_pend_context_switch B k) = core k"
    and yield_core: "core (snd (port_yield_to_scheduler B k)) = core k"
    and enter_core: "core (port_enter_scheduler B k) = core k"
    and crit_enter_core: "core (port_crit_enter B k) = core k"
    and crit_exit_core: "core (port_crit_exit B k) = core k"
    and systick_core: "core (port_start_systick B hz k) = core k"
    and prepare_core: "0 \<le> i \<Longrightarrow> i < int (HARDRT_MAX_TASKS B) \<Longrightarrow>
      length (g_tcbs k) = HARDRT_MAX_TASKS B \<Longrightarrow>
      sched_core (port_prepare_task_stack B i tramp base n k) = sched_core k"
    and idle_core: "0 < HARDRT_MAX_TASKS B \<Longrightarrow> length (g_tcbs k) = HARDRT_MAX_TASKS B \<Longrightarrow>
      sched_core (port_init_idle_task B k) = sched_core k"

section \<open>The invariant only reads the core\<close>

lemma sched_core_fields:
  assumes "sched_core a = sched_core b"
  shows "length (g_tcbs a) = length (g_tcbs b)" "g_current a = g_current b" "g_tick a = g_tick b"
    "g_tick_hz a = g_tick_hz b" "g_policy a = g_policy b" "g_default_slice a = g_default_slice b"
    "g_core_hz a = g_core_hz b" "g_tick_src a = g_tick_src b" "g_rq a = g_rq b"
    "g_fault a = g_fault b"
    "i < length (g_tcbs b) \<Longrightarrow> (g_tcbs a ! i)\<lparr>sp := 0\<rparr> = (g_tcbs b ! i)\<lparr>sp := 0\<rparr>"
proof -
  have eq: "map (\<lambda>t. t\<lparr>sp := 0\<rparr>) (g_tcbs a) = map (\<lambda>t. t\<lparr>sp := 0\<rparr>) (g_tcbs b)"
    "g_current a = g_current b" "g_tick a = g_tick b" "g_tick_hz a = g_tick_hz b"
    "g_policy a = g_policy b" "g_default_slice a = g_default_slice b" "g_core_hz a = g_core_hz b"
    "g_tick_src a = g_tick_src b" "g_rq a = g_rq b" "g_fault a = g_fault b"
    using assms by (simp_all add: sched_core_def kernel.truncate_def)
  show len: "length (g_tcbs a) = length (g_tcbs b)" using eq(1) by (metis length_map)
  show "g_current a = g_current b" "g_tick a = g_tick b" "g_tick_hz a = g_tick_hz b"
    "g_policy a = g_policy b" "g_default_slice a = g_default_slice b" "g_core_hz a = g_core_hz b"
    "g_tick_src a = g_tick_src b" "g_rq a = g_rq b" "g_fault a = g_fault b"
    by (rule eq)+
  assume "i < length (g_tcbs b)"
  then show "(g_tcbs a ! i)\<lparr>sp := 0\<rparr> = (g_tcbs b ! i)\<lparr>sp := 0\<rparr>"
    using eq(1) len by (metis (no_types, lifting) nth_map)
qed

lemma tcb_sp_eqD:
  assumes "(s :: hrt_tcb)\<lparr>sp := 0\<rparr> = t\<lparr>sp := 0\<rparr>"
  shows "state s = state t" "prio s = prio t" "timeslice_cfg s = timeslice_cfg t"
    "slice_left s = slice_left t" "wake_tick s = wake_tick t" "entry s = entry t" "arg s = arg t"
    "stack_base s = stack_base t" "stack_words s = stack_words t"
  using assms by (cases s; cases t; simp)+

lemma sched_core_of_core: "core a = core b \<Longrightarrow> sched_core a = sched_core b"
  by (simp add: sched_core_def kernel.truncate_def)

lemma rq_list_core: "sched_core a = sched_core b \<Longrightarrow> rq_list B a = rq_list B b"
  by (rule rq_list_cong) (rule sched_core_fields(9))

lemma kwf_core_imp:
  assumes "sched_core a = sched_core b" "kwf B b"
  shows "kwf B a"
proof -
  note f = sched_core_fields [OF assms(1)]
  note rl = rq_list_core [OF assms(1), of B]
  have "state (g_tcbs a ! i) = state (g_tcbs b ! i)" "prio (g_tcbs a ! i) = prio (g_tcbs b ! i)"
    if "i < HARDRT_MAX_TASKS B" for i
    using tcb_sp_eqD(1,2) [OF f(11)] that kwf_sizes(2) [OF assms(2)] by auto
  with assms(2) show ?thesis unfolding kwf_def kshape_def f(1,9) rl by simp
qed

lemma kwf_core: "sched_core a = sched_core b \<Longrightarrow> kwf B a \<longleftrightarrow> kwf B b"
  using kwf_core_imp [of a b] kwf_core_imp [of b a] by auto

lemma kinv_core:
  assumes "sched_core a = sched_core b"
  shows "kinv B R a \<longleftrightarrow> kinv B R b"
proof (cases "kwf B b")
  case True
  note f = sched_core_fields [OF assms]
  have st: "state (g_tcbs a ! i) = state (g_tcbs b ! i)" if "i < HARDRT_MAX_TASKS B" for i
    using tcb_sp_eqD(1) [OF f(11)] that kwf_sizes(2) [OF True] by simp
  have "queued B a i \<longleftrightarrow> queued B b i" for i by (simp add: queued_def rq_list_core [OF assms])
  with st True kwf_core [OF assms, of B] show ?thesis by (auto simp: kinv_def)
next
  case False
  with kwf_core [OF assms, of B] show ?thesis by (simp add: kinv_def)
qed

lemma kinv_hrt_error [simp]: "kinv B R (hrt_error e k) = kinv B R k"
  by (rule kinv_core) (simp add: sched_core_def hrt_error_def kernel.truncate_def)

lemmas kinv_same_core = kinv_core [OF sched_core_of_core]

context hrt_port
begin

lemmas hook_core = pend_core yield_core enter_core crit_enter_core crit_exit_core systick_core

lemma hook_tcbs [simp]:
  "g_tcbs (port_pend_context_switch B k) = g_tcbs k"
  "g_tcbs (snd (port_yield_to_scheduler B k)) = g_tcbs k"
  "g_tcbs (port_enter_scheduler B k) = g_tcbs k"
  "g_tcbs (port_crit_enter B k) = g_tcbs k" "g_tcbs (port_crit_exit B k) = g_tcbs k"
  "g_tcbs (port_start_systick B hz k) = g_tcbs k"
  by (rule core_fields(1), rule hook_core)+

lemma hook_current [simp]:
  "g_current (port_pend_context_switch B k) = g_current k"
  "g_current (snd (port_yield_to_scheduler B k)) = g_current k"
  "g_current (port_enter_scheduler B k) = g_current k"
  "g_current (port_crit_enter B k) = g_current k" "g_current (port_crit_exit B k) = g_current k"
  "g_current (port_start_systick B hz k) = g_current k"
  by (rule core_fields(2), rule hook_core)+

lemma hook_rq_list [simp]:
  "rq_list B (port_pend_context_switch B k) = rq_list B k"
  "rq_list B (snd (port_yield_to_scheduler B k)) = rq_list B k"
  "rq_list B (port_crit_enter B k) = rq_list B k" "rq_list B (port_crit_exit B k) = rq_list B k"
  "rq_list B (port_start_systick B hz k) = rq_list B k"
  by (rule rq_list_core, rule sched_core_of_core, rule hook_core)+

lemma hook_error [simp]:
  "g_error (port_pend_context_switch B k) = g_error k"
  "g_error (snd (port_yield_to_scheduler B k)) = g_error k"
  "g_error (port_crit_enter B k) = g_error k" "g_error (port_crit_exit B k) = g_error k"
  by (rule core_fields(9), rule hook_core)+

lemma hook_fault [simp]:
  "g_fault (port_pend_context_switch B k) = g_fault k"
  "g_fault (snd (port_yield_to_scheduler B k)) = g_fault k"
  "g_fault (port_crit_enter B k) = g_fault k" "g_fault (port_crit_exit B k) = g_fault k"
  "g_fault (port_start_systick B hz k) = g_fault k"
  by (rule core_fields(11), rule hook_core)+

lemma hook_tick [simp]:
  "g_tick (port_pend_context_switch B k) = g_tick k"
  "g_tick (snd (port_yield_to_scheduler B k)) = g_tick k"
  "g_tick (port_crit_enter B k) = g_tick k" "g_tick (port_crit_exit B k) = g_tick k"
  by (rule core_fields(3), rule hook_core)+

lemma hook_kinv [simp]:
  "kinv B R (port_pend_context_switch B k) = kinv B R k"
  "kinv B R (snd (port_yield_to_scheduler B k)) = kinv B R k"
  "kinv B R (port_enter_scheduler B k) = kinv B R k"
  "kinv B R (port_crit_enter B k) = kinv B R k" "kinv B R (port_crit_exit B k) = kinv B R k"
  by (rule kinv_same_core, rule hook_core)+

end

section \<open>Yielding, sleeping and deleting\<close>

lemma kinv_empty_any:
  assumes "kinv B {} k" "\<And>r. r < HARDRT_MAX_PRIO B \<Longrightarrow> rq_list B k r = []"
  shows "kinv B R k"
proof -
  have "\<not> queued B k i" for i using assms(2) by (auto simp: queued_def)
  with assms(1) show ?thesis by (auto simp: kinv_def)
qed

lemma kinv_not_ready:
  assumes "kinv B R k" "\<And>i. i < HARDRT_MAX_TASKS B \<Longrightarrow> i \<in> R \<union> S \<Longrightarrow> i \<notin> R \<inter> S \<Longrightarrow> state (g_tcbs k ! i) \<noteq> HRT_READY"
  shows "kinv B S k"
  using assms by (auto simp: kinv_def)

context hrt_port
begin

lemma yield_running:
  assumes "kinv B {c} k" "g_current k = int c" "c < HARDRT_MAX_TASKS B"
    "state (g_tcbs k ! c) = HRT_READY"
  shows "kinv B {} (snd (hrt_yield B k))"
    and "g_tcbs (snd (hrt_yield B k)) =
         (g_tcbs k)[c := (g_tcbs k ! c)\<lparr>slice_left := timeslice_cfg (g_tcbs k ! c)\<rparr>]"
    and "rq_list B (snd (hrt_yield B k)) r =
         rq_list B k r @ (if r = unat (prio (g_tcbs k ! c)) then [c] else [])"
    and "g_error (snd (hrt_yield B k)) = g_error k" "g_fault (snd (hrt_yield B k)) = g_fault k"
    and "g_current (snd (hrt_yield B k)) = g_current k"
proof -
  let ?t = "(g_tcbs k ! c)\<lparr>slice_left := timeslice_cfg (g_tcbs k ! c)\<rparr>"
  let ?k = "k\<lparr>g_tcbs := (g_tcbs k)[c := ?t]\<rparr>"
  note sz = kwf_sizes [OF kinv_kwf [OF assms(1)]]
  have tcb: "g_tcbs ?k ! c = ?t" using assms(3) sz by simp
  have eq: "snd (hrt_yield B k) = snd (port_yield_to_scheduler B (port_pend_context_switch B
      (rq_push B (prio (g_tcbs k ! c)) (int c) ?k)))"
    using assms(2-4) sz by (simp add: hrt_yield_def Let_def)
  have inv: "kinv B {c} ?k" using assms(1) by (rule kinv_write_same) simp_all
  have nq: "\<not> queued B ?k c" using assms by (simp add: kinv_def)
  note push = kwf_push [OF kinv_kwf [OF inv] assms(3) nq, unfolded tcb, simplified, OF assms(4)]
  show "kinv B {} (snd (hrt_yield B k))"
    using kinv_push [OF inv assms(3), unfolded tcb] assms(4) by (simp add: eq)
  show "g_tcbs (snd (hrt_yield B k)) = (g_tcbs k)[c := ?t]"
    "g_fault (snd (hrt_yield B k)) = g_fault k" "g_current (snd (hrt_yield B k)) = g_current k"
    by (simp_all add: eq)
  show "rq_list B (snd (hrt_yield B k)) r =
        rq_list B k r @ (if r = unat (prio (g_tcbs k ! c)) then [c] else [])"
    "g_error (snd (hrt_yield B k)) = g_error k"
    using push(3,4) by (simp_all add: eq)
qed

lemma park_running:
  assumes "kinv B {c} k" "c < HARDRT_MAX_TASKS B" "\<not> queued B k c"
    "state t \<noteq> HRT_READY" "prio t = prio (g_tcbs k ! c)"
    "state t \<noteq> HRT_UNUSED \<Longrightarrow> state (g_tcbs k ! c) \<noteq> HRT_UNUSED"
  shows "kinv B {} (k\<lparr>g_tcbs := (g_tcbs k)[c := t]\<rparr>)"
  using kinv_write_idle [OF assms(1,3,4)] kwf_prio [OF kinv_kwf [OF assms(1)] assms(2)] assms(5,6)
  by simp

lemma running_not_queued:
  assumes "kinv B {c} k" "c < HARDRT_MAX_TASKS B"
  shows "\<not> queued B k c"
  using assms kwf_queued(2) [OF kinv_kwf [OF assms(1)]] by (auto simp: kinv_def)

lemma sleep_running:
  assumes "kinv B {c} k" "g_current k = int c" "c < HARDRT_MAX_TASKS B"
    "state (g_tcbs k ! c) \<noteq> HRT_UNUSED"
  shows "kinv B {} (snd (hrt_sleep B ms k))"
    and "g_tcbs (snd (hrt_sleep B ms k)) = (g_tcbs k)[c := (g_tcbs k ! c)
           \<lparr>wake_tick := g_tick k + hrt__ms_to_ticks ms (g_tick_hz k), state := HRT_SLEEP\<rparr>]"
    and "rq_list B (snd (hrt_sleep B ms k)) = rq_list B k"
    and "g_error (snd (hrt_sleep B ms k)) = g_error k" "g_fault (snd (hrt_sleep B ms k)) = g_fault k"
    and "g_current (snd (hrt_sleep B ms k)) = g_current k" "g_tick (snd (hrt_sleep B ms k)) = g_tick k"
proof -
  let ?t = "(g_tcbs k ! c)\<lparr>wake_tick := g_tick k + hrt__ms_to_ticks ms (g_tick_hz k),
    state := HRT_SLEEP\<rparr>"
  note sz = kwf_sizes [OF kinv_kwf [OF assms(1)]]
  have eq: "snd (hrt_sleep B ms k) = snd (port_yield_to_scheduler B (port_pend_context_switch B
      (k\<lparr>g_tcbs := (g_tcbs k)[c := ?t]\<rparr>)))"
    using assms(2,3) sz by (simp add: hrt_sleep_def Let_def)
  show "kinv B {} (snd (hrt_sleep B ms k))"
    using park_running [OF assms(1,3) running_not_queued [OF assms(1,3)], of ?t] assms(4)
    by (simp add: eq)
  show "g_tcbs (snd (hrt_sleep B ms k)) = (g_tcbs k)[c := ?t]"
    "rq_list B (snd (hrt_sleep B ms k)) = rq_list B k"
    "g_error (snd (hrt_sleep B ms k)) = g_error k" "g_fault (snd (hrt_sleep B ms k)) = g_fault k"
    "g_current (snd (hrt_sleep B ms k)) = g_current k" "g_tick (snd (hrt_sleep B ms k)) = g_tick k"
    by (simp_all add: eq)
qed

lemma delete_running:
  assumes "kinv B {c} k" "g_current k = int c" "c < HARDRT_MAX_TASKS B" "int c \<noteq> HRT_IDLE_ID B"
  shows "kinv B {} (snd (hrt_task_delete B k))"
    and "g_tcbs (snd (hrt_task_delete B k)) = (g_tcbs k)[c := (g_tcbs k ! c)\<lparr>state := HRT_UNUSED\<rparr>]"
    and "rq_list B (snd (hrt_task_delete B k)) = rq_list B k"
    and "g_error (snd (hrt_task_delete B k)) = g_error k"
    and "g_fault (snd (hrt_task_delete B k)) = g_fault k"
proof -
  let ?k = "port_crit_enter B k"
  let ?t = "(g_tcbs k ! c)\<lparr>state := HRT_UNUSED\<rparr>"
  note sz = kwf_sizes [OF kinv_kwf [OF assms(1)]]
  have eq: "snd (hrt_task_delete B k) = snd (port_yield_to_scheduler B (port_pend_context_switch B
      (port_crit_exit B (?k\<lparr>g_tcbs := (g_tcbs k)[c := ?t]\<rparr>))))"
    using assms(2-4) sz by (simp add: hrt_task_delete_def hrt__get_current_def Let_def)
  have inv: "kinv B {c} ?k" using assms(1) by simp
  show "kinv B {} (snd (hrt_task_delete B k))"
    using park_running [OF inv assms(3) running_not_queued [OF inv assms(3)], of ?t]
    by (simp add: eq)
  show "g_tcbs (snd (hrt_task_delete B k)) = (g_tcbs k)[c := ?t]"
    "rq_list B (snd (hrt_task_delete B k)) = rq_list B k"
    "g_error (snd (hrt_task_delete B k)) = g_error k"
    "g_fault (snd (hrt_task_delete B k)) = g_fault k"
    by (simp_all add: eq)
qed

lemma delete_refused:
  assumes "g_current k < 0 \<or> g_current k = HRT_IDLE_ID B"
  shows "hrt_task_delete B k = (False, k)"
  using assms by (simp add: hrt_task_delete_def hrt__get_current_def)

end

section \<open>Blocking and waking inside a critical section\<close>

text \<open>The two moves every primitive is made of: the running task parks itself and hops, and a
  blocked task is made ready, after which a task (unlike an interrupt handler) yields.\<close>

definition parked :: "'p env \<Rightarrow> nat \<Rightarrow> 'p kernel_scheme \<Rightarrow> 'p kernel_scheme" where
  "parked B c k = port_pend_context_switch B (port_crit_exit B ((port_crit_enter B k)
     \<lparr>g_tcbs := (g_tcbs k)[c := (g_tcbs k ! c)\<lparr>state := HRT_BLOCKED\<rparr>]\<rparr>))"

definition woken :: "'p env \<Rightarrow> nat \<Rightarrow> 'p kernel_scheme \<Rightarrow> 'p kernel_scheme" where
  "woken B w k = port_crit_exit B (hrt__make_ready B (int w) (port_crit_enter B k))"

context hrt_port
begin

lemma block_hop:
  assumes "kinv B {c} k" "c < HARDRT_MAX_TASKS B" "state (g_tcbs k ! c) = HRT_READY"
  defines "k' \<equiv> parked B c k"
  shows "kinv B {} (snd (port_yield_to_scheduler B k'))"
    and "g_tcbs (snd (port_yield_to_scheduler B k')) = (g_tcbs k)[c := (g_tcbs k ! c)\<lparr>state := HRT_BLOCKED\<rparr>]"
    and "rq_list B (snd (port_yield_to_scheduler B k')) = rq_list B k"
    and "g_error (snd (port_yield_to_scheduler B k')) = g_error k"
    and "g_fault (snd (port_yield_to_scheduler B k')) = g_fault k"
proof -
  have "kinv B {c} (port_crit_enter B k)" using assms(1) by simp
  from park_running [OF this assms(2) running_not_queued [OF this assms(2)],
      of "(g_tcbs k ! c)\<lparr>state := HRT_BLOCKED\<rparr>"] assms(3)
  show "kinv B {} (snd (port_yield_to_scheduler B k'))" by (simp add: k'_def parked_def)
qed (simp_all add: k'_def parked_def)

lemma wake_cs:
  assumes "kinv B R k" "w < HARDRT_MAX_TASKS B" "state (g_tcbs k ! w) = HRT_BLOCKED"
  defines "k' \<equiv> woken B w k"
  shows "kinv B (R - {w}) k'"
    and "g_tcbs k' = (g_tcbs k)[w := ready_tcb (g_tcbs k ! w)]"
    and "rq_list B k' r = rq_list B k r @ (if r = unat (prio (g_tcbs k ! w)) then [w] else [])"
    and "g_error k' = g_error k" "g_fault k' = g_fault k" "g_current k' = g_current k"
proof -
  have a: "kinv B R (port_crit_enter B k)" "state (g_tcbs (port_crit_enter B k) ! w) \<noteq> HRT_READY"
    "state (g_tcbs (port_crit_enter B k) ! w) \<noteq> HRT_UNUSED"
    using assms by simp_all
  from make_ready_wakes [OF a(1) assms(2) a(2,3)] show "kinv B (R - {w}) k'"
    "g_tcbs k' = (g_tcbs k)[w := ready_tcb (g_tcbs k ! w)]"
    "rq_list B k' r = rq_list B k r @ (if r = unat (prio (g_tcbs k ! w)) then [w] else [])"
    "g_error k' = g_error k" "g_fault k' = g_fault k" "g_current k' = g_current k"
    by (simp_all add: k'_def woken_def)
qed

lemma wake_yield:
  assumes "kinv B {c} k" "g_current k = int c" "c < HARDRT_MAX_TASKS B"
    "state (g_tcbs k ! c) = HRT_READY" "w < HARDRT_MAX_TASKS B" "state (g_tcbs k ! w) = HRT_BLOCKED"
  defines "k' \<equiv> snd (hrt_yield B (woken B w k))"
  shows "kinv B {} k'"
    and "g_tcbs k' = (g_tcbs k)[w := ready_tcb (g_tcbs k ! w),
           c := (g_tcbs k ! c)\<lparr>slice_left := timeslice_cfg (g_tcbs k ! c)\<rparr>]"
    and "rq_list B k' r = rq_list B k r @ (if r = unat (prio (g_tcbs k ! w)) then [w] else []) @
           (if r = unat (prio (g_tcbs k ! c)) then [c] else [])"
    and "g_error k' = g_error k" "g_fault k' = g_fault k"
proof -
  define k1 where "k1 = woken B w k"
  note wk = wake_cs [OF assms(1,5,6), folded k1_def]
  have ne: "w \<noteq> c" using assms(4,6) by auto
  have a: "kinv B {c} k1" "g_current k1 = int c" "state (g_tcbs k1 ! c) = HRT_READY"
    using wk ne assms(2,4) by (simp_all add: nth_update_if)
  note y = yield_running [OF a(1,2) assms(3) a(3)]
  show "kinv B {} k'"
    "g_tcbs k' = (g_tcbs k)[w := ready_tcb (g_tcbs k ! w),
       c := (g_tcbs k ! c)\<lparr>slice_left := timeslice_cfg (g_tcbs k ! c)\<rparr>]"
    "rq_list B k' r = rq_list B k r @ (if r = unat (prio (g_tcbs k ! w)) then [w] else []) @
       (if r = unat (prio (g_tcbs k ! c)) then [c] else [])"
    "g_error k' = g_error k" "g_fault k' = g_fault k"
    using y wk(4,5) ne by (simp_all add: k'_def wk(2,3) nth_update_if flip: k1_def)
qed

end

section \<open>Re-entering the scheduler and switching\<close>

lemma scheduler_entry_quiet:
  assumes "kwf B k" "g_current k = int c" "c < HARDRT_MAX_TASKS B"
    "state (g_tcbs k ! c) = HRT_READY \<Longrightarrow> rr_policy (g_policy k) \<Longrightarrow>
     timeslice_cfg (g_tcbs k ! c) > 0 \<Longrightarrow> slice_left (g_tcbs k ! c) \<noteq> 0"
  shows "hrt__on_scheduler_entry B k = k"
  using assms kwf_sizes [OF assms(1)]
  by (auto simp: hrt__on_scheduler_entry_def Let_def)

lemma scheduler_entry_rotates:
  assumes "kinv B {c} k" "g_current k = int c" "c < HARDRT_MAX_TASKS B"
    "state (g_tcbs k ! c) = HRT_READY" "rr_policy (g_policy k)"
    "timeslice_cfg (g_tcbs k ! c) > 0" "slice_left (g_tcbs k ! c) = 0"
  shows "kinv B {} (hrt__on_scheduler_entry B k)"
    and "rq_list B (hrt__on_scheduler_entry B k) r =
         rq_list B k r @ (if r = unat (prio (g_tcbs k ! c)) then [c] else [])"
    and "g_tcbs (hrt__on_scheduler_entry B k) =
         (g_tcbs k)[c := (g_tcbs k ! c)\<lparr>slice_left := timeslice_cfg (g_tcbs k ! c)\<rparr>]"
proof -
  let ?t = "(g_tcbs k ! c)\<lparr>slice_left := timeslice_cfg (g_tcbs k ! c)\<rparr>"
  let ?k = "k\<lparr>g_tcbs := (g_tcbs k)[c := ?t]\<rparr>"
  note sz = kwf_sizes [OF kinv_kwf [OF assms(1)]]
  have tcb: "g_tcbs ?k ! c = ?t" using assms(3) sz by simp
  have eq: "hrt__on_scheduler_entry B k = rq_push B (prio (g_tcbs k ! c)) (int c) ?k"
    using assms(2-7) sz by (simp add: hrt__on_scheduler_entry_def Let_def)
  have inv: "kinv B {c} ?k" using assms(1) by (rule kinv_write_same) simp_all
  have nq: "\<not> queued B ?k c" using assms by (simp add: kinv_def)
  show "kinv B {} (hrt__on_scheduler_entry B k)"
    using kinv_push [OF inv assms(3), unfolded tcb] assms(4) by (simp add: eq)
  show "rq_list B (hrt__on_scheduler_entry B k) r =
         rq_list B k r @ (if r = unat (prio (g_tcbs k ! c)) then [c] else [])"
    using kwf_push(3) [OF kinv_kwf [OF inv] assms(3) nq, unfolded tcb, simplified, OF assms(4)]
    by (simp add: eq)
  show "g_tcbs (hrt__on_scheduler_entry B k) = (g_tcbs k)[c := ?t]" by (simp add: eq)
qed

definition preempted_rq :: "'p env \<Rightarrow> 'p kernel_scheme \<Rightarrow> nat list list" where
  "preempted_rq B k = map (\<lambda>r. rq_list B k r @
     (let t = g_tcbs k ! nat (g_current k) in
      if state t = HRT_READY \<and> r = unat (prio t) then [nat (g_current k)] else []))
     [0..<HARDRT_MAX_PRIO B]"

text \<open>\<open>hrt__schedule\<close> on a state of the right shape: store the stack pointer, queue the current
  task if it is ready, pick.\<close>

definition requeued :: "'p env \<Rightarrow> nat \<Rightarrow> uintptr \<Rightarrow> 'p kernel_scheme \<Rightarrow> 'p kernel_scheme" where
  "requeued B c s k =
     (let k1 = k\<lparr>g_tcbs := (g_tcbs k)[c := (g_tcbs k ! c)\<lparr>sp := s\<rparr>]\<rparr>
      in if state (g_tcbs k ! c) = HRT_READY then rq_push B (prio (g_tcbs k ! c)) (int c) k1 else k1)"

lemma schedule_eq:
  assumes "kshape B k" "g_current k = int c" "c < HARDRT_MAX_TASKS B" "old_sp \<noteq> 0"
    and "hrt__pick_next_ready B (requeued B c old_sp k) = (int n, k3)" "n < HARDRT_MAX_TASKS B"
  shows "hrt__schedule B old_sp k = (sp (g_tcbs k3 ! n), k3\<lparr>g_current := int n\<rparr>)"
proof -
  note sz = kshapeD [OF assms(1)]
  have len: "length (g_tcbs k3) = HARDRT_MAX_TASKS B"
    using pick_fields(1) [of B "requeued B c old_sp k", unfolded assms(5) snd_conv] sz(2)
    by (simp add: requeued_def Let_def split: if_splits)
  have "hrt__schedule B old_sp k =
      (let k = (if HARDRT_DEBUG B \<and> (int n < 0 \<or> int n \<ge> int (HARDRT_MAX_TASKS B))
                then hrt_error ERR_INVALID_NEXT_ID k3 else k3);
           k = hrt__set_current B (int n) k in get_sp B (int n) k)"
    using assms sz by (simp add: hrt__schedule_def Let_def set_sp_def requeued_def cong: if_cong)
  also have "\<dots> = (sp (g_tcbs k3 ! n), k3\<lparr>g_current := int n\<rparr>)"
    using assms(6) len tcb_of_Some [of n "k3\<lparr>g_current := int n\<rparr>"] deref_Some [of n "k3\<lparr>g_current := int n\<rparr>"]
    by (simp add: hrt__set_current_def get_sp_def Let_def)
  finally show ?thesis .
qed

lemma schedule_found:
  assumes "kshape B k" "g_current k = int c" "c < HARDRT_MAX_TASKS B" "old_sp \<noteq> 0"
    and "kshape B (requeued B c old_sp k)" "r < HARDRT_MAX_PRIO B" "i < HARDRT_MAX_TASKS B"
    "rq_list B (requeued B c old_sp k) r = i # js" "\<And>q. q < r \<Longrightarrow> rq_list B (requeued B c old_sp k) q = []"
  defines "k' \<equiv> snd (hrt__schedule B old_sp k)"
  shows "g_current k' = int i" "kshape B k'" "g_tcbs k' = (g_tcbs k)[c := (g_tcbs k ! c)\<lparr>sp := old_sp\<rparr>]"
    "rq_list B k' q = (if q = r then js else rq_list B (requeued B c old_sp k) q)"
proof -
  obtain k3 where pick: "hrt__pick_next_ready B (requeued B c old_sp k) = (int i, k3)"
    using pick_found_shape(1) [OF assms(5,6,8,7,9)] by (metis prod.collapse)
  note pf = pick_found_shape(2,3) [OF assms(5,6,8,7,9), unfolded pick snd_conv]
  have eq: "k' = k3\<lparr>g_current := int i\<rparr>" using schedule_eq [OF assms(1-4) pick assms(7)] by (simp add: k'_def)
  have "g_tcbs k3 = (g_tcbs k)[c := (g_tcbs k ! c)\<lparr>sp := old_sp\<rparr>]"
    using pick_fields(1) [of B "requeued B c old_sp k", unfolded pick snd_conv]
    by (simp add: requeued_def Let_def split: if_splits)
  then show "g_current k' = int i" "kshape B k'" "g_tcbs k' = (g_tcbs k)[c := (g_tcbs k ! c)\<lparr>sp := old_sp\<rparr>]"
    "rq_list B k' q = (if q = r then js else rq_list B (requeued B c old_sp k) q)"
    using pf by (simp_all add: eq kshape_def)
qed

lemma schedule_switch:
  assumes "kinv B {c} k" "g_current k = int c" "c < HARDRT_MAX_TASKS B" "old_sp \<noteq> 0"
  defines "n \<equiv> pick_id B (fst (spec_pick (preempted_rq B k)))"
  shows "g_current (snd (hrt__schedule B old_sp k)) = n"
    and "kinv B {nat n} (snd (hrt__schedule B old_sp k))"
    and "abs_rq B (snd (hrt__schedule B old_sp k)) = snd (spec_pick (preempted_rq B k))"
    and "g_tcbs (snd (hrt__schedule B old_sp k)) = (g_tcbs k)[c := (g_tcbs k ! c)\<lparr>sp := old_sp\<rparr>]"
    and "fst (hrt__schedule B old_sp k) = sp (g_tcbs (snd (hrt__schedule B old_sp k)) ! nat n)"
    and "g_error (snd (hrt__schedule B old_sp k)) = g_error k"
    and "g_fault (snd (hrt__schedule B old_sp k)) = g_fault k"
    and "0 \<le> n" "n < int (HARDRT_MAX_TASKS B)"
proof -
  let ?t = "(g_tcbs k ! c)\<lparr>sp := old_sp\<rparr>"
  let ?k1 = "k\<lparr>g_tcbs := (g_tcbs k)[c := ?t]\<rparr>" and ?k2 = "requeued B c old_sp k"
  note sz = kwf_sizes [OF kinv_kwf [OF assms(1)]]
  have tcb: "g_tcbs ?k1 ! c = ?t" using assms(3) sz by simp
  have inv1: "kinv B {c} ?k1" using assms(1) by (rule kinv_write_same) simp_all
  have nq: "\<not> queued B ?k1 c" using assms(1,3) kwf_queued(2) [OF kinv_kwf [OF assms(1)]]
    by (auto simp: kinv_def)
  note push = kwf_push(3,4) [OF kinv_kwf [OF inv1] assms(3) nq, unfolded tcb, simplified]
  have inv2: "kinv B {} ?k2"
    using kinv_push [OF inv1 assms(3), unfolded tcb] kinv_not_ready [OF inv1, of "{}"] tcb
    by (auto simp: requeued_def Let_def)
  have abs2: "abs_rq B ?k2 = preempted_rq B k" and err2: "g_error ?k2 = g_error k"
    using push assms(2) by (auto simp: requeued_def abs_rq_def preempted_rq_def Let_def)
  obtain m k3 where pick: "hrt__pick_next_ready B ?k2 = (m, k3)" by fastforce
  note spec = pick_spec [OF kinv_kwf [OF inv2], unfolded abs2 pick fst_conv snd_conv]
  note cur = kinv_pick_current [OF inv2, unfolded pick fst_conv snd_conv, OF refl]
  have m: "m = n" using spec(1) by (simp add: n_def)
  have k3: "g_tcbs k3 = (g_tcbs k)[c := ?t]" "g_fault k3 = g_fault k"
    using pick_fields(1,6) [of B ?k2, unfolded pick snd_conv]
    by (simp_all add: requeued_def Let_def split: if_splits)
  have "hrt__pick_next_ready B ?k2 = (int (nat n), k3)" "nat n < HARDRT_MAX_TASKS B"
    using pick cur(1,2) m by simp_all
  from schedule_eq [OF kwf_shape [OF kinv_kwf [OF assms(1)]] assms(2-4) this]
  have eq: "hrt__schedule B old_sp k = (sp (g_tcbs k3 ! nat n), k3\<lparr>g_current := n\<rparr>)"
    using cur(1) m by simp
  show "0 \<le> n" "n < int (HARDRT_MAX_TASKS B)" using cur(1,2) m by simp_all
  show "g_current (snd (hrt__schedule B old_sp k)) = n"
    "g_tcbs (snd (hrt__schedule B old_sp k)) = (g_tcbs k)[c := ?t]"
    "fst (hrt__schedule B old_sp k) = sp (g_tcbs (snd (hrt__schedule B old_sp k)) ! nat n)"
    "g_error (snd (hrt__schedule B old_sp k)) = g_error k"
    "g_fault (snd (hrt__schedule B old_sp k)) = g_fault k"
    using k3 spec(4) err2 by (simp_all add: eq)
  show "kinv B {nat n} (snd (hrt__schedule B old_sp k))"
    using cur(3) m by (simp add: eq kinv_def kwf_def kshape_def)
  show "abs_rq B (snd (hrt__schedule B old_sp k)) = snd (spec_pick (preempted_rq B k))"
    using spec(2) by (simp add: eq abs_rq_def)
qed

section \<open>Initialisation and creation\<close>

lemma zero_prio_q_ok:
  "0 < n \<Longrightarrow> n < 256 \<Longrightarrow> prio_q_ok n (zero_prio_q n)"
  by (simp add: prio_q_ok_def zero_prio_q_def ring_ok_def)

lemma fresh_kinv:
  assumes "valid_build B" "length (g_tcbs k) = HARDRT_MAX_TASKS B"
    "g_rq k = replicate (HARDRT_MAX_PRIO B) (zero_prio_q (HARDRT_MAX_TASKS B))"
    "\<And>i. i < HARDRT_MAX_TASKS B \<Longrightarrow> state (g_tcbs k ! i) = HRT_UNUSED"
  shows "kinv B R k" "p < HARDRT_MAX_PRIO B \<Longrightarrow> rq_list B k p = []"
proof -
  have rl: "rq_list B k p = []" if "p < HARDRT_MAX_PRIO B" for p
    using that assms(3) by (simp add: rq_list_def zero_prio_q_def)
  have "kshape B k"
    using assms valid_build_bounds [OF assms(1)] by (simp add: kshape_def zero_prio_q_ok)
  with assms(4) rl show "kinv B R k" by (auto simp: kinv_def kwf_def)
  assume "p < HARDRT_MAX_PRIO B"
  then show "rq_list B k p = []" by (rule rl)
qed

lemma sched_core_write:
  assumes "sched_core a = sched_core b" "s\<lparr>sp := 0\<rparr> = t\<lparr>sp := 0\<rparr>"
  shows "sched_core (a\<lparr>g_tcbs := (g_tcbs a)[i := s]\<rparr>) = sched_core (b\<lparr>g_tcbs := (g_tcbs b)[i := t]\<rparr>)"
  using assms by (simp add: sched_core_def kernel.truncate_def map_update)

definition task_tcb :: "uintptr \<Rightarrow> uintptr \<Rightarrow> uintptr \<Rightarrow> size_t \<Rightarrow> u8 \<Rightarrow> u16 \<Rightarrow> hrt_tcb" where
  "task_tcb fn a stack n p sl = zero_tcb\<lparr>entry := fn, arg := a, prio := p, timeslice_cfg := sl,
     slice_left := sl, stack_base := stack, stack_words := n, state := HRT_READY\<rparr>"

definition attr_prio :: "hrt_task_attr option \<Rightarrow> u8" where
  "attr_prio attr = ucast (case attr of Some x \<Rightarrow> priority x | None \<Rightarrow> HRT_PRIO1)"

definition attr_slice :: "'p kernel_scheme \<Rightarrow> hrt_task_attr option \<Rightarrow> u16" where
  "attr_slice k attr = (case attr of Some x \<Rightarrow> timeslice x | None \<Rightarrow> g_default_slice k)"

lemma first_unused_Some:
  assumes "first_unused B k = Some i"
  shows "i < HARDRT_MAX_TASKS B" "state (g_tcbs k ! i) = HRT_UNUSED"
    "j < i \<Longrightarrow> state (g_tcbs k ! j) \<noteq> HRT_UNUSED"
  using assms by (auto simp: first_unused_def find_Some_iff)

lemma first_unused_None:
  "first_unused B k = None \<longleftrightarrow> (\<forall>i < HARDRT_MAX_TASKS B. state (g_tcbs k ! i) \<noteq> HRT_UNUSED)"
  by (auto simp: first_unused_def find_None_iff)

context hrt_port
begin

lemma init_establishes:
  assumes "valid_build B"
  shows "kinv B R (snd (hrt_init B cfg k))"
    and "p < HARDRT_MAX_PRIO B \<Longrightarrow> rq_list B (snd (hrt_init B cfg k)) p = []"
    and "i < HARDRT_MAX_TASKS B \<Longrightarrow> state (g_tcbs (snd (hrt_init B cfg k)) ! i) = HRT_UNUSED"
    and "g_current (snd (hrt_init B cfg k)) = -1" "g_tick (snd (hrt_init B cfg k)) = 0"
    and "g_tick_hz (snd (hrt_init B cfg k)) \<noteq> 0" "g_default_slice (snd (hrt_init B cfg k)) \<noteq> 0"
    and "g_fault (snd (hrt_init B cfg k)) = g_fault k" "fst (hrt_init B cfg k) = 0"
proof -
  define k1 where "k1 = (let k = k\<lparr>g_rq := replicate (HARDRT_MAX_PRIO B) (zero_prio_q (HARDRT_MAX_TASKS B)),
      g_tcbs := map (\<lambda>t. t\<lparr>state := HRT_UNUSED\<rparr>) (replicate (HARDRT_MAX_TASKS B) zero_tcb),
      g_tick := 0, g_current := -1\<rparr> in
    case cfg of
      Some c \<Rightarrow> k\<lparr>g_tick_hz := (if cfg_tick_hz c \<noteq> 0 then cfg_tick_hz c else 1000),
        g_policy := cfg_policy c,
        g_default_slice := (if cfg_default_slice c \<noteq> 0 then cfg_default_slice c else 5),
        g_core_hz := cfg_core_hz c, g_tick_src := cfg_tick_src c\<rparr>
    | None \<Rightarrow> k\<lparr>g_tick_hz := 1000, g_policy := HRT_SCHED_PRIORITY_RR, g_default_slice := 5\<rparr>)"
  define k2 where "k2 = port_start_systick B (g_tick_hz k1) k1"
  have eq: "hrt_init B cfg k = (0, port_init_idle_task B k2)"
    by (cases cfg) (simp_all add: hrt_init_def k1_def k2_def Let_def)
  have k1: "length (g_tcbs k1) = HARDRT_MAX_TASKS B"
    "g_rq k1 = replicate (HARDRT_MAX_PRIO B) (zero_prio_q (HARDRT_MAX_TASKS B))"
    "i < HARDRT_MAX_TASKS B \<Longrightarrow> state (g_tcbs k1 ! i) = HRT_UNUSED"
    "g_current k1 = -1" "g_tick k1 = 0" "g_tick_hz k1 \<noteq> 0" "g_default_slice k1 \<noteq> 0"
    "g_fault k1 = g_fault k" for i
    by (auto simp: k1_def Let_def split: option.splits)
  note k2 = core_fields [OF systick_core [of "g_tick_hz k1" k1], folded k2_def]
  have core: "sched_core (snd (hrt_init B cfg k)) = sched_core k1"
    using idle_core [of k2] k1(1) valid_build_bounds(1) [OF assms]
      sched_core_of_core [OF systick_core [of "g_tick_hz k1" k1], folded k2_def]
    by (simp add: eq k2(1))
  note f = sched_core_fields [OF core]
  have fresh: "kinv B R k1" "p < HARDRT_MAX_PRIO B \<Longrightarrow> rq_list B k1 p = []"
    using fresh_kinv [OF assms k1(1,2)] k1(3) by blast+
  show "kinv B R (snd (hrt_init B cfg k))" using fresh(1) kinv_core [OF core] by simp
  show "rq_list B (snd (hrt_init B cfg k)) p = []" if "p < HARDRT_MAX_PRIO B"
    using fresh(2) [OF that] rq_list_core [OF core] by simp
  show "state (g_tcbs (snd (hrt_init B cfg k)) ! i) = HRT_UNUSED" if "i < HARDRT_MAX_TASKS B"
    using tcb_sp_eqD(1) [OF f(11)] k1(1,3) that by simp
  show "g_current (snd (hrt_init B cfg k)) = -1" "g_tick (snd (hrt_init B cfg k)) = 0"
    "g_tick_hz (snd (hrt_init B cfg k)) \<noteq> 0" "g_default_slice (snd (hrt_init B cfg k)) \<noteq> 0"
    "g_fault (snd (hrt_init B cfg k)) = g_fault k" "fst (hrt_init B cfg k) = 0"
    using f k1 by (simp_all add: eq)
qed

lemma create_task_eq:
  fixes a :: uintptr
  assumes "length (g_tcbs k) = HARDRT_MAX_TASKS B" "HARDRT_MAX_TASKS B < 256" "fn \<noteq> 0" "stack \<noteq> 0" "64 \<le> n"
    "first_unused B k = Some i"
  obtains k3 where "hrt_create_task B fn a stack n attr k = (int i, rq_push B (attr_prio attr) (int i) k3)"
    "sched_core k3 = sched_core (k\<lparr>g_tcbs := (g_tcbs k)
       [i := task_tcb fn a stack n (attr_prio attr) (attr_slice k attr)]\<rparr>)"
proof -
  let ?T = "task_tcb fn a stack n (attr_prio attr) (attr_slice k attr)"
  note i = first_unused_Some [OF assms(6)]
  define k1 where "k1 = k\<lparr>g_tcbs := (g_tcbs k)[i := ?T\<lparr>slice_left := 0\<rparr>]\<rparr>"
  define k2 where "k2 = port_prepare_task_stack B (int i) (sym_task_trampoline B) stack n k1"
  define t3 where "t3 = (g_tcbs k2 ! i)\<lparr>state := HRT_READY, slice_left := timeslice_cfg (g_tcbs k2 ! i)\<rparr>"
  define k3 where "k3 = k2\<lparr>g_tcbs := (g_tcbs k2)[i := t3]\<rparr>"
  have c12: "sched_core k2 = sched_core k1"
    using prepare_core [of "int i" k1] i(1) assms(1) by (simp add: k1_def k2_def)
  note f12 = sched_core_fields [OF c12]
  have len: "length (g_tcbs k2) = HARDRT_MAX_TASKS B" "length (g_tcbs k1) = HARDRT_MAX_TASKS B"
    using f12(1) assms(1) by (simp_all add: k1_def)
  have t1: "g_tcbs k1 ! i = ?T\<lparr>slice_left := 0\<rparr>" using i(1) assms(1) by (simp add: k1_def)
  note t2 = tcb_sp_eqD [OF f12(11) [of i], unfolded t1]
  have t3: "t3\<lparr>sp := 0\<rparr> = ?T\<lparr>sp := 0\<rparr>"
    using t2 i(1) len by (simp add: t3_def task_tcb_def zero_tcb_def)
  have pr: "prio t3 = attr_prio attr" using tcb_sp_eqD(2) [OF t3] by (simp add: task_tcb_def)
  have k1': "k1 = k\<lparr>g_tcbs := (g_tcbs k)[i := zero_tcb\<lparr>entry := fn, arg := a, prio := attr_prio attr,
      timeslice_cfg := attr_slice k attr, stack_base := stack, stack_words := n\<rparr>]\<rparr>"
    by (simp add: k1_def task_tcb_def zero_tcb_def)
  have fn: "\<not> (fn = 0 \<or> stack = 0 \<or> n < 64)" using assms(3-5) by auto
  have "hrt_create_task B fn a stack n attr k = (int i, rq_push B (prio t3) (int i) k3)"
    using fn assms(1,2,6) i(1) len(1) [unfolded k2_def k1']
    by (cases attr) (simp_all add: hrt_create_task_def Let_def k1' k2_def k3_def t3_def attr_prio_def attr_slice_def)
  moreover have "sched_core k3 = sched_core (k\<lparr>g_tcbs := (g_tcbs k)[i := ?T]\<rparr>)"
    using sched_core_write [OF c12 t3, of i] by (simp add: k3_def k1_def)
  ultimately show ?thesis using that pr by simp
qed

lemma created_tcbs:
  assumes "sched_core k3 = sched_core (k\<lparr>g_tcbs := (g_tcbs k)[i := T]\<rparr>)" "length (g_tcbs k) = HARDRT_MAX_TASKS B"
    "j < HARDRT_MAX_TASKS B" "T\<lparr>sp := 0\<rparr> = T"
  shows "(g_tcbs (rq_push B q x k3) ! j)\<lparr>sp := 0\<rparr> = (if j = i then T else (g_tcbs k ! j)\<lparr>sp := 0\<rparr>)"
  using sched_core_fields(11) [OF assms(1), of j] assms(2-4) by (auto simp: nth_update_if)

lemma create_task_ready:
  fixes a :: uintptr
  assumes "kinv B R k" "fn \<noteq> 0" "stack \<noteq> 0" "64 \<le> n" "first_unused B k = Some i"
    "unat (attr_prio attr) < HARDRT_MAX_PRIO B"
  defines "k' \<equiv> snd (hrt_create_task B fn a stack n attr k)"
  shows "fst (hrt_create_task B fn a stack n attr k) = int i"
    and "kinv B (R - {i}) k'"
    and "rq_list B k' r = rq_list B k r @ (if r = unat (attr_prio attr) then [i] else [])"
    and "(g_tcbs k' ! i)\<lparr>sp := 0\<rparr> = task_tcb fn a stack n (attr_prio attr) (attr_slice k attr)"
    and "j \<noteq> i \<Longrightarrow> j < HARDRT_MAX_TASKS B \<Longrightarrow> (g_tcbs k' ! j)\<lparr>sp := 0\<rparr> = (g_tcbs k ! j)\<lparr>sp := 0\<rparr>"
    and "g_fault k' = g_fault k"
proof -
  let ?T = "task_tcb fn a stack n (attr_prio attr) (attr_slice k attr)"
  note wf = kinv_kwf [OF assms(1)]
  note sz = kwf_sizes [OF wf]
  note i = first_unused_Some [OF assms(5)]
  let ?kT = "k\<lparr>g_tcbs := (g_tcbs k)[i := ?T]\<rparr>"
  obtain k3 where k3: "hrt_create_task B fn a stack n attr k = (int i, rq_push B (attr_prio attr) (int i) k3)"
    "sched_core k3 = sched_core ?kT"
    using create_task_eq [OF sz(2) _ assms(2-5)] sz by blast
  note f3 = sched_core_fields [OF k3(2)]
  have nq: "\<not> queued B k i" using kwf_queued(2) [OF wf] i(2) by auto
  have wfT: "kwf B ?kT" using assms(6) by (intro kwf_write [OF wf nq]) (simp add: task_tcb_def)
  have wf3: "kwf B k3" using wfT kwf_core [OF k3(2)] by simp
  have t3: "state (g_tcbs k3 ! i) = HRT_READY" "prio (g_tcbs k3 ! i) = attr_prio attr"
    using tcb_sp_eqD(1,2) [OF f3(11) [of i]] i(1) sz(2) by (simp_all add: task_tcb_def)
  have rl3: "rq_list B k3 = rq_list B k" using rq_list_core [OF k3(2)] by simp
  have nq3: "\<not> queued B k3 i" using nq by (simp add: queued_def rl3)
  note push = kwf_push [OF wf3 i(1) nq3 t3(1), unfolded t3(2)]
  have k': "k' = rq_push B (attr_prio attr) (int i) k3" by (simp add: k'_def k3(1))
  have T: "?T\<lparr>sp := 0\<rparr> = ?T" by (simp add: task_tcb_def zero_tcb_def)
  note tcb = created_tcbs [OF k3(2) sz(2) _ T, of _ "attr_prio attr" "int i", folded k']
  show "fst (hrt_create_task B fn a stack n attr k) = int i" by (simp add: k3(1))
  show "rq_list B k' r = rq_list B k r @ (if r = unat (attr_prio attr) then [i] else [])"
    using push(3) by (simp add: k' rl3)
  show "(g_tcbs k' ! i)\<lparr>sp := 0\<rparr> = ?T" using tcb [OF i(1)] by simp
  show "(g_tcbs k' ! j)\<lparr>sp := 0\<rparr> = (g_tcbs k ! j)\<lparr>sp := 0\<rparr>" if "j \<noteq> i" "j < HARDRT_MAX_TASKS B"
    using tcb [OF that(2)] that(1) by simp
  show "g_fault k' = g_fault k" using f3(10) by (simp add: k')
  have "state (g_tcbs k' ! j) = (if j = i then HRT_READY else state (g_tcbs k ! j))" if "j < HARDRT_MAX_TASKS B" for j
    using arg_cong [OF tcb [OF that], of state] by (simp add: task_tcb_def split: if_splits)
  moreover have "queued B k' j \<longleftrightarrow> queued B k j \<or> j = i" for j
    using push(2) by (simp add: k' queued_def rl3)
  moreover have "kwf B k'" using push(1) by (simp add: k')
  ultimately show "kinv B (R - {i}) k'" using assms(1) by (auto simp: kinv_def)
qed

lemma create_task_bad_prio:
  fixes a :: uintptr
  assumes "kinv B R k" "fn \<noteq> 0" "stack \<noteq> 0" "64 \<le> n" "first_unused B k = Some i"
    "HARDRT_MAX_PRIO B \<le> unat (attr_prio attr)"
  defines "k' \<equiv> snd (hrt_create_task B fn a stack n attr k)"
  shows "fst (hrt_create_task B fn a stack n attr k) = int i" "state (g_tcbs k' ! i) = HRT_READY"
    "\<not> queued B k' i" "g_error k' = ERR_INVALID_PRIO"
proof -
  note wf = kinv_kwf [OF assms(1)]
  note sz = kwf_sizes [OF wf]
  note i = first_unused_Some [OF assms(5)]
  let ?T = "task_tcb fn a stack n (attr_prio attr) (attr_slice k attr)"
  obtain k3 where k3: "hrt_create_task B fn a stack n attr k = (int i, rq_push B (attr_prio attr) (int i) k3)"
    "sched_core k3 = sched_core (k\<lparr>g_tcbs := (g_tcbs k)[i := ?T]\<rparr>)"
    using create_task_eq [OF sz(2) _ assms(2-5)] sz by blast
  have k': "k' = hrt_error ERR_INVALID_PRIO k3" using assms(6) by (simp add: k'_def k3(1) rq_push_def)
  have nq: "\<not> queued B k i" using kwf_queued(2) [OF wf] i(2) by auto
  show "fst (hrt_create_task B fn a stack n attr k) = int i" by (simp add: k3(1))
  show "state (g_tcbs k' ! i) = HRT_READY"
    using tcb_sp_eqD(1) [OF sched_core_fields(11) [OF k3(2), of i]] i(1) sz(2)
    by (simp add: k' hrt_error_def task_tcb_def)
  show "\<not> queued B k' i" "g_error k' = ERR_INVALID_PRIO"
    using nq rq_list_core [OF k3(2), of B] by (simp_all add: k' hrt_error_def queued_def)
qed

end

lemma create_task_bad_args:
  assumes "fn = 0 \<or> stack = 0 \<or> n < 64"
  shows "hrt_create_task B fn a stack n attr k = (-1, hrt_error ERR_INVALID_TASK k)"
  using assms by (simp add: hrt_create_task_def)

lemma create_task_no_slot:
  assumes "fn \<noteq> 0" "stack \<noteq> 0" "64 \<le> n" "first_unused B k = None"
  shows "hrt_create_task B fn a stack n attr k = (-1, hrt_error ERR_INVALID_ID k)"
  using assms by (simp add: hrt_create_task_def not_less)

end
