(* ===== verification/HRT_Sched.thy ===== *)
theory HRT_Sched
  imports HRT_Tasks
begin

text \<open>
  The tick of \<open>src/core/hardrt_sched.c\<close>: \<open>hrt__tick_isr\<close> advances time, wakes the sleepers
  whose time has come, charges the running task's slice and asks the port for a switch when
  one of the two happened; \<open>hrt_tick_from_isr\<close> is the entry for an application-owned timer.

  The lemmas give the set of tasks a tick wakes and the order in which it queues them, the
  invariant across a tick, and the wrap-around behaviour of the wake-up comparison.
\<close>

section \<open>Definitions\<close>

definition sleep_expired :: "u32 \<Rightarrow> u32 \<Rightarrow> bool" where
  "sleep_expired wake now \<longleftrightarrow> sint (wake - now) \<le> 0"

definition tick_wake :: "'p env \<Rightarrow> nat \<Rightarrow> bool \<times> 'p kernel_scheme \<Rightarrow> bool \<times> 'p kernel_scheme" where
  "tick_wake B i s =
     (case s of (trig, k) \<Rightarrow>
        let t = hrt__tcb B (int i) in
        if t = None then (trig, k)
        else let k = deref t k in
          if state (tcb_of k t) = HRT_SLEEP \<and> sleep_expired (wake_tick (tcb_of k t)) (hrt_tick_now k)
          then (True, hrt__make_ready B (int i) k)
          else (trig, k))"

definition tick_charge :: "'p env \<Rightarrow> bool \<times> 'p kernel_scheme \<Rightarrow> bool \<times> 'p kernel_scheme" where
  "tick_charge B s =
     (case s of (trig, k) \<Rightarrow>
        let cur = hrt__get_current k in
        if cur < 0 \<or> cur \<ge> int (HARDRT_MAX_TASKS B) then (trig, hrt_error ERR_INVALID_ID k)
        else
          let ct = hrt__tcb B cur in
          if ct = None then (trig, hrt_error ERR_TCB_NULL k)
          else let k = deref ct k in
            if state (tcb_of k ct) = HRT_READY \<and> rr_policy (hrt__policy k) \<and>
               timeslice_cfg (tcb_of k ct) > 0 \<and> slice_left (tcb_of k ct) > 0
            then let k = tcb_upd ct (\<lambda>u. u\<lparr>slice_left := slice_left u - 1\<rparr>) k
                 in (trig \<or> slice_left (tcb_of k ct) = 0, k)
            else (trig, k))"

definition hrt__tick_isr :: "'p env \<Rightarrow> 'p kernel_scheme \<Rightarrow> 'p kernel_scheme" where
  "hrt__tick_isr B k =
     (let k = hrt__inc_tick k in
      case tick_charge B (fold (tick_wake B) [0..<HARDRT_MAX_TASKS B] (False, k)) of
        (triggerPendSV, k) \<Rightarrow> if triggerPendSV then port_pend_context_switch B k else k)"

definition hrt_tick_from_isr :: "'p env \<Rightarrow> 'p kernel_scheme \<Rightarrow> 'p kernel_scheme" where
  "hrt_tick_from_isr B k =
     (if hrt__cfg_tick_src k \<noteq> HRT_TICK_EXTERNAL then k else hrt__tick_isr B k)"

text \<open>The task a tick wakes, judged in the state the tick finds.\<close>

definition due :: "'p kernel_scheme \<Rightarrow> u32 \<Rightarrow> nat \<Rightarrow> bool" where
  "due k now i \<longleftrightarrow> state (g_tcbs k ! i) = HRT_SLEEP \<and> sleep_expired (wake_tick (g_tcbs k ! i)) now"

definition charged_tcb :: "hrt_policy \<Rightarrow> hrt_tcb \<Rightarrow> hrt_tcb" where
  "charged_tcb pol t =
     (if state t = HRT_READY \<and> rr_policy pol \<and> timeslice_cfg t > 0 \<and> slice_left t > 0
      then t\<lparr>slice_left := slice_left t - 1\<rparr> else t)"

section \<open>Waking the sleepers\<close>

lemma tick_wake_due:
  assumes "kinv B R k" "i < HARDRT_MAX_TASKS B" "due k (g_tick k) i"
  shows "tick_wake B i (trig, k) = (True, hrt__make_ready B (int i) k)"
  using assms kwf_sizes [OF kinv_kwf [OF assms(1)]]
  by (simp add: tick_wake_def due_def hrt_tick_now_def Let_def)

lemma tick_wake_not_due:
  assumes "kinv B R k" "i < HARDRT_MAX_TASKS B" "\<not> due k (g_tick k) i"
  shows "tick_wake B i (trig, k) = (trig, k)"
  using assms kwf_sizes [OF kinv_kwf [OF assms(1)]]
  by (auto simp: tick_wake_def due_def hrt_tick_now_def Let_def)

definition woken_upto :: "'p env \<Rightarrow> nat set \<Rightarrow> 'p kernel_scheme \<Rightarrow> nat \<Rightarrow> bool \<times> 'p kernel_scheme \<Rightarrow> bool" where
  "woken_upto B R k n s \<longleftrightarrow>
     (let D = {i. i < n \<and> due k (g_tick k) i}; k' = snd s in
      fst s = (D \<noteq> {}) \<and> kinv B (R - D) k' \<and>
      (\<forall>j. g_tcbs k' ! j = (if j \<in> D then ready_tcb (g_tcbs k ! j) else g_tcbs k ! j)) \<and>
      (\<forall>r. rq_list B k' r =
         rq_list B k r @ filter (\<lambda>i. due k (g_tick k) i \<and> unat (prio (g_tcbs k ! i)) = r) [0..<n]) \<and>
      g_tick k' = g_tick k \<and> g_current k' = g_current k \<and> g_policy k' = g_policy k \<and>
      g_error k' = g_error k \<and> g_fault k' = g_fault k)"

lemma woken_upto_Suc:
  assumes "woken_upto B R k n (trig, k')" "Suc n \<le> HARDRT_MAX_TASKS B"
  shows "woken_upto B R k (Suc n) (tick_wake B n (trig, k'))"
proof -
  define D where "D = {i. i < n \<and> due k (g_tick k) i}"
  have inv: "kinv B (R - D) k'" and trig: "trig = (D \<noteq> {})"
    and tcb: "\<And>j. g_tcbs k' ! j = (if j \<in> D then ready_tcb (g_tcbs k ! j) else g_tcbs k ! j)"
    and rl: "\<And>r. rq_list B k' r = rq_list B k r @
         filter (\<lambda>i. due k (g_tick k) i \<and> unat (prio (g_tcbs k ! i)) = r) [0..<n]"
    and fr: "g_tick k' = g_tick k" "g_current k' = g_current k" "g_policy k' = g_policy k"
      "g_error k' = g_error k" "g_fault k' = g_fault k"
    using assms(1) by (simp_all add: woken_upto_def Let_def D_def)
  have n: "n < HARDRT_MAX_TASKS B" "n \<notin> D" using assms(2) by (simp_all add: D_def)
  have same: "due k' (g_tick k') n \<longleftrightarrow> due k (g_tick k) n"
    using n(2) by (simp add: due_def tcb fr)
  show ?thesis
  proof (cases "due k (g_tick k) n")
    case True
    have D': "{i. i < Suc n \<and> due k (g_tick k) i} = insert n D" using True by (auto simp: D_def less_Suc_eq)
    have st: "state (g_tcbs k' ! n) \<noteq> HRT_READY" "state (g_tcbs k' ! n) \<noteq> HRT_UNUSED"
      using True n(2) by (simp_all add: tcb due_def)
    note mk = make_ready_wakes [OF inv n(1) st]
    have len: "n < length (g_tcbs k')" using n(1) kwf_sizes(2) [OF kinv_kwf [OF inv]] by simp
    have eq: "tick_wake B n (trig, k') = (True, hrt__make_ready B (int n) k')"
      using tick_wake_due [OF inv n(1)] same True by simp
    have "R - insert n D = R - D - {n}" by blast
    with mk(1) have "kinv B (R - insert n D) (hrt__make_ready B (int n) k')" by simp
    then show ?thesis
      using True n(2) len by (auto simp: woken_upto_def Let_def eq D' mk(2-5) fr nth_list_update tcb rl
          simp del: make_ready_fields) (simp_all add: fr)
  next
    case False
    have D': "{i. i < Suc n \<and> due k (g_tick k) i} = D" using False by (auto simp: D_def less_Suc_eq)
    have eq: "tick_wake B n (trig, k') = (trig, k')"
      using tick_wake_not_due [OF inv n(1)] same False by simp
    show ?thesis unfolding eq woken_upto_def Let_def D' using inv False by (simp add: trig tcb rl fr)
  qed
qed

lemma tick_wake_fold:
  assumes "kinv B R k" "n \<le> HARDRT_MAX_TASKS B"
  shows "woken_upto B R k n (fold (tick_wake B) [0..<n] (False, k))"
  using assms(2)
proof (induction n)
  case 0
  then show ?case using assms(1) by (simp add: woken_upto_def)
next
  case (Suc n)
  obtain trig k' where s: "fold (tick_wake B) [0..<n] (False, k) = (trig, k')" by fastforce
  from Suc s have "woken_upto B R k n (trig, k')" by simp
  from woken_upto_Suc [OF this Suc.prems] s show ?case by simp
qed

section \<open>A whole tick\<close>

lemma tick_woken:
  assumes "kinv B R k"
  defines "D \<equiv> {i. i < HARDRT_MAX_TASKS B \<and> due k (g_tick k + 1) i}"
  obtains trig k1 where "fold (tick_wake B) [0..<HARDRT_MAX_TASKS B] (False, hrt__inc_tick k) = (trig, k1)"
    "kinv B (R - D) k1" "\<And>j. g_tcbs k1 ! j = (if j \<in> D then ready_tcb (g_tcbs k ! j) else g_tcbs k ! j)"
    "\<And>r. rq_list B k1 r = rq_list B k r @
       filter (\<lambda>i. i \<in> D \<and> unat (prio (g_tcbs k ! i)) = r) [0..<HARDRT_MAX_TASKS B]"
    "g_tick k1 = g_tick k + 1" "g_current k1 = g_current k" "g_policy k1 = g_policy k"
    "g_error k1 = g_error k" "g_fault k1 = g_fault k"
proof -
  let ?k0 = "hrt__inc_tick k" and ?N = "HARDRT_MAX_TASKS B"
  have inv0: "kinv B R ?k0"
    using assms(1) by (simp add: hrt__inc_tick_def kinv_def kwf_def kshape_def)
  have due0: "due ?k0 (g_tick ?k0) = due k (g_tick k + 1)"
    by (simp add: due_def hrt__inc_tick_def fun_eq_iff)
  obtain trig k1 where s: "fold (tick_wake B) [0..<?N] (False, ?k0) = (trig, k1)" by fastforce
  have w: "woken_upto B R ?k0 ?N (trig, k1)" using tick_wake_fold [OF inv0, of ?N] s by simp
  have f: "filter (\<lambda>i. i \<in> D \<and> unat (prio (g_tcbs k ! i)) = r) [0..<?N] =
        filter (\<lambda>i. due k (g_tick k + 1) i \<and> unat (prio (g_tcbs k ! i)) = r) [0..<?N]" for r
    by (rule filter_cong) (auto simp: D_def)
  have "kinv B (R - D) k1"
    "\<And>j. g_tcbs k1 ! j = (if j \<in> D then ready_tcb (g_tcbs k ! j) else g_tcbs k ! j)"
    "\<And>r. rq_list B k1 r = rq_list B k r @
       filter (\<lambda>i. i \<in> D \<and> unat (prio (g_tcbs k ! i)) = r) [0..<?N]"
    "g_tick k1 = g_tick k + 1" "g_current k1 = g_current k" "g_policy k1 = g_policy k"
    "g_error k1 = g_error k" "g_fault k1 = g_fault k"
    using w unfolding f woken_upto_def Let_def due0 D_def [symmetric]
    by (simp_all add: hrt__inc_tick_def D_def)
  then show thesis by (rule that [OF s])
qed

context hrt_port
begin

lemma tick_isr_effect:
  assumes "kinv B R k" "g_current k = int c" "c < HARDRT_MAX_TASKS B"
  defines "D \<equiv> {i. i < HARDRT_MAX_TASKS B \<and> due k (g_tick k + 1) i}"
  defines "k' \<equiv> hrt__tick_isr B k"
  shows "kinv B (R - D) k'"
    and "g_tick k' = g_tick k + 1"
    and "rq_list B k' r = rq_list B k r @
           filter (\<lambda>i. i \<in> D \<and> unat (prio (g_tcbs k ! i)) = r) [0..<HARDRT_MAX_TASKS B]"
    and "g_tcbs k' ! j = (let t = (if j \<in> D then ready_tcb (g_tcbs k ! j) else g_tcbs k ! j)
           in if j = c then charged_tcb (g_policy k) t else t)"
    and "g_current k' = g_current k" "g_error k' = g_error k" "g_fault k' = g_fault k"
proof -
  obtain trig k1 where s: "fold (tick_wake B) [0..<HARDRT_MAX_TASKS B] (False, hrt__inc_tick k) = (trig, k1)"
    and inv1: "kinv B (R - D) k1"
    and tcb1: "\<And>j. g_tcbs k1 ! j = (if j \<in> D then ready_tcb (g_tcbs k ! j) else g_tcbs k ! j)"
    and rl1: "\<And>r. rq_list B k1 r = rq_list B k r @
           filter (\<lambda>i. i \<in> D \<and> unat (prio (g_tcbs k ! i)) = r) [0..<HARDRT_MAX_TASKS B]"
    and f1: "g_tick k1 = g_tick k + 1" "g_current k1 = g_current k" "g_policy k1 = g_policy k"
      "g_error k1 = g_error k" "g_fault k1 = g_fault k"
    using tick_woken [OF assms(1), folded D_def] by blast
  have len: "c < length (g_tcbs k1)" using kwf_sizes(2) [OF kinv_kwf [OF inv1]] assms(3) by simp
  let ?k2 = "k1\<lparr>g_tcbs := (g_tcbs k1)[c := charged_tcb (g_policy k) (g_tcbs k1 ! c)]\<rparr>"
  have charge: "snd (tick_charge B (trig, k1)) = ?k2"
    using assms(2,3) len f1
    by (auto simp: tick_charge_def charged_tcb_def hrt__get_current_def hrt__policy_def Let_def)
  have k': "k' = (if fst (tick_charge B (trig, k1)) then port_pend_context_switch B ?k2 else ?k2)"
    using charge by (simp add: k'_def hrt__tick_isr_def s Let_def split_beta)
  have inv2: "kinv B (R - D) ?k2"
    by (rule kinv_write_same [OF inv1]) (simp_all add: charged_tcb_def)
  show "kinv B (R - D) k'" using inv2 by (simp add: k')
  show "g_tick k' = g_tick k + 1" "g_current k' = g_current k" "g_error k' = g_error k"
    "g_fault k' = g_fault k"
    using f1 by (simp_all add: k')
  show "rq_list B k' r = rq_list B k r @
           filter (\<lambda>i. i \<in> D \<and> unat (prio (g_tcbs k ! i)) = r) [0..<HARDRT_MAX_TASKS B]"
    using rl1 by (simp add: k')
  show "g_tcbs k' ! j = (let t = (if j \<in> D then ready_tcb (g_tcbs k ! j) else g_tcbs k ! j)
           in if j = c then charged_tcb (g_policy k) t else t)"
    using len by (auto simp: k' tcb1 nth_update_if Let_def)
qed

text \<open>Before the first switch there is no current task to charge; sleepers are woken all the same, and the
  error register is set.\<close>

lemma tick_isr_boot:
  assumes "kinv B R k" "g_current k < 0"
  defines "D \<equiv> {i. i < HARDRT_MAX_TASKS B \<and> due k (g_tick k + 1) i}"
  defines "k' \<equiv> hrt__tick_isr B k"
  shows "kinv B (R - D) k'" "g_tcbs k' ! j = (if j \<in> D then ready_tcb (g_tcbs k ! j) else g_tcbs k ! j)"
    "g_current k' = g_current k" "g_error k' = ERR_INVALID_ID" "g_fault k' = g_fault k"
proof -
  obtain trig k1 where k1: "fold (tick_wake B) [0..<HARDRT_MAX_TASKS B] (False, hrt__inc_tick k) = (trig, k1)"
    "kinv B (R - D) k1" "\<And>j. g_tcbs k1 ! j = (if j \<in> D then ready_tcb (g_tcbs k ! j) else g_tcbs k ! j)"
    "g_current k1 = g_current k" "g_fault k1 = g_fault k"
    by (rule tick_woken [OF assms(1), folded D_def]) (rule that)
  have "k' = (if trig then port_pend_context_switch B (hrt_error ERR_INVALID_ID k1) else hrt_error ERR_INVALID_ID k1)"
    using assms(2) k1(1,4) by (simp add: k'_def hrt__tick_isr_def tick_charge_def hrt__get_current_def Let_def)
  note eq = this
  show "kinv B (R - D) k'" using k1(2) by (simp add: eq)
  show "g_tcbs k' ! j = (if j \<in> D then ready_tcb (g_tcbs k ! j) else g_tcbs k ! j)"
    "g_current k' = g_current k" "g_error k' = ERR_INVALID_ID" "g_fault k' = g_fault k"
    using k1(3-5) by (simp_all add: eq hrt_error_def)
qed

end

section \<open>The wake-up comparison and the wrap of the tick counter\<close>

lemma sint_u32_nonpos: "sint (w :: u32) \<le> 0 \<longleftrightarrow> w = 0 \<or> 2 ^ 31 \<le> unat w"
proof -
  have "unat w < 2 ^ LENGTH(32)" by (rule unsigned_less)
  then have lt: "unat w < 2 ^ 32" by simp
  have "bit w 31 \<longleftrightarrow> bit (unat w) 31" by (simp add: bit_unsigned_iff)
  also have "\<dots> \<longleftrightarrow> odd (unat w div 2 ^ 31)" by (simp add: bit_iff_odd)
  also have "\<dots> \<longleftrightarrow> 2 ^ 31 \<le> unat w"
  proof (cases "2 ^ 31 \<le> unat w")
    case True
    then have "unat w div 2 ^ 31 = 1" using lt by (intro div_nat_eqI) simp_all
    with True show ?thesis by simp
  qed simp
  finally show ?thesis using bit_last_iff [of w] by (auto simp: le_less signed_eq_0_iff)
qed

lemma sleep_expired_shift:
  "sleep_expired (t + n) (t + j) \<longleftrightarrow> n = j \<or> 2 ^ 31 \<le> unat (n - j)"
  by (simp add: sleep_expired_def sint_u32_nonpos)

lemma sleep_expired_exact:
  assumes "unat n \<le> 2 ^ 31" "1 \<le> j" "j \<le> unat n"
  shows "sleep_expired (t + n) (t + word_of_nat j) \<longleftrightarrow> j = unat n"
proof -
  have j: "unat (word_of_nat j :: u32) = j" using assms(1,3) by simp
  have "word_of_nat j \<le> n" using assms(3) j by (simp add: word_le_nat_alt)
  then have "unat (n - word_of_nat j) = unat n - j" using j by (simp add: unat_sub)
  moreover have "unat n - j < 2 ^ 31" using assms by linarith
  moreover have "n = word_of_nat j \<longleftrightarrow> j = unat n" using j by (metis word_unat_eq_iff)
  ultimately show ?thesis unfolding sleep_expired_shift by simp
qed

lemma sleep_expired_at_once:
  assumes "2 ^ 31 < unat n"
  shows "sleep_expired (t + n) (t + 1)"
proof -
  have "1 \<le> n" using assms by (simp add: word_le_nat_alt)
  then have "unat (n - 1) = unat n - 1" by (simp add: unat_sub)
  moreover have "2 ^ 31 \<le> unat n - 1" using assms by linarith
  ultimately show ?thesis unfolding sleep_expired_shift by simp
qed

section \<open>Milliseconds and ticks\<close>

lemma unat_u64_mult_u32:
  "unat ((ucast (a :: u32) :: u64) * ucast (b :: u32) + 999) = unat a * unat b + 999"
proof -
  have "unat a < 2 ^ LENGTH(32)" "unat b < 2 ^ LENGTH(32)" by (rule unsigned_less)+
  then have "unat a \<le> 2 ^ 32 - 1" "unat b \<le> 2 ^ 32 - 1" by simp_all
  then have "unat a * unat b \<le> (2 ^ 32 - 1) * (2 ^ 32 - 1)" by (rule mult_le_mono)
  then show ?thesis by (simp add: unat_word_ariths unat_ucast_up)
qed

lemma ms_to_ticks_value:
  "unat (hrt__ms_to_ticks ms hz) =
     (if ms = 0 \<or> hz = 0 then 1
      else min (2 ^ 32 - 1) ((unat ms * unat hz + 999) div 1000))"
proof (cases "ms = 0 \<or> hz = 0")
  case True
  then show ?thesis by (simp add: hrt__ms_to_ticks_def)
next
  case False
  let ?t = "((ucast ms :: u64) * ucast hz + 999) div 1000"
  let ?v = "(unat ms * unat hz + 999) div 1000"
  have t: "unat ?t = ?v" by (simp add: unat_div unat_u64_mult_u32)
  have "1 \<le> unat ms * unat hz" using False by (simp add: Suc_leI unat_gt_0)
  then have "1 \<le> ?v" by linarith
  then have nz: "?t \<noteq> 0" using t by (metis not_one_le_zero unat_0)
  have gt: "?t > 0xFFFFFFFF \<longleftrightarrow> ?v > 2 ^ 32 - 1" using t by (simp add: word_less_nat_alt)
  have "unat (ucast ?t :: u32) = ?v" if "?v \<le> 2 ^ 32 - 1"
    using that t by (simp add: unat_ucast_mod)
  with False nz gt show ?thesis by (auto simp: hrt__ms_to_ticks_def Let_def min_def)
qed

lemma ms_to_ticks_pos: "1 \<le> unat (hrt__ms_to_ticks ms hz)"
proof (cases "ms = 0 \<or> hz = 0")
  case False
  then have "1 \<le> unat ms * unat hz" by (simp add: Suc_leI unat_gt_0)
  then have "1 \<le> (unat ms * unat hz + 999) div 1000" by linarith
  with False show ?thesis by (simp add: ms_to_ticks_value)
qed (simp add: ms_to_ticks_value)

lemma now_ms_value:
  "unat (hrt_now_ms k) =
     (if g_tick_hz k = 0 then 0 else (unat (g_tick k) * 1000 div unat (g_tick_hz k)) mod 2 ^ 32)"
proof -
  have "unat (g_tick k) < 2 ^ LENGTH(32)" by (rule unsigned_less)
  then have "unat ((ucast (g_tick k) :: u64) * 1000) = unat (g_tick k) * 1000"
    by (simp add: unat_word_ariths unat_ucast_up)
  then show ?thesis
    by (simp add: hrt_now_ms_def unat_ucast_mod [where 'w = 32] unat_div unat_ucast_up)
qed

section \<open>A sleeper over many ticks\<close>

lemma charged_not_ready: "state t \<noteq> HRT_READY \<Longrightarrow> charged_tcb pol t = t"
  by (simp add: charged_tcb_def)

context hrt_port
begin

lemma sleeper_stays:
  assumes "kinv B R k" "g_current k = int d" "d < HARDRT_MAX_TASKS B" "c < HARDRT_MAX_TASKS B"
    "state (g_tcbs k ! c) = HRT_SLEEP" "wake_tick (g_tcbs k ! c) = g_tick k + n"
    "unat n \<le> 2 ^ 31" "j < unat n"
  shows "\<exists>S. kinv B S ((hrt__tick_isr B ^^ j) k) \<and> g_current ((hrt__tick_isr B ^^ j) k) = int d \<and>
    g_tick ((hrt__tick_isr B ^^ j) k) = g_tick k + word_of_nat j \<and>
    g_tcbs ((hrt__tick_isr B ^^ j) k) ! c = g_tcbs k ! c"
  using assms(8)
proof (induction j)
  case 0
  then show ?case using assms(1,2) by auto
next
  case (Suc j)
  let ?k = "(hrt__tick_isr B ^^ j) k"
  obtain S where S: "kinv B S ?k" "g_current ?k = int d" "g_tick ?k = g_tick k + word_of_nat j"
    "g_tcbs ?k ! c = g_tcbs k ! c"
    using Suc by auto
  note t = tick_isr_effect [OF S(1,2) assms(3)]
  have now: "g_tick ?k + 1 = g_tick k + word_of_nat (Suc j)" by (simp add: S(3) add_ac)
  have "\<not> sleep_expired (g_tick k + n) (g_tick k + word_of_nat (Suc j))"
    using sleep_expired_exact [of n "Suc j" "g_tick k"] assms(7) Suc.prems by simp
  then have nd: "\<not> due ?k (g_tick ?k + 1) c" unfolding now by (simp add: due_def S(4) assms(6))
  have tc: "g_tcbs (hrt__tick_isr B ?k) ! c = g_tcbs k ! c"
    using nd assms(5) S(4) charged_not_ready [of "g_tcbs k ! c"] by (auto simp: t(4) Let_def)
  from t(1,2,5) now tc S(2) show ?case by auto
qed

lemma sleeper_wakes:
  assumes "kinv B R k" "g_current k = int d" "d < HARDRT_MAX_TASKS B" "c < HARDRT_MAX_TASKS B"
    "state (g_tcbs k ! c) = HRT_SLEEP" "wake_tick (g_tcbs k ! c) = g_tick k + n"
    "unat n \<le> 2 ^ 31" "1 \<le> unat n"
  shows "state (g_tcbs ((hrt__tick_isr B ^^ unat n) k) ! c) = HRT_READY"
    and "queued B ((hrt__tick_isr B ^^ unat n) k) c"
proof -
  obtain j where j: "unat n = Suc j" using assms(8) by (cases "unat n") auto
  let ?k = "(hrt__tick_isr B ^^ j) k"
  obtain S where S: "kinv B S ?k" "g_current ?k = int d" "g_tick ?k = g_tick k + word_of_nat j"
    "g_tcbs ?k ! c = g_tcbs k ! c"
    using sleeper_stays [OF assms(1-7), of j] j by auto
  note t = tick_isr_effect [OF S(1,2) assms(3)]
  have "word_of_nat (Suc j) = n" using j by (metis of_nat_unat ucast_id)
  then have now: "g_tick ?k + 1 = g_tick k + n" by (simp add: S(3) add_ac flip: of_nat_Suc)
  have d: "due ?k (g_tick ?k + 1) c"
    unfolding now by (simp add: due_def S(4) assms(5,6) sleep_expired_def)
  show "state (g_tcbs ((hrt__tick_isr B ^^ unat n) k) ! c) = HRT_READY"
    using d assms(4) by (simp add: j t(4) Let_def charged_tcb_def)
  have "unat (prio (g_tcbs ?k ! c)) < HARDRT_MAX_PRIO B"
    using kwf_prio [OF kinv_kwf [OF S(1)] assms(4)] S(4) assms(5) by simp
  with d assms(4) show "queued B ((hrt__tick_isr B ^^ unat n) k) c"
    by (auto simp: j queued_def t(3) intro!: exI [of _ "unat (prio (g_tcbs ?k ! c))"])
qed

lemma sleep_ticks:
  fixes ms :: u32
  assumes "kinv B {c} k" "g_current k = int c" "c < HARDRT_MAX_TASKS B" "state (g_tcbs k ! c) \<noteq> HRT_UNUSED"
  defines "t \<equiv> hrt__ms_to_ticks ms (g_tick_hz k)"
  defines "k1 \<equiv> snd (hrt_sleep B ms k)"
  shows "unat t \<le> 2 ^ 31 \<Longrightarrow> j < unat t \<Longrightarrow> state (g_tcbs ((hrt__tick_isr B ^^ j) k1) ! c) = HRT_SLEEP"
    and "unat t \<le> 2 ^ 31 \<Longrightarrow> state (g_tcbs ((hrt__tick_isr B ^^ unat t) k1) ! c) = HRT_READY"
    and "unat t \<le> 2 ^ 31 \<Longrightarrow> queued B ((hrt__tick_isr B ^^ unat t) k1) c"
    and "2 ^ 31 < unat t \<Longrightarrow> state (g_tcbs (hrt__tick_isr B k1) ! c) = HRT_READY"
proof -
  note s = sleep_running [where ms = ms, OF assms(1-4), folded k1_def t_def]
  have len: "c < length (g_tcbs k)" using kwf_sizes(2) [OF kinv_kwf [OF assms(1)]] assms(3) by simp
  have a: "g_current k1 = int c" "state (g_tcbs k1 ! c) = HRT_SLEEP" "wake_tick (g_tcbs k1 ! c) = g_tick k1 + t"
    using s(2,6,7) assms(2) len by simp_all
  have pos: "1 \<le> unat t" unfolding t_def by (rule ms_to_ticks_pos)
  show "state (g_tcbs ((hrt__tick_isr B ^^ j) k1) ! c) = HRT_SLEEP" if "unat t \<le> 2 ^ 31" "j < unat t"
    using sleeper_stays [OF s(1) a(1) assms(3,3) a(2,3) that] a(2) by auto
  show "state (g_tcbs ((hrt__tick_isr B ^^ unat t) k1) ! c) = HRT_READY"
    "queued B ((hrt__tick_isr B ^^ unat t) k1) c" if "unat t \<le> 2 ^ 31"
    using sleeper_wakes [OF s(1) a(1) assms(3,3) a(2,3) that pos] by blast+
  show "state (g_tcbs (hrt__tick_isr B k1) ! c) = HRT_READY" if "2 ^ 31 < unat t"
  proof -
    have d: "due k1 (g_tick k1 + 1) c" using sleep_expired_at_once [OF that] a by (simp add: due_def)
    show ?thesis
      using tick_isr_effect(4) [OF s(1) a(1) assms(3), of c] d assms(3)
      by (simp add: Let_def charged_tcb_def ready_tcb_def)
  qed
qed

end

end
