(* ===== verification/HRT_Sem.thy ===== *)
theory HRT_Sem
  imports HRT_Sched
begin

text \<open>
  Semaphores: \<open>inc/hardrt_sem.h\<close> and \<open>src/core/hardrt_sem.c\<close>.

  An operation takes the semaphore and the kernel state and returns both. A call that ends
  in the hop to the scheduler returns \<open>Hop\<close>: its caller gets the result when it is scheduled
  again, which for \<open>hrt_sem_take\<close> and \<open>hrt_sem_give\<close> is 0. \<open>sem_take_slow\<close> is the part of
  \<open>hrt_sem_take\<close> after the failed first attempt; between the two the code holds no critical
  section.

  The invariant \<open>sem_wf\<close> ties a semaphore to the task states: its waiters are distinct blocked
  tasks, and it never has both tokens and waiters. The operations refine the abstract
  semaphore \<open>spec_take\<close> / \<open>spec_give\<close> over a token count and a list of waiters.
\<close>

section \<open>Definitions\<close>

datatype outcome = Ret int | Hop

record hrt_sem =
  sem_count :: u8
  sem_max_count :: u8
  sem_q :: "u8 list"
  sem_head :: u8
  sem_tail :: u8
  sem_count_wait :: u8

definition hrt_sem_init :: "u32 \<Rightarrow> hrt_sem \<Rightarrow> hrt_sem" where
  "hrt_sem_init init s =
     s\<lparr>sem_max_count := 1, sem_count := (if init \<noteq> 0 then 1 else 0),
       sem_head := 0, sem_tail := 0, sem_count_wait := 0\<rparr>"

definition sem_waitq_push ::
  "'p env \<Rightarrow> u8 \<Rightarrow> hrt_sem \<times> 'p kernel_scheme \<Rightarrow> hrt_sem \<times> 'p kernel_scheme" where
  "sem_waitq_push B i sk =
     (case sk of (s, k) \<Rightarrow>
        let k = (if HARDRT_DEBUG B \<and> unat i \<ge> HARDRT_MAX_TASKS B then hrt_error ERR_INVALID_ID k else k)
        in if unat (sem_count_wait s) \<ge> HARDRT_MAX_TASKS B then (s, k)
           else (s\<lparr>sem_q := (sem_q s)[unat (sem_tail s) := i],
                   sem_tail := next_idx (HARDRT_MAX_TASKS B) (sem_tail s),
                   sem_count_wait := sem_count_wait s + 1\<rparr>, k))"

definition sem_waitq_pop ::
  "'p env \<Rightarrow> hrt_sem \<times> 'p kernel_scheme \<Rightarrow> int \<times> hrt_sem \<times> 'p kernel_scheme" where
  "sem_waitq_pop B sk =
     (case sk of (s, k) \<Rightarrow>
        if sem_count_wait s = 0 then (-1, s, k)
        else
          let i = uint (sem_q s ! unat (sem_head s));
              k = (if HARDRT_DEBUG B \<and> (i < 0 \<or> i \<ge> int (HARDRT_MAX_TASKS B))
                   then hrt_error ERR_INVALID_ID k else k)
          in (i, s\<lparr>sem_head := next_idx (HARDRT_MAX_TASKS B) (sem_head s),
                   sem_count_wait := sem_count_wait s - 1\<rparr>, k))"

definition hrt_sem_init_counting :: "u32 \<Rightarrow> u8 \<Rightarrow> hrt_sem \<Rightarrow> hrt_sem" where
  "hrt_sem_init_counting init max_count s =
     (let max_count = (if max_count = 0 then 1 else max_count);
          init = (if init > ucast max_count then ucast max_count else init)
      in s\<lparr>sem_max_count := max_count, sem_count := ucast init,
           sem_head := 0, sem_tail := 0, sem_count_wait := 0\<rparr>)"

definition hrt_sem_try_take ::
  "'p env \<Rightarrow> hrt_sem \<Rightarrow> 'p kernel_scheme \<Rightarrow> int \<times> hrt_sem \<times> 'p kernel_scheme" where
  "hrt_sem_try_take B s k =
     (let k = port_crit_enter B k;
          (ok, s) = (if sem_count s \<noteq> 0 then (0, s\<lparr>sem_count := sem_count s - 1\<rparr>) else (-1, s));
          k = port_crit_exit B k
      in (ok, s, k))"

definition sem_take_slow ::
  "'p env \<Rightarrow> hrt_sem \<Rightarrow> 'p kernel_scheme \<Rightarrow> outcome \<times> hrt_sem \<times> 'p kernel_scheme" where
  "sem_take_slow B s k =
     (let me = hrt__get_current k in
      if HARDRT_DEBUG B \<and> (me < 0 \<or> me \<ge> int (HARDRT_MAX_TASKS B))
      then (Ret (-1), s, hrt_error ERR_INVALID_ID k)
      else
        let k = port_crit_enter B k in
        if sem_count s \<noteq> 0
        then (Ret 0, s\<lparr>sem_count := sem_count s - 1\<rparr>, port_crit_exit B k)
        else
          let (s, k) = sem_waitq_push B (word_of_int me) (s, k);
              t = hrt__tcb B me;
              k = (if HARDRT_DEBUG B \<and> t = None then hrt_error ERR_TCB_NULL k else k);
              k = tcb_upd t (\<lambda>u. u\<lparr>state := HRT_BLOCKED\<rparr>) k;
              k = port_crit_exit B k;
              k = port_pend_context_switch B k;
              (hopped, k) = port_yield_to_scheduler B k
          in (if hopped then Hop else Ret 0, s, k))"

definition hrt_sem_take ::
  "'p env \<Rightarrow> hrt_sem \<Rightarrow> 'p kernel_scheme \<Rightarrow> outcome \<times> hrt_sem \<times> 'p kernel_scheme" where
  "hrt_sem_take B s k =
     (case hrt_sem_try_take B s k of
        (r, s, k) \<Rightarrow> if r = 0 then (Ret 0, s, k) else sem_take_slow B s k)"

definition sem_give_cs ::
  "'p env \<Rightarrow> hrt_sem \<Rightarrow> 'p kernel_scheme \<Rightarrow> bool \<times> hrt_sem \<times> 'p kernel_scheme" where
  "sem_give_cs B s k =
     (case sem_waitq_pop B (s, k) of
        (waiter, s, k) \<Rightarrow>
          if waiter \<ge> 0
          then let k = (if HARDRT_DEBUG B \<and> hrt__tcb B waiter = None then hrt_error ERR_TCB_NULL k else k)
               in (True, s, hrt__make_ready B waiter k)
          else (False, (if sem_count s < sem_max_count s then s\<lparr>sem_count := sem_count s + 1\<rparr> else s), k))"

definition sem_give_common ::
  "'p env \<Rightarrow> bool \<Rightarrow> hrt_sem \<Rightarrow> 'p kernel_scheme \<Rightarrow> (outcome \<times> bool) \<times> hrt_sem \<times> 'p kernel_scheme" where
  "sem_give_common B is_isr s k =
     (let k = port_crit_enter B k;
          (woken, s, k) = sem_give_cs B s k;
          k = port_crit_exit B k
      in if is_isr
         then ((Ret 0, woken), s, if woken then port_pend_context_switch B k else k)
         else if woken
         then (case hrt_yield B k of (hopped, k) \<Rightarrow> ((if hopped then Hop else Ret 0, woken), s, k))
         else ((Ret 0, woken), s, k))"

definition hrt_sem_give ::
  "'p env \<Rightarrow> hrt_sem \<Rightarrow> 'p kernel_scheme \<Rightarrow> outcome \<times> hrt_sem \<times> 'p kernel_scheme" where
  "hrt_sem_give B s k = (case sem_give_common B False s k of ((r, _), s, k) \<Rightarrow> (r, s, k))"

definition hrt_sem_give_from_isr ::
  "'p env \<Rightarrow> hrt_sem \<Rightarrow> 'p kernel_scheme \<Rightarrow> (outcome \<times> bool) \<times> hrt_sem \<times> 'p kernel_scheme" where
  "hrt_sem_give_from_isr B s k = sem_give_common B True s k"

section \<open>Invariant and specification\<close>

definition sem_waiters :: "'p env \<Rightarrow> hrt_sem \<Rightarrow> nat list" where
  "sem_waiters B s = map unat (ring_list (HARDRT_MAX_TASKS B) (sem_q s) (sem_head s) (sem_count_wait s))"

definition sem_shape :: "'p env \<Rightarrow> hrt_sem \<Rightarrow> bool" where
  "sem_shape B s \<longleftrightarrow>
     ring_ok (HARDRT_MAX_TASKS B) (sem_q s) (sem_head s) (sem_tail s) (sem_count_wait s) \<and>
     1 \<le> sem_max_count s \<and> sem_count s \<le> sem_max_count s"

definition sem_wf :: "'p env \<Rightarrow> hrt_sem \<Rightarrow> 'p kernel_scheme \<Rightarrow> bool" where
  "sem_wf B s k \<longleftrightarrow> sem_shape B s \<and> distinct (sem_waiters B s) \<and>
     (\<forall>i \<in> set (sem_waiters B s). i < HARDRT_MAX_TASKS B \<and> state (g_tcbs k ! i) = HRT_BLOCKED) \<and>
     (sem_count s \<noteq> 0 \<longrightarrow> sem_waiters B s = [])"

text \<open>The abstract semaphore: tokens and waiting tasks, oldest first. Taking gives the flag
  whether the caller has the token; giving gives the task that was handed it.\<close>

definition spec_take :: "nat \<Rightarrow> nat \<times> nat list \<Rightarrow> bool \<times> nat \<times> nat list" where
  "spec_take me a = (case a of (n, ws) \<Rightarrow> if n > 0 then (True, n - 1, ws) else (False, n, ws @ [me]))"

definition spec_give :: "nat \<Rightarrow> nat \<times> nat list \<Rightarrow> nat option \<times> nat \<times> nat list" where
  "spec_give mx a =
     (case a of (n, []) \<Rightarrow> (None, min mx (n + 1), []) | (n, w # ws) \<Rightarrow> (Some w, n, ws))"

definition sem_abs :: "'p env \<Rightarrow> hrt_sem \<Rightarrow> nat \<times> nat list" where
  "sem_abs B s = (unat (sem_count s), sem_waiters B s)"

section \<open>The waiter queue\<close>

definition sem_ring :: "'p env \<Rightarrow> hrt_sem \<Rightarrow> bool" where
  "sem_ring B s \<longleftrightarrow> valid_build B \<and>
     ring_ok (HARDRT_MAX_TASKS B) (sem_q s) (sem_head s) (sem_tail s) (sem_count_wait s) \<and>
     (\<forall>i \<in> set (sem_waiters B s). i < HARDRT_MAX_TASKS B)"

lemma length_sem_waiters: "length (sem_waiters B s) = unat (sem_count_wait s)"
  by (simp add: sem_waiters_def)

lemma sem_waiters_upd [simp]: "sem_waiters B (s\<lparr>sem_count := n\<rparr>) = sem_waiters B s"
  by (simp add: sem_waiters_def)

lemma sem_push_room:
  fixes k :: "'p kernel_scheme"
  assumes "sem_ring B s" "i < HARDRT_MAX_TASKS B" "length (sem_waiters B s) < HARDRT_MAX_TASKS B"
  defines "s' \<equiv> fst (sem_waitq_push B (word_of_nat i) (s, k))"
  shows "snd (sem_waitq_push B (word_of_nat i) (s, k)) = k" "sem_ring B s'"
    "sem_waiters B s' = sem_waiters B s @ [i]" "sem_count s' = sem_count s"
    "sem_max_count s' = sem_max_count s"
proof -
  let ?N = "HARDRT_MAX_TASKS B"
  let ?s = "s\<lparr>sem_q := (sem_q s)[unat (sem_tail s) := word_of_nat i],
    sem_tail := next_idx ?N (sem_tail s), sem_count_wait := sem_count_wait s + 1\<rparr>"
  have ok: "ring_ok ?N (sem_q s) (sem_head s) (sem_tail s) (sem_count_wait s)"
    and room: "unat (sem_count_wait s) < ?N" and N: "?N < 256"
    using assms valid_build_bounds by (auto simp: sem_ring_def length_sem_waiters)
  have i: "unat (word_of_nat i :: u8) = i" using assms(2) N by simp
  have eq: "sem_waitq_push B (word_of_nat i) (s, k) = (?s, k)"
    using assms(2) i room by (simp add: sem_waitq_push_def Let_def)
  have w: "sem_waiters B ?s = sem_waiters B s @ [i]"
    using ring_push_list [OF ok room, of "word_of_nat i"] i by (simp add: sem_waiters_def)
  have "sem_ring B ?s"
    using assms(1,2) ring_push_ok [OF ok room, of "word_of_nat i"] w by (auto simp: sem_ring_def)
  with eq w show "snd (sem_waitq_push B (word_of_nat i) (s, k)) = k" "sem_ring B s'"
    "sem_waiters B s' = sem_waiters B s @ [i]" "sem_count s' = sem_count s"
    "sem_max_count s' = sem_max_count s"
    by (simp_all add: s'_def)
qed

lemma sem_push_full:
  assumes "sem_ring B s" "i < HARDRT_MAX_TASKS B" "length (sem_waiters B s) = HARDRT_MAX_TASKS B"
  shows "sem_waitq_push B (word_of_nat i) (s, k) = (s, k)"
  using assms valid_build_bounds(2) [of B]
  by (simp add: sem_waitq_push_def sem_ring_def length_sem_waiters Let_def)

lemma sem_pop_empty: "sem_waiters B s = [] \<Longrightarrow> sem_waitq_pop B (s, k) = (-1, s, k)"
  by (simp add: sem_waitq_pop_def sem_waiters_def)

lemma sem_pop_Cons:
  fixes k :: "'p kernel_scheme"
  assumes "sem_ring B s" "sem_waiters B s = w # ws"
  defines "s' \<equiv> fst (snd (sem_waitq_pop B (s, k)))"
  shows "fst (sem_waitq_pop B (s, k)) = int w" "sem_ring B s'" "sem_waiters B s' = ws"
    "sem_count s' = sem_count s" "sem_max_count s' = sem_max_count s"
    "snd (snd (sem_waitq_pop B (s, k))) = k"
proof -
  let ?N = "HARDRT_MAX_TASKS B"
  let ?s = "s\<lparr>sem_head := next_idx ?N (sem_head s), sem_count_wait := sem_count_wait s - 1\<rparr>"
  have ok: "ring_ok ?N (sem_q s) (sem_head s) (sem_tail s) (sem_count_wait s)"
    using assms(1) by (simp add: sem_ring_def)
  obtain x xs where x: "ring_list ?N (sem_q s) (sem_head s) (sem_count_wait s) = x # xs"
    and w: "unat x = w" "map unat xs = ws"
    using assms(2) by (auto simp: sem_waiters_def map_eq_Cons_conv)
  note hd = ring_list_hd [OF ok x]
  have wi: "uint x = int w" using w(1) by (metis int_nat_eq uint_nat)
  have wN: "w < ?N" using assms by (simp add: sem_ring_def)
  have eq: "sem_waitq_pop B (s, k) = (int w, ?s, k)"
    using hd(1,3) wi wN by (simp add: sem_waitq_pop_def Let_def)
  have ws: "sem_waiters B ?s = ws" using hd(2) w by (simp add: sem_waiters_def)
  have "sem_ring B ?s"
    using assms ring_pop_ok [OF ok hd(3)] ws by (auto simp: sem_ring_def)
  with eq ws show "fst (sem_waitq_pop B (s, k)) = int w" "sem_ring B s'" "sem_waiters B s' = ws"
    "sem_count s' = sem_count s" "sem_max_count s' = sem_max_count s"
    "snd (snd (sem_waitq_pop B (s, k))) = k"
    by (simp_all add: s'_def)
qed

interpretation semq: bounded_fifo "\<lambda>i. sem_waitq_push B (word_of_nat i)" "sem_waitq_pop B" "-1" int
    "\<lambda>sk. sem_ring B (fst sk)" "\<lambda>sk. sem_waiters B (fst sk)" "\<lambda>sk. HARDRT_MAX_TASKS B"
    "\<lambda>i. i < HARDRT_MAX_TASKS B" for B :: "'p env"
proof (unfold_locales, goal_cases)
  case (1 sk i)
  then show ?case by (cases sk) (simp add: sem_push_room(3))
next
  case (2 sk i)
  then show ?case by (cases sk) (simp add: sem_push_full)
next
  case (3 sk i)
  show ?case
  proof (cases "length (sem_waiters B (fst sk)) < HARDRT_MAX_TASKS B")
    case True
    with 3 show ?thesis by (cases sk) (simp add: sem_push_room(2))
  next
    case False
    then have "length (sem_waiters B (fst sk)) = HARDRT_MAX_TASKS B"
      using 3 by (auto simp: sem_ring_def length_sem_waiters dest: ring_ok_count)
    with 3 show ?thesis by (cases sk) (simp add: sem_push_full)
  qed
next
  case (5 sk)
  then show ?case by (cases sk) (simp add: sem_pop_empty)
next
  case (6 sk w ws)
  then show ?case by (cases sk) (simp add: sem_pop_Cons(1))
next
  case (7 sk w ws)
  then show ?case by (cases sk) (simp add: sem_pop_Cons(3))
next
  case (8 sk)
  then show ?case
    by (cases sk; cases "sem_waiters B (fst sk)") (simp_all add: sem_pop_empty sem_pop_Cons(2))
next
  case (10 sk)
  then show ?case by (auto simp: sem_ring_def length_sem_waiters dest: ring_ok_count)
qed simp_all

section \<open>Taking and giving\<close>

lemma sem_wf_ring: "kwf B k \<Longrightarrow> sem_wf B s k \<Longrightarrow> sem_ring B s"
  using kwf_sizes(1) [of B k] by (auto simp: sem_wf_def sem_ring_def sem_shape_def)

lemma sem_wf_tcbs:
  assumes "sem_wf B s k" "\<And>i. i \<in> set (sem_waiters B s) \<Longrightarrow> state (g_tcbs k' ! i) = state (g_tcbs k ! i)"
  shows "sem_wf B s k'"
  using assms by (simp add: sem_wf_def)

lemma sem_wf_room:
  assumes "sem_wf B s k" "c < HARDRT_MAX_TASKS B" "state (g_tcbs k ! c) \<noteq> HRT_BLOCKED"
  shows "length (sem_waiters B s) < HARDRT_MAX_TASKS B"
  using assms by (intro distinct_bounded_length_less [where y = c]) (auto simp: sem_wf_def)

lemma sem_init_wf:
  assumes "valid_build B" "length (sem_q s) = HARDRT_MAX_TASKS B"
  shows "sem_wf B (hrt_sem_init v s) k" "sem_waiters B (hrt_sem_init v s) = []"
    "sem_wf B (hrt_sem_init_counting v m s) k" "sem_waiters B (hrt_sem_init_counting v m s) = []"
proof -
  have w: "sem_waiters B (hrt_sem_init v s) = []" "sem_waiters B (hrt_sem_init_counting v m s) = []"
    by (simp_all add: sem_waiters_def hrt_sem_init_def hrt_sem_init_counting_def Let_def)
  have r: "ring_ok (HARDRT_MAX_TASKS B) (sem_q s) (0 :: u8) 0 0"
    using assms valid_build_bounds [OF assms(1)] by (intro ring_ok_init) simp_all
  show "sem_wf B (hrt_sem_init v s) k"
    using w(1) r by (simp add: sem_wf_def sem_shape_def hrt_sem_init_def)
  have m: "1 \<le> (if m = 0 then 1 else m)" by (simp add: word_le_nat_alt Suc_leI unat_gt_0)
  have "ucast (if v > ucast x then ucast x else v) \<le> x" for x :: u8
  proof (cases "v > ucast x")
    case True
    have "unat x < 256" using unsigned_less [of x] by simp
    then show ?thesis using True by (simp add: word_le_nat_alt unat_ucast_mod)
  next
    case False
    then have "unat v \<le> unat x" by (simp add: not_less word_le_nat_alt unat_ucast_up)
    then show ?thesis using False by (simp add: word_le_nat_alt unat_ucast_mod mod_less_eq_dividend order_trans)
  qed
  then show "sem_wf B (hrt_sem_init_counting v m s) k"
    using w(2) r m by (simp add: sem_wf_def sem_shape_def hrt_sem_init_counting_def Let_def)
  show "sem_waiters B (hrt_sem_init v s) = []" "sem_waiters B (hrt_sem_init_counting v m s) = []"
    by (rule w)+
qed

lemma sem_wf_spend:
  assumes "sem_wf B s k" "sem_count s \<noteq> 0"
  shows "sem_wf B (s\<lparr>sem_count := sem_count s - 1\<rparr>) k"
proof -
  have "sem_count s - 1 \<le> sem_count s" using assms(2) by (simp add: word_le_nat_alt unat_pred_pos)
  with assms show ?thesis by (auto simp: sem_wf_def sem_shape_def)
qed

lemma sem_wf_bank:
  assumes "sem_wf B s k" "sem_waiters B s = []" "sem_count s < sem_max_count s"
  shows "sem_wf B (s\<lparr>sem_count := sem_count s + 1\<rparr>) k" "unat (sem_count s + 1) = unat (sem_count s) + 1"
proof -
  have lt: "unat (sem_count s) < unat (sem_max_count s)" using assms(3) by (simp add: word_less_nat_alt)
  moreover have "unat (sem_max_count s) < 2 ^ LENGTH(8)" by (rule unsigned_less)
  ultimately show u: "unat (sem_count s + 1) = unat (sem_count s) + 1"
    using unat_Suc_bounded [of "sem_count s" "unat (sem_max_count s)"] by simp
  with lt have "sem_count s + 1 \<le> sem_max_count s" by (simp add: word_le_nat_alt)
  with assms show "sem_wf B (s\<lparr>sem_count := sem_count s + 1\<rparr>) k" by (simp add: sem_wf_def sem_shape_def)
qed

lemma give_cs_wakes:
  assumes "kinv B R k" "sem_wf B s k" "sem_waiters B s = w # ws"
  obtains s' where "sem_give_cs B s k = (True, s', hrt__make_ready B (int w) k)"
    "sem_abs B s' = (unat (sem_count s), ws)" "sem_wf B s' (hrt__make_ready B (int w) k)"
    "w < HARDRT_MAX_TASKS B" "state (g_tcbs k ! w) = HRT_BLOCKED" "sem_max_count s' = sem_max_count s"
proof -
  note wf = kinv_kwf [OF assms(1)]
  note pop = sem_pop_Cons [OF sem_wf_ring [OF wf assms(2)] assms(3), of k]
  define s' where "s' = fst (snd (sem_waitq_pop B (s, k)))"
  have eq: "sem_waitq_pop B (s, k) = (int w, s', k)" using pop(1,6) by (simp add: s'_def prod_eq_iff)
  have w: "w < HARDRT_MAX_TASKS B" "state (g_tcbs k ! w) = HRT_BLOCKED" "w \<notin> set ws" "distinct ws"
    "\<And>i. i \<in> set ws \<Longrightarrow> i < HARDRT_MAX_TASKS B \<and> state (g_tcbs k ! i) = HRT_BLOCKED" "sem_count s = 0"
    using assms(2,3) by (auto simp: sem_wf_def)
  note mk = make_ready_wakes(2) [OF assms(1) w(1)]
  have "sem_wf B s' (hrt__make_ready B (int w) k)"
    using assms(2) pop(2-5) w mk by (auto simp: sem_wf_def sem_shape_def sem_ring_def nth_update_if simp flip: s'_def)
  moreover have "sem_give_cs B s k = (True, s', hrt__make_ready B (int w) k)"
    using w(1) by (simp add: sem_give_cs_def eq)
  ultimately show ?thesis using w pop(3-5) by (intro that [of s']) (simp_all add: sem_abs_def s'_def)
qed

lemma give_cs_banks:
  assumes "sem_wf B s k" "sem_waiters B s = []"
  obtains s' where "sem_give_cs B s k = (False, s', k)"
    "sem_abs B s' = (min (unat (sem_max_count s)) (unat (sem_count s) + 1), [])" "sem_wf B s' k"
    "sem_max_count s' = sem_max_count s"
proof (cases "sem_count s < sem_max_count s")
  case True
  then have "unat (sem_count s) < unat (sem_max_count s)" by (simp add: word_less_nat_alt)
  with True assms sem_wf_bank [OF assms True] show ?thesis
    by (intro that [of "s\<lparr>sem_count := sem_count s + 1\<rparr>"])
      (simp_all add: sem_give_cs_def sem_pop_empty sem_abs_def min_def)
next
  case False
  then have "unat (sem_count s) = unat (sem_max_count s)"
    using assms(1) by (simp add: sem_wf_def sem_shape_def word_le_nat_alt word_less_nat_alt)
  with False assms show ?thesis
    by (intro that [of s]) (simp_all add: sem_give_cs_def sem_pop_empty sem_abs_def)
qed

context hrt_port
begin

lemma hook_sem_wf [simp]:
  "sem_wf B s (port_pend_context_switch B k) = sem_wf B s k"
  "sem_wf B s (snd (port_yield_to_scheduler B k)) = sem_wf B s k"
  "sem_wf B s (port_crit_enter B k) = sem_wf B s k" "sem_wf B s (port_crit_exit B k) = sem_wf B s k"
  by (simp_all add: sem_wf_def)

lemma sem_take_token:
  assumes "sem_count s \<noteq> 0"
  shows "hrt_sem_take B s k =
    (Ret 0, s\<lparr>sem_count := sem_count s - 1\<rparr>, port_crit_exit B (port_crit_enter B k))"
  using assms by (simp add: hrt_sem_take_def hrt_sem_try_take_def Let_def)

lemma sem_take_slow_token:
  assumes "sem_count s \<noteq> 0" "g_current k = int c" "c < HARDRT_MAX_TASKS B"
  shows "sem_take_slow B s k =
    (Ret 0, s\<lparr>sem_count := sem_count s - 1\<rparr>, port_crit_exit B (port_crit_enter B k))"
  using assms by (simp add: sem_take_slow_def hrt__get_current_def Let_def)

lemma sem_take_slow_blocks:
  assumes "kinv B {c} k" "g_current k = int c" "c < HARDRT_MAX_TASKS B"
    "state (g_tcbs k ! c) = HRT_READY" "sem_wf B s k" "sem_count s = 0"
  shows "sem_abs B (fst (snd (sem_take_slow B s k))) = (0, sem_waiters B s @ [c])"
    and "sem_wf B (fst (snd (sem_take_slow B s k))) (snd (snd (sem_take_slow B s k)))"
    and "kinv B {} (snd (snd (sem_take_slow B s k)))"
    and "g_tcbs (snd (snd (sem_take_slow B s k))) = (g_tcbs k)[c := (g_tcbs k ! c)\<lparr>state := HRT_BLOCKED\<rparr>]"
    and "rq_list B (snd (snd (sem_take_slow B s k))) = rq_list B k"
    and "g_error (snd (snd (sem_take_slow B s k))) = g_error k"
    and "g_fault (snd (snd (sem_take_slow B s k))) = g_fault k"
    and "fst (sem_take_slow B s k) \<in> {Hop, Ret 0}"
    and "sem_max_count (fst (snd (sem_take_slow B s k))) = sem_max_count s"
proof -
  let ?t = "(g_tcbs k ! c)\<lparr>state := HRT_BLOCKED\<rparr>"
  let ?k = "port_crit_enter B k"
  note sz = kwf_sizes [OF kinv_kwf [OF assms(1)]]
  note ring = sem_wf_ring [OF kinv_kwf [OF assms(1)] assms(5)]
  have room: "length (sem_waiters B s) < HARDRT_MAX_TASKS B"
    using sem_wf_room [OF assms(5,3)] assms(4) by simp
  note push = sem_push_room [OF ring assms(3) room, where k = ?k]
  define s' where "s' = fst (sem_waitq_push B (word_of_nat c) (s, ?k))"
  have pq: "sem_waitq_push B (word_of_nat c) (s, ?k) = (s', ?k)"
    using push(1) by (simp add: s'_def prod_eq_iff)
  have cw: "(word_of_int (int c) :: u8) = word_of_nat c" by simp
  define k' where "k' = port_pend_context_switch B (port_crit_exit B (?k\<lparr>g_tcbs := (g_tcbs k)[c := ?t]\<rparr>))"
  have eq: "sem_take_slow B s k =
      (if fst (port_yield_to_scheduler B k') then Hop else Ret 0, s', snd (port_yield_to_scheduler B k'))"
    using assms(2,3,6) sz by (simp add: sem_take_slow_def hrt__get_current_def Let_def pq k'_def split_beta)
  have nc: "c \<notin> set (sem_waiters B s)" using assms(4,5) by (auto simp: sem_wf_def)
  have w: "sem_waiters B s' = sem_waiters B s @ [c]" "sem_count s' = 0" "sem_max_count s' = sem_max_count s"
    "sem_ring B s'"
    using push(2-5) assms(6) by (simp_all add: s'_def)
  then show "sem_abs B (fst (snd (sem_take_slow B s k))) = (0, sem_waiters B s @ [c])"
    "sem_max_count (fst (snd (sem_take_slow B s k))) = sem_max_count s"
    by (simp_all add: eq sem_abs_def)
  show "sem_wf B (fst (snd (sem_take_slow B s k))) (snd (snd (sem_take_slow B s k)))"
    using assms(3,5) w nc sz
    by (auto simp: eq k'_def sem_wf_def sem_shape_def sem_ring_def nth_update_if)
  show "kinv B {} (snd (snd (sem_take_slow B s k)))"
    "g_tcbs (snd (snd (sem_take_slow B s k))) = (g_tcbs k)[c := ?t]"
    "rq_list B (snd (snd (sem_take_slow B s k))) = rq_list B k"
    "g_error (snd (snd (sem_take_slow B s k))) = g_error k"
    "g_fault (snd (snd (sem_take_slow B s k))) = g_fault k"
    "fst (sem_take_slow B s k) \<in> {Hop, Ret 0}"
    using block_hop [OF assms(1,3,4)] by (simp_all add: eq k'_def parked_def)
qed

lemma sem_take_empty:
  assumes "sem_count s = 0"
  shows "hrt_sem_take B s k = sem_take_slow B s (port_crit_exit B (port_crit_enter B k))"
  using assms by (simp add: hrt_sem_take_def hrt_sem_try_take_def Let_def)

lemma sem_take_blocks:
  assumes "kinv B {c} k" "g_current k = int c" "c < HARDRT_MAX_TASKS B"
    "state (g_tcbs k ! c) = HRT_READY" "sem_wf B s k" "sem_count s = 0"
  shows "sem_abs B (fst (snd (hrt_sem_take B s k))) = (0, sem_waiters B s @ [c])"
    and "sem_wf B (fst (snd (hrt_sem_take B s k))) (snd (snd (hrt_sem_take B s k)))"
    and "kinv B {} (snd (snd (hrt_sem_take B s k)))"
    and "g_tcbs (snd (snd (hrt_sem_take B s k))) = (g_tcbs k)[c := (g_tcbs k ! c)\<lparr>state := HRT_BLOCKED\<rparr>]"
    and "rq_list B (snd (snd (hrt_sem_take B s k))) = rq_list B k"
    and "g_error (snd (snd (hrt_sem_take B s k))) = g_error k"
    and "g_fault (snd (snd (hrt_sem_take B s k))) = g_fault k"
    and "sem_max_count (fst (snd (hrt_sem_take B s k))) = sem_max_count s"
  using sem_take_slow_blocks [of c "port_crit_exit B (port_crit_enter B k)" s] assms
  by (simp_all add: sem_take_empty)

text \<open>Taking is the abstract take, whichever of the two outcomes it has.\<close>

lemma sem_take_refines:
  assumes "kinv B {c} k" "g_current k = int c" "c < HARDRT_MAX_TASKS B"
    "state (g_tcbs k ! c) = HRT_READY" "sem_wf B s k"
  shows "sem_abs B (fst (snd (hrt_sem_take B s k))) = snd (spec_take c (sem_abs B s))"
    and "sem_wf B (fst (snd (hrt_sem_take B s k))) (snd (snd (hrt_sem_take B s k)))"
    and "kinv B (if fst (spec_take c (sem_abs B s)) then {c} else {}) (snd (snd (hrt_sem_take B s k)))"
proof -
  show "sem_abs B (fst (snd (hrt_sem_take B s k))) = snd (spec_take c (sem_abs B s))"
  proof (cases "sem_count s = 0")
    case True
    then show ?thesis using sem_take_blocks(1) [OF assms] by (simp add: spec_take_def sem_abs_def)
  next
    case False
    then show ?thesis by (simp add: sem_take_token spec_take_def sem_abs_def unat_pred_pos unat_gt_0)
  qed
  show "sem_wf B (fst (snd (hrt_sem_take B s k))) (snd (snd (hrt_sem_take B s k)))"
    using sem_take_blocks(2) [OF assms] sem_wf_spend [OF assms(5)]
    by (cases "sem_count s = 0") (simp_all add: sem_take_token)
  show "kinv B (if fst (spec_take c (sem_abs B s)) then {c} else {}) (snd (snd (hrt_sem_take B s k)))"
    using sem_take_blocks(3) [OF assms] assms(1)
    by (cases "sem_count s = 0") (simp_all add: sem_take_token spec_take_def sem_abs_def unat_gt_0)
qed

lemma sem_try_take_cases:
  "hrt_sem_try_take B s k =
     (if sem_count s \<noteq> 0 then (0, s\<lparr>sem_count := sem_count s - 1\<rparr>, port_crit_exit B (port_crit_enter B k))
      else (-1, s, port_crit_exit B (port_crit_enter B k)))"
  by (simp add: hrt_sem_try_take_def Let_def)

text \<open>Giving with a waiter hands the token to the oldest one: it becomes ready with a fresh
  slice, and the count does not change. From a task the giver then yields, so it queues behind
  the woken task when both have the same priority.\<close>

lemma sem_give_isr_wakes:
  assumes "kinv B R k" "sem_wf B s k" "sem_waiters B s = w # ws"
  shows "fst (hrt_sem_give_from_isr B s k) = (Ret 0, True)"
    and "sem_abs B (fst (snd (hrt_sem_give_from_isr B s k))) = (unat (sem_count s), ws)"
    and "sem_wf B (fst (snd (hrt_sem_give_from_isr B s k))) (snd (snd (hrt_sem_give_from_isr B s k)))"
    and "kinv B (R - {w}) (snd (snd (hrt_sem_give_from_isr B s k)))"
    and "g_tcbs (snd (snd (hrt_sem_give_from_isr B s k))) = (g_tcbs k)[w := ready_tcb (g_tcbs k ! w)]"
    and "rq_list B (snd (snd (hrt_sem_give_from_isr B s k))) r =
         rq_list B k r @ (if r = unat (prio (g_tcbs k ! w)) then [w] else [])"
    and "g_error (snd (snd (hrt_sem_give_from_isr B s k))) = g_error k"
    and "g_fault (snd (snd (hrt_sem_give_from_isr B s k))) = g_fault k"
proof -
  let ?k = "port_crit_enter B k"
  have a: "kinv B R ?k" "sem_wf B s ?k" using assms by simp_all
  obtain s' where s': "sem_give_cs B s ?k = (True, s', hrt__make_ready B (int w) ?k)"
    "sem_abs B s' = (unat (sem_count s), ws)" "sem_wf B s' (hrt__make_ready B (int w) ?k)"
    "w < HARDRT_MAX_TASKS B" "state (g_tcbs ?k ! w) = HRT_BLOCKED"
    using give_cs_wakes [OF a assms(3)] by metis
  have wb: "state (g_tcbs k ! w) = HRT_BLOCKED" using s'(5) by simp
  have eq: "hrt_sem_give_from_isr B s k = ((Ret 0, True), s',
      port_pend_context_switch B (port_crit_exit B (hrt__make_ready B (int w) ?k)))"
    by (simp add: hrt_sem_give_from_isr_def sem_give_common_def s'(1) Let_def)
  show "fst (hrt_sem_give_from_isr B s k) = (Ret 0, True)"
    "sem_abs B (fst (snd (hrt_sem_give_from_isr B s k))) = (unat (sem_count s), ws)"
    "sem_wf B (fst (snd (hrt_sem_give_from_isr B s k))) (snd (snd (hrt_sem_give_from_isr B s k)))"
    using s'(2,3) by (simp_all add: eq)
  show "kinv B (R - {w}) (snd (snd (hrt_sem_give_from_isr B s k)))"
    "g_tcbs (snd (snd (hrt_sem_give_from_isr B s k))) = (g_tcbs k)[w := ready_tcb (g_tcbs k ! w)]"
    "rq_list B (snd (snd (hrt_sem_give_from_isr B s k))) r =
         rq_list B k r @ (if r = unat (prio (g_tcbs k ! w)) then [w] else [])"
    "g_error (snd (snd (hrt_sem_give_from_isr B s k))) = g_error k"
    "g_fault (snd (snd (hrt_sem_give_from_isr B s k))) = g_fault k"
    using wake_cs [OF assms(1) s'(4) wb] by (simp_all add: eq woken_def)
qed

lemma sem_give_banks:
  assumes "sem_wf B s k" "sem_waiters B s = []"
  obtains s' where
    "hrt_sem_give_from_isr B s k = ((Ret 0, False), s', port_crit_exit B (port_crit_enter B k))"
    "hrt_sem_give B s k = (Ret 0, s', port_crit_exit B (port_crit_enter B k))"
    "sem_abs B s' = (min (unat (sem_max_count s)) (unat (sem_count s) + 1), [])" "sem_wf B s' k"
proof -
  obtain s' where s': "sem_give_cs B s (port_crit_enter B k) = (False, s', port_crit_enter B k)"
    "sem_abs B s' = (min (unat (sem_max_count s)) (unat (sem_count s) + 1), [])"
    "sem_wf B s' (port_crit_enter B k)"
    using give_cs_banks [of B s "port_crit_enter B k"] assms by auto
  then show ?thesis
    by (intro that [of s'])
      (simp_all add: hrt_sem_give_from_isr_def hrt_sem_give_def sem_give_common_def Let_def)
qed

lemma sem_give_isr_refines:
  assumes "kinv B R k" "sem_wf B s k"
  defines "a \<equiv> spec_give (unat (sem_max_count s)) (sem_abs B s)"
  shows "sem_abs B (fst (snd (hrt_sem_give_from_isr B s k))) = snd a"
    and "sem_wf B (fst (snd (hrt_sem_give_from_isr B s k))) (snd (snd (hrt_sem_give_from_isr B s k)))"
    and "kinv B (R - set_option (fst a)) (snd (snd (hrt_sem_give_from_isr B s k)))"
    and "fst (hrt_sem_give_from_isr B s k) = (Ret 0, fst a \<noteq> None)"
proof -
  have "sem_abs B (fst (snd (hrt_sem_give_from_isr B s k))) = snd a \<and>
    sem_wf B (fst (snd (hrt_sem_give_from_isr B s k))) (snd (snd (hrt_sem_give_from_isr B s k))) \<and>
    kinv B (R - set_option (fst a)) (snd (snd (hrt_sem_give_from_isr B s k))) \<and>
    fst (hrt_sem_give_from_isr B s k) = (Ret 0, fst a \<noteq> None)"
  proof (cases "sem_waiters B s")
    case Nil
    then obtain s' where
      "hrt_sem_give_from_isr B s k = ((Ret 0, False), s', port_crit_exit B (port_crit_enter B k))"
      "sem_abs B s' = (min (unat (sem_max_count s)) (unat (sem_count s) + 1), [])" "sem_wf B s' k"
      using sem_give_banks [OF assms(2)] by metis
    with Nil assms(1) show ?thesis by (simp add: a_def spec_give_def sem_abs_def)
  next
    case (Cons w ws)
    then show ?thesis using sem_give_isr_wakes(1-4) [OF assms(1,2) Cons]
      by (simp add: a_def spec_give_def sem_abs_def)
  qed
  then show "sem_abs B (fst (snd (hrt_sem_give_from_isr B s k))) = snd a"
    "sem_wf B (fst (snd (hrt_sem_give_from_isr B s k))) (snd (snd (hrt_sem_give_from_isr B s k)))"
    "kinv B (R - set_option (fst a)) (snd (snd (hrt_sem_give_from_isr B s k)))"
    "fst (hrt_sem_give_from_isr B s k) = (Ret 0, fst a \<noteq> None)"
    by blast+
qed

lemma sem_give_wakes:
  assumes "kinv B {c} k" "g_current k = int c" "c < HARDRT_MAX_TASKS B"
    "state (g_tcbs k ! c) = HRT_READY" "sem_wf B s k" "sem_waiters B s = w # ws"
  shows "sem_abs B (fst (snd (hrt_sem_give B s k))) = (unat (sem_count s), ws)"
    and "sem_wf B (fst (snd (hrt_sem_give B s k))) (snd (snd (hrt_sem_give B s k)))"
    and "kinv B {} (snd (snd (hrt_sem_give B s k)))"
    and "rq_list B (snd (snd (hrt_sem_give B s k))) r = rq_list B k r @
         (if r = unat (prio (g_tcbs k ! w)) then [w] else []) @
         (if r = unat (prio (g_tcbs k ! c)) then [c] else [])"
    and "g_error (snd (snd (hrt_sem_give B s k))) = g_error k"
    and "g_fault (snd (snd (hrt_sem_give B s k))) = g_fault k"
    and "fst (hrt_sem_give B s k) = (if fst (hrt_yield B (woken B w k)) then Hop else Ret 0)"
    and "g_tcbs (snd (snd (hrt_sem_give B s k))) = (g_tcbs k)[w := ready_tcb (g_tcbs k ! w),
           c := (g_tcbs k ! c)\<lparr>slice_left := timeslice_cfg (g_tcbs k ! c)\<rparr>]"
proof -
  let ?k = "port_crit_enter B k"
  have a: "kinv B {c} ?k" "sem_wf B s ?k" using assms by simp_all
  obtain s' where s': "sem_give_cs B s ?k = (True, s', hrt__make_ready B (int w) ?k)"
    "sem_abs B s' = (unat (sem_count s), ws)" "sem_wf B s' (hrt__make_ready B (int w) ?k)"
    "w < HARDRT_MAX_TASKS B" "state (g_tcbs ?k ! w) = HRT_BLOCKED"
    using give_cs_wakes [OF a assms(6)] by metis
  have wb: "state (g_tcbs k ! w) = HRT_BLOCKED" using s'(5) by simp
  define k1 where "k1 = woken B w k"
  have eq: "hrt_sem_give B s k =
      (if fst (hrt_yield B k1) then Hop else Ret 0, s', snd (hrt_yield B k1))"
    by (simp add: hrt_sem_give_def sem_give_common_def s'(1) Let_def k1_def woken_def split_beta)
  note wy = wake_yield [OF assms(1-4) s'(4) wb, folded k1_def]
  note wk = wake_cs [OF assms(1) s'(4) wb, folded k1_def]
  have sw: "sem_wf B s' k1" using s'(3) by (simp add: k1_def woken_def)
  show "sem_abs B (fst (snd (hrt_sem_give B s k))) = (unat (sem_count s), ws)"
    "fst (hrt_sem_give B s k) = (if fst (hrt_yield B (woken B w k)) then Hop else Ret 0)"
    using s'(2) by (simp_all add: eq k1_def)
  have "w \<noteq> c" using wb assms(4) by auto
  then show "sem_wf B (fst (snd (hrt_sem_give B s k))) (snd (snd (hrt_sem_give B s k)))"
    using sem_wf_tcbs [OF sw, of "snd (hrt_yield B k1)"] by (simp add: eq wy(2) wk(2) nth_update_if)
  show "kinv B {} (snd (snd (hrt_sem_give B s k)))" "g_error (snd (snd (hrt_sem_give B s k))) = g_error k"
    "g_fault (snd (snd (hrt_sem_give B s k))) = g_fault k"
    "rq_list B (snd (snd (hrt_sem_give B s k))) r = rq_list B k r @
         (if r = unat (prio (g_tcbs k ! w)) then [w] else []) @
         (if r = unat (prio (g_tcbs k ! c)) then [c] else [])"
    "g_tcbs (snd (snd (hrt_sem_give B s k))) = (g_tcbs k)[w := ready_tcb (g_tcbs k ! w),
       c := (g_tcbs k ! c)\<lparr>slice_left := timeslice_cfg (g_tcbs k ! c)\<rparr>]"
    using wy by (simp_all add: eq)
qed

end

end
