(* ===== verification/HRT_Mutex.thy ===== *)
theory HRT_Mutex
  imports HRT_Sem
begin

text \<open>
  Mutexes: \<open>inc/hardrt_mutex.h\<close> and \<open>src/core/hardrt_mutex.c\<close>.

  \<open>mutex_lock_slow\<close> is the part of \<open>hrt_mutex_lock\<close> after the failed fast path; it keeps the
  task id \<open>me\<close> read before it. The invariant \<open>mutex_wf\<close> says that an unlocked mutex has neither
  owner nor waiters, and that a locked one has one owner, which is not among the waiters, and
  distinct blocked waiters. The operations refine \<open>spec_lock\<close> / \<open>spec_unlock\<close> over the owner and
  the list of waiters: unlocking hands the mutex to the oldest waiter without releasing it.
\<close>

section \<open>Definitions\<close>

record hrt_mutex =
  locked :: u8
  owner :: "16 word"
  mtx_q :: "u8 list"
  mtx_head :: u8
  mtx_tail :: u8
  mtx_count_wait :: u8

definition HRT_MUTEX_NO_OWNER :: int where
  "HRT_MUTEX_NO_OWNER = -1"

definition hrt_mutex_init :: "hrt_mutex \<Rightarrow> hrt_mutex" where
  "hrt_mutex_init m =
     m\<lparr>locked := 0, owner := word_of_int HRT_MUTEX_NO_OWNER,
       mtx_head := 0, mtx_tail := 0, mtx_count_wait := 0\<rparr>"

definition mutex_waitq_push :: "'p env \<Rightarrow> u8 \<Rightarrow> hrt_mutex \<Rightarrow> hrt_mutex" where
  "mutex_waitq_push B i m =
     (if unat (mtx_count_wait m) \<ge> HARDRT_MAX_TASKS B then m
      else m\<lparr>mtx_q := (mtx_q m)[unat (mtx_tail m) := i],
             mtx_tail := next_idx (HARDRT_MAX_TASKS B) (mtx_tail m),
             mtx_count_wait := mtx_count_wait m + 1\<rparr>)"

definition mutex_waitq_pop :: "'p env \<Rightarrow> hrt_mutex \<Rightarrow> int \<times> hrt_mutex" where
  "mutex_waitq_pop B m =
     (if mtx_count_wait m = 0 then (-1, m)
      else (uint (mtx_q m ! unat (mtx_head m)),
            m\<lparr>mtx_head := next_idx (HARDRT_MAX_TASKS B) (mtx_head m),
              mtx_count_wait := mtx_count_wait m - 1\<rparr>))"

definition hrt_mutex_try_lock ::
  "'p env \<Rightarrow> hrt_mutex \<Rightarrow> 'p kernel_scheme \<Rightarrow> int \<times> hrt_mutex \<times> 'p kernel_scheme" where
  "hrt_mutex_try_lock B m k =
     (let me = hrt__get_current k in
      if me < 0 \<or> me \<ge> int (HARDRT_MAX_TASKS B) then (-1, m, hrt_error ERR_MUTEX_BAD_CTX k)
      else
        let k = port_crit_enter B k in
        if locked m = 0
        then (0, m\<lparr>locked := 1, owner := word_of_int me\<rparr>, port_crit_exit B k)
        else if sint (owner m) = me
        then (-1, m, hrt_error ERR_MUTEX_RECURSIVE (port_crit_exit B k))
        else (-1, m, port_crit_exit B k))"

definition mutex_lock_slow ::
  "'p env \<Rightarrow> int \<Rightarrow> hrt_mutex \<Rightarrow> 'p kernel_scheme \<Rightarrow> outcome \<times> hrt_mutex \<times> 'p kernel_scheme" where
  "mutex_lock_slow B me m k =
     (let k = port_crit_enter B k in
      if locked m = 0
      then (Ret 0, m\<lparr>locked := 1, owner := word_of_int me\<rparr>, port_crit_exit B k)
      else if sint (owner m) = me
      then (Ret (-1), m, hrt_error ERR_MUTEX_RECURSIVE (port_crit_exit B k))
      else
        let m = mutex_waitq_push B (word_of_int me) m;
            t = hrt__tcb B me
        in if t = None then (Ret (-1), m, hrt_error ERR_TCB_NULL (port_crit_exit B k))
           else
             let k = tcb_upd t (\<lambda>u. u\<lparr>state := HRT_BLOCKED\<rparr>) k;
                 k = port_crit_exit B k;
                 k = port_pend_context_switch B k;
                 (hopped, k) = port_yield_to_scheduler B k
             in (if hopped then Hop else Ret 0, m, k))"

definition hrt_mutex_lock ::
  "'p env \<Rightarrow> hrt_mutex \<Rightarrow> 'p kernel_scheme \<Rightarrow> outcome \<times> hrt_mutex \<times> 'p kernel_scheme" where
  "hrt_mutex_lock B m k =
     (let me = hrt__get_current k in
      if me < 0 \<or> me \<ge> int (HARDRT_MAX_TASKS B) then (Ret (-1), m, hrt_error ERR_MUTEX_BAD_CTX k)
      else case hrt_mutex_try_lock B m k of
        (r, m, k) \<Rightarrow> if r = 0 then (Ret 0, m, k) else mutex_lock_slow B me m k)"

definition hrt_mutex_unlock ::
  "'p env \<Rightarrow> hrt_mutex \<Rightarrow> 'p kernel_scheme \<Rightarrow> outcome \<times> hrt_mutex \<times> 'p kernel_scheme" where
  "hrt_mutex_unlock B m k =
     (let me = hrt__get_current k in
      if me < 0 \<or> me \<ge> int (HARDRT_MAX_TASKS B) then (Ret (-1), m, hrt_error ERR_MUTEX_BAD_CTX k)
      else
        let k = port_crit_enter B k in
        if locked m = 0 \<or> sint (owner m) \<noteq> me
        then (Ret (-1), m, hrt_error ERR_MUTEX_OWNER (port_crit_exit B k))
        else case mutex_waitq_pop B m of
          (waiter, m) \<Rightarrow>
            if waiter \<ge> 0
            then
              let m = m\<lparr>locked := 1, owner := word_of_int waiter\<rparr>;
                  k = hrt__make_ready B waiter k;
                  k = port_crit_exit B k;
                  (hopped, k) = hrt_yield B k
              in (if hopped then Hop else Ret 0, m, k)
            else (Ret 0, m\<lparr>locked := 0, owner := word_of_int HRT_MUTEX_NO_OWNER\<rparr>, port_crit_exit B k))"

section \<open>Invariant and specification\<close>

definition mutex_waiters :: "'p env \<Rightarrow> hrt_mutex \<Rightarrow> nat list" where
  "mutex_waiters B m =
     map unat (ring_list (HARDRT_MAX_TASKS B) (mtx_q m) (mtx_head m) (mtx_count_wait m))"

definition mutex_ring :: "'p env \<Rightarrow> hrt_mutex \<Rightarrow> bool" where
  "mutex_ring B m \<longleftrightarrow> valid_build B \<and>
     ring_ok (HARDRT_MAX_TASKS B) (mtx_q m) (mtx_head m) (mtx_tail m) (mtx_count_wait m) \<and>
     (\<forall>i \<in> set (mutex_waiters B m). i < HARDRT_MAX_TASKS B)"

definition mutex_owner :: "hrt_mutex \<Rightarrow> nat option" where
  "mutex_owner m = (if locked m = 0 then None else Some (nat (sint (owner m))))"

definition mutex_wf :: "'p env \<Rightarrow> hrt_mutex \<Rightarrow> 'p kernel_scheme \<Rightarrow> bool" where
  "mutex_wf B m k \<longleftrightarrow> mutex_ring B m \<and> distinct (mutex_waiters B m) \<and>
     (\<forall>i \<in> set (mutex_waiters B m). state (g_tcbs k ! i) = HRT_BLOCKED) \<and>
     (if locked m = 0 then owner m = -1 \<and> mutex_waiters B m = []
      else 0 \<le> sint (owner m) \<and> sint (owner m) < int (HARDRT_MAX_TASKS B) \<and>
           nat (sint (owner m)) \<notin> set (mutex_waiters B m))"

datatype lock_result = Acquired | Queued | Refused

definition spec_lock :: "nat \<Rightarrow> nat option \<times> nat list \<Rightarrow> lock_result \<times> nat option \<times> nat list" where
  "spec_lock me a =
     (case a of (None, ws) \<Rightarrow> (Acquired, Some me, ws)
              | (Some x, ws) \<Rightarrow> if x = me then (Refused, Some x, ws) else (Queued, Some x, ws @ [me]))"

definition spec_unlock :: "nat \<Rightarrow> nat option \<times> nat list \<Rightarrow> bool \<times> nat option \<times> nat list" where
  "spec_unlock me a =
     (case a of (x, ws) \<Rightarrow>
        if x \<noteq> Some me then (False, x, ws)
        else case ws of [] \<Rightarrow> (True, None, []) | w # ws \<Rightarrow> (True, Some w, ws))"

definition mutex_abs :: "'p env \<Rightarrow> hrt_mutex \<Rightarrow> nat option \<times> nat list" where
  "mutex_abs B m = (mutex_owner m, mutex_waiters B m)"

section \<open>The waiter queue\<close>

lemma sint_i16_small [simp]: "i < 256 \<Longrightarrow> sint (word_of_nat i :: 16 word) = int i"
  by (simp add: signed_of_nat signed_take_bit_int_eq_self)

lemma length_mutex_waiters: "length (mutex_waiters B m) = unat (mtx_count_wait m)"
  by (simp add: mutex_waiters_def)

lemma mutex_waiters_upd [simp]:
  "mutex_waiters B (m\<lparr>locked := l, owner := x\<rparr>) = mutex_waiters B m"
  "mutex_ring B (m\<lparr>locked := l, owner := x\<rparr>) = mutex_ring B m"
  by (simp_all add: mutex_waiters_def mutex_ring_def)

lemma mutex_push_room:
  assumes "mutex_ring B m" "i < HARDRT_MAX_TASKS B" "length (mutex_waiters B m) < HARDRT_MAX_TASKS B"
  defines "m' \<equiv> mutex_waitq_push B (word_of_nat i) m"
  shows "mutex_ring B m'" "mutex_waiters B m' = mutex_waiters B m @ [i]"
    "locked m' = locked m" "owner m' = owner m"
proof -
  let ?N = "HARDRT_MAX_TASKS B"
  let ?m = "m\<lparr>mtx_q := (mtx_q m)[unat (mtx_tail m) := word_of_nat i],
    mtx_tail := next_idx ?N (mtx_tail m), mtx_count_wait := mtx_count_wait m + 1\<rparr>"
  have ok: "ring_ok ?N (mtx_q m) (mtx_head m) (mtx_tail m) (mtx_count_wait m)"
    and room: "unat (mtx_count_wait m) < ?N" and N: "?N < 256"
    using assms valid_build_bounds by (auto simp: mutex_ring_def length_mutex_waiters)
  have i: "unat (word_of_nat i :: u8) = i" using assms(2) N by simp
  have eq: "m' = ?m" using room by (simp add: m'_def mutex_waitq_push_def)
  show w: "mutex_waiters B m' = mutex_waiters B m @ [i]"
    using ring_push_list [OF ok room, of "word_of_nat i"] i by (simp add: eq mutex_waiters_def)
  show "mutex_ring B m'"
    using assms(1,2) ring_push_ok [OF ok room, of "word_of_nat i"] w by (auto simp: mutex_ring_def eq)
  show "locked m' = locked m" "owner m' = owner m" by (simp_all add: eq)
qed

lemma mutex_push_full:
  assumes "length (mutex_waiters B m) = HARDRT_MAX_TASKS B"
  shows "mutex_waitq_push B i m = m"
  using assms by (simp add: mutex_waitq_push_def length_mutex_waiters)

lemma mutex_pop_empty: "mutex_waiters B m = [] \<Longrightarrow> mutex_waitq_pop B m = (-1, m)"
  by (simp add: mutex_waitq_pop_def mutex_waiters_def)

lemma mutex_pop_Cons:
  assumes "mutex_ring B m" "mutex_waiters B m = w # ws"
  defines "m' \<equiv> snd (mutex_waitq_pop B m)"
  shows "fst (mutex_waitq_pop B m) = int w" "mutex_ring B m'" "mutex_waiters B m' = ws"
proof -
  let ?N = "HARDRT_MAX_TASKS B"
  let ?m = "m\<lparr>mtx_head := next_idx ?N (mtx_head m), mtx_count_wait := mtx_count_wait m - 1\<rparr>"
  have ok: "ring_ok ?N (mtx_q m) (mtx_head m) (mtx_tail m) (mtx_count_wait m)"
    using assms(1) by (simp add: mutex_ring_def)
  obtain x xs where x: "ring_list ?N (mtx_q m) (mtx_head m) (mtx_count_wait m) = x # xs"
    and w: "unat x = w" "map unat xs = ws"
    using assms(2) by (auto simp: mutex_waiters_def map_eq_Cons_conv)
  note hd = ring_list_hd [OF ok x]
  have wi: "uint x = int w" using w(1) by (metis int_nat_eq uint_nat)
  have eq: "mutex_waitq_pop B m = (int w, ?m)"
    using hd(1,3) wi by (simp add: mutex_waitq_pop_def)
  then show "fst (mutex_waitq_pop B m) = int w" by simp
  show ws: "mutex_waiters B m' = ws" using hd(2) w by (simp add: m'_def eq mutex_waiters_def)
  show "mutex_ring B m'"
    using assms(1,2) ring_pop_ok [OF ok hd(3)] ws by (auto simp: mutex_ring_def m'_def eq)
qed

interpretation mtxq: bounded_fifo "\<lambda>i. mutex_waitq_push B (word_of_nat i)" "mutex_waitq_pop B" "-1" int
    "mutex_ring B" "mutex_waiters B" "\<lambda>m. HARDRT_MAX_TASKS B" "\<lambda>i. i < HARDRT_MAX_TASKS B"
  for B :: "'p env"
proof (unfold_locales, goal_cases)
  case (3 m i)
  show ?case
  proof (cases "length (mutex_waiters B m) < HARDRT_MAX_TASKS B")
    case True
    with 3 show ?thesis by (simp add: mutex_push_room(1))
  next
    case False
    then have "length (mutex_waiters B m) = HARDRT_MAX_TASKS B"
      using 3 by (auto simp: mutex_ring_def length_mutex_waiters dest: ring_ok_count)
    with 3 show ?thesis by (simp add: mutex_push_full)
  qed
next
  case (8 m)
  then show ?case
    by (cases "mutex_waiters B m") (simp_all add: mutex_pop_empty mutex_pop_Cons(2))
next
  case (10 m)
  then show ?case by (auto simp: mutex_ring_def length_mutex_waiters dest: ring_ok_count)
qed (simp_all add: mutex_push_room(2) mutex_push_full mutex_pop_empty mutex_pop_Cons(1,3))

section \<open>Locking and unlocking\<close>

lemma mutex_wf_ring: "mutex_wf B m k \<Longrightarrow> mutex_ring B m"
  by (simp add: mutex_wf_def)

lemma mutex_wf_tcbs:
  assumes "mutex_wf B m k" "\<And>i. i \<in> set (mutex_waiters B m) \<Longrightarrow> state (g_tcbs k' ! i) = state (g_tcbs k ! i)"
  shows "mutex_wf B m k'"
  using assms by (auto simp: mutex_wf_def)

lemma mutex_init_wf:
  assumes "valid_build B" "length (mtx_q m) = HARDRT_MAX_TASKS B"
  shows "mutex_wf B (hrt_mutex_init m) k" "mutex_abs B (hrt_mutex_init m) = (None, [])"
proof -
  have "mutex_waiters B (hrt_mutex_init m) = []" by (simp add: mutex_waiters_def hrt_mutex_init_def)
  moreover have "ring_ok (HARDRT_MAX_TASKS B) (mtx_q m) (0 :: u8) 0 0"
    using assms valid_build_bounds [OF assms(1)] by (intro ring_ok_init) simp_all
  ultimately show "mutex_wf B (hrt_mutex_init m) k" "mutex_abs B (hrt_mutex_init m) = (None, [])"
    using assms by (simp_all add: mutex_wf_def mutex_ring_def hrt_mutex_init_def HRT_MUTEX_NO_OWNER_def
        mutex_abs_def mutex_owner_def)
qed

lemma mutex_wf_own:
  assumes "mutex_wf B m k" "mutex_waiters B m = []" "c < HARDRT_MAX_TASKS B"
  shows "mutex_wf B (m\<lparr>locked := 1, owner := word_of_nat c\<rparr>) k"
    "mutex_abs B (m\<lparr>locked := 1, owner := word_of_nat c\<rparr>) = (Some c, [])"
  using assms valid_build_bounds(2) [of B]
  by (auto simp: mutex_wf_def mutex_abs_def mutex_owner_def mutex_ring_def)

lemma mutex_wf_release:
  assumes "mutex_wf B m k" "mutex_waiters B m = []"
  shows "mutex_wf B (m\<lparr>locked := 0, owner := - 1\<rparr>) k"
    "mutex_abs B (m\<lparr>locked := 0, owner := - 1\<rparr>) = (None, [])"
  using assms by (auto simp: mutex_wf_def mutex_abs_def mutex_owner_def)

lemma mutex_owner_eq:
  assumes "mutex_wf B m k" "locked m \<noteq> 0"
  shows "sint (owner m) = int c \<longleftrightarrow> mutex_owner m = Some c"
  using assms by (auto simp: mutex_wf_def mutex_owner_def)

context hrt_port
begin

lemma hook_mutex_wf [simp]:
  "mutex_wf B m (port_pend_context_switch B k) = mutex_wf B m k"
  "mutex_wf B m (snd (port_yield_to_scheduler B k)) = mutex_wf B m k"
  "mutex_wf B m (port_crit_enter B k) = mutex_wf B m k" "mutex_wf B m (port_crit_exit B k) = mutex_wf B m k"
  by (simp_all add: mutex_wf_def)

lemma mutex_bad_ctx:
  assumes "g_current k < 0 \<or> g_current k \<ge> int (HARDRT_MAX_TASKS B)"
  shows "hrt_mutex_try_lock B m k = (-1, m, hrt_error ERR_MUTEX_BAD_CTX k)"
    "hrt_mutex_lock B m k = (Ret (-1), m, hrt_error ERR_MUTEX_BAD_CTX k)"
    "hrt_mutex_unlock B m k = (Ret (-1), m, hrt_error ERR_MUTEX_BAD_CTX k)"
  using assms
  by (simp_all add: hrt_mutex_try_lock_def hrt_mutex_lock_def hrt_mutex_unlock_def hrt__get_current_def Let_def)

lemma mutex_lock_free:
  assumes "locked m = 0" "g_current k = int c" "c < HARDRT_MAX_TASKS B"
  shows "hrt_mutex_lock B m k =
    (Ret 0, m\<lparr>locked := 1, owner := word_of_nat c\<rparr>, port_crit_exit B (port_crit_enter B k))"
    "hrt_mutex_try_lock B m k =
    (0, m\<lparr>locked := 1, owner := word_of_nat c\<rparr>, port_crit_exit B (port_crit_enter B k))"
  using assms by (simp_all add: hrt_mutex_lock_def hrt_mutex_try_lock_def hrt__get_current_def Let_def)

lemma mutex_lock_recursive:
  assumes "locked m \<noteq> 0" "g_current k = int c" "c < HARDRT_MAX_TASKS B" "sint (owner m) = int c"
  shows "hrt_mutex_lock B m k = (Ret (-1), m, hrt_error ERR_MUTEX_RECURSIVE
     (port_crit_exit B (port_crit_enter B (hrt_error ERR_MUTEX_RECURSIVE (port_crit_exit B (port_crit_enter B k))))))"
    "hrt_mutex_try_lock B m k = (-1, m, hrt_error ERR_MUTEX_RECURSIVE (port_crit_exit B (port_crit_enter B k)))"
  using assms
  by (simp_all add: hrt_mutex_lock_def hrt_mutex_try_lock_def mutex_lock_slow_def hrt__get_current_def Let_def)

lemma mutex_try_lock_busy:
  assumes "locked m \<noteq> 0" "g_current k = int c" "c < HARDRT_MAX_TASKS B" "sint (owner m) \<noteq> int c"
  shows "hrt_mutex_try_lock B m k = (-1, m, port_crit_exit B (port_crit_enter B k))"
  using assms by (simp add: hrt_mutex_try_lock_def hrt__get_current_def Let_def)

lemma mutex_slow_blocks:
  assumes "kinv B {c} k" "c < HARDRT_MAX_TASKS B" "state (g_tcbs k ! c) = HRT_READY"
    "mutex_wf B m k" "locked m \<noteq> 0" "sint (owner m) \<noteq> int c"
  shows "mutex_abs B (fst (snd (mutex_lock_slow B (int c) m k))) = (mutex_owner m, mutex_waiters B m @ [c])"
    and "mutex_wf B (fst (snd (mutex_lock_slow B (int c) m k))) (snd (snd (mutex_lock_slow B (int c) m k)))"
    and "kinv B {} (snd (snd (mutex_lock_slow B (int c) m k)))"
    and "g_tcbs (snd (snd (mutex_lock_slow B (int c) m k))) =
         (g_tcbs k)[c := (g_tcbs k ! c)\<lparr>state := HRT_BLOCKED\<rparr>]"
    and "rq_list B (snd (snd (mutex_lock_slow B (int c) m k))) = rq_list B k"
    and "g_error (snd (snd (mutex_lock_slow B (int c) m k))) = g_error k"
    and "g_fault (snd (snd (mutex_lock_slow B (int c) m k))) = g_fault k"
    and "fst (mutex_lock_slow B (int c) m k) \<in> {Hop, Ret 0}"
proof -
  let ?t = "(g_tcbs k ! c)\<lparr>state := HRT_BLOCKED\<rparr>"
  note sz = kwf_sizes [OF kinv_kwf [OF assms(1)]]
  note ring = mutex_wf_ring [OF assms(4)]
  have nc: "c \<notin> set (mutex_waiters B m)" using assms(3,4) by (auto simp: mutex_wf_def)
  have room: "length (mutex_waiters B m) < HARDRT_MAX_TASKS B"
    using assms(2,4) nc by (intro distinct_bounded_length_less [where y = c]) (auto simp: mutex_wf_def mutex_ring_def)
  note push = mutex_push_room [OF ring assms(2) room]
  define m' where "m' = mutex_waitq_push B (word_of_nat c) m"
  note push = push [folded m'_def]
  define k' where "k' = port_pend_context_switch B (port_crit_exit B ((port_crit_enter B k)\<lparr>g_tcbs := (g_tcbs k)[c := ?t]\<rparr>))"
  have eq: "mutex_lock_slow B (int c) m k =
      (if fst (port_yield_to_scheduler B k') then Hop else Ret 0, m', snd (port_yield_to_scheduler B k'))"
    using assms(2,5,6) sz by (simp add: mutex_lock_slow_def Let_def m'_def k'_def split_beta)
  show "mutex_abs B (fst (snd (mutex_lock_slow B (int c) m k))) = (mutex_owner m, mutex_waiters B m @ [c])"
    using push by (simp add: eq mutex_abs_def mutex_owner_def)
  show "mutex_wf B (fst (snd (mutex_lock_slow B (int c) m k))) (snd (snd (mutex_lock_slow B (int c) m k)))"
    using assms(2,4-6) push nc sz by (auto simp: eq k'_def mutex_wf_def nth_update_if)
  show "kinv B {} (snd (snd (mutex_lock_slow B (int c) m k)))"
    "g_tcbs (snd (snd (mutex_lock_slow B (int c) m k))) = (g_tcbs k)[c := ?t]"
    "rq_list B (snd (snd (mutex_lock_slow B (int c) m k))) = rq_list B k"
    "g_error (snd (snd (mutex_lock_slow B (int c) m k))) = g_error k"
    "g_fault (snd (snd (mutex_lock_slow B (int c) m k))) = g_fault k"
    "fst (mutex_lock_slow B (int c) m k) \<in> {Hop, Ret 0}"
    using block_hop [OF assms(1-3)] by (simp_all add: eq k'_def parked_def)
qed

lemma mutex_lock_busy:
  assumes "locked m \<noteq> 0" "g_current k = int c" "c < HARDRT_MAX_TASKS B" "sint (owner m) \<noteq> int c"
  shows "hrt_mutex_lock B m k = mutex_lock_slow B (int c) m (port_crit_exit B (port_crit_enter B k))"
  using assms mutex_try_lock_busy [OF assms] by (simp add: hrt_mutex_lock_def hrt__get_current_def Let_def)

lemma mutex_lock_refines:
  assumes "kinv B {c} k" "g_current k = int c" "c < HARDRT_MAX_TASKS B"
    "state (g_tcbs k ! c) = HRT_READY" "mutex_wf B m k"
  defines "a \<equiv> spec_lock c (mutex_abs B m)"
  shows "mutex_abs B (fst (snd (hrt_mutex_lock B m k))) = snd a"
    and "mutex_wf B (fst (snd (hrt_mutex_lock B m k))) (snd (snd (hrt_mutex_lock B m k)))"
    and "kinv B (if fst a = Queued then {} else {c}) (snd (snd (hrt_mutex_lock B m k)))"
    and "fst a = Refused \<longleftrightarrow> fst (hrt_mutex_lock B m k) = Ret (-1)"
    and "fst a = Acquired \<Longrightarrow> fst (hrt_mutex_lock B m k) = Ret 0"
    and "fst a = Queued \<Longrightarrow> state (g_tcbs (snd (snd (hrt_mutex_lock B m k))) ! c) = HRT_BLOCKED"
proof -
  note sz = kwf_sizes [OF kinv_kwf [OF assms(1)]]
  have "mutex_abs B (fst (snd (hrt_mutex_lock B m k))) = snd a \<and>
    mutex_wf B (fst (snd (hrt_mutex_lock B m k))) (snd (snd (hrt_mutex_lock B m k))) \<and>
    kinv B (if fst a = Queued then {} else {c}) (snd (snd (hrt_mutex_lock B m k))) \<and>
    (fst a = Refused \<longleftrightarrow> fst (hrt_mutex_lock B m k) = Ret (-1)) \<and>
    (fst a = Acquired \<longrightarrow> fst (hrt_mutex_lock B m k) = Ret 0) \<and>
    (fst a = Queued \<longrightarrow> state (g_tcbs (snd (snd (hrt_mutex_lock B m k))) ! c) = HRT_BLOCKED)"
  proof (cases "locked m = 0")
    case True
    then have w: "mutex_waiters B m = []" using assms(5) by (simp add: mutex_wf_def)
    then have "a = (Acquired, Some c, [])" using True by (simp add: a_def spec_lock_def mutex_abs_def mutex_owner_def)
    then show ?thesis
      using mutex_wf_own [OF assms(5) w assms(3)] mutex_lock_free [OF True assms(2,3)] assms(1) by simp
  next
    case l: False
    show ?thesis
    proof (cases "sint (owner m) = int c")
      case True
      then have "a = (Refused, mutex_abs B m)"
        using mutex_owner_eq [OF assms(5) l] by (simp add: a_def spec_lock_def mutex_abs_def)
      then show ?thesis using mutex_lock_recursive [OF l assms(2,3) True] assms(1,5)
        by (simp add: mutex_wf_def)
    next
      case False
      let ?k = "port_crit_exit B (port_crit_enter B k)"
      have a: "a = (Queued, mutex_owner m, mutex_waiters B m @ [c])"
        using mutex_owner_eq [OF assms(5) l, of c] False l
        by (auto simp: a_def spec_lock_def mutex_abs_def mutex_owner_def)
      have "kinv B {c} ?k" "state (g_tcbs ?k ! c) = HRT_READY" "mutex_wf B m ?k" using assms by simp_all
      from mutex_slow_blocks [OF this(1) assms(3) this(2,3) l False] a sz assms(3)
      show ?thesis unfolding mutex_lock_busy [OF l assms(2,3) False] by auto
    qed
  qed
  then show "mutex_abs B (fst (snd (hrt_mutex_lock B m k))) = snd a"
    "mutex_wf B (fst (snd (hrt_mutex_lock B m k))) (snd (snd (hrt_mutex_lock B m k)))"
    "kinv B (if fst a = Queued then {} else {c}) (snd (snd (hrt_mutex_lock B m k)))"
    "fst a = Refused \<longleftrightarrow> fst (hrt_mutex_lock B m k) = Ret (-1)"
    "fst a = Acquired \<Longrightarrow> fst (hrt_mutex_lock B m k) = Ret 0"
    "fst a = Queued \<Longrightarrow> state (g_tcbs (snd (snd (hrt_mutex_lock B m k))) ! c) = HRT_BLOCKED"
    by blast+
qed

lemma mutex_unlock_refused:
  assumes "g_current k = int c" "c < HARDRT_MAX_TASKS B" "mutex_wf B m k" "mutex_owner m \<noteq> Some c"
  shows "hrt_mutex_unlock B m k =
    (Ret (-1), m, hrt_error ERR_MUTEX_OWNER (port_crit_exit B (port_crit_enter B k)))"
  using assms mutex_owner_eq [OF assms(3), of c]
  by (auto simp: hrt_mutex_unlock_def hrt__get_current_def Let_def)

lemma mutex_unlock_free:
  assumes "g_current k = int c" "c < HARDRT_MAX_TASKS B" "mutex_wf B m k" "mutex_owner m = Some c"
    "mutex_waiters B m = []"
  shows "hrt_mutex_unlock B m k =
    (Ret 0, m\<lparr>locked := 0, owner := -1\<rparr>, port_crit_exit B (port_crit_enter B k))"
proof -
  have l: "locked m \<noteq> 0" using assms(4) by (auto simp: mutex_owner_def)
  with mutex_owner_eq [OF assms(3) l, of c] assms(4) have "sint (owner m) = int c" by simp
  with l assms(1,2) show ?thesis
    by (simp add: hrt_mutex_unlock_def hrt__get_current_def Let_def mutex_pop_empty [OF assms(5)]
        HRT_MUTEX_NO_OWNER_def)
qed

lemma mutex_unlock_handoff:
  assumes "kinv B {c} k" "g_current k = int c" "c < HARDRT_MAX_TASKS B"
    "state (g_tcbs k ! c) = HRT_READY" "mutex_wf B m k" "mutex_owner m = Some c"
    "mutex_waiters B m = w # ws"
  shows "mutex_abs B (fst (snd (hrt_mutex_unlock B m k))) = (Some w, ws)"
    and "mutex_wf B (fst (snd (hrt_mutex_unlock B m k))) (snd (snd (hrt_mutex_unlock B m k)))"
    and "kinv B {} (snd (snd (hrt_mutex_unlock B m k)))"
    and "state (g_tcbs (snd (snd (hrt_mutex_unlock B m k))) ! w) = HRT_READY"
    and "rq_list B (snd (snd (hrt_mutex_unlock B m k))) r = rq_list B k r @
         (if r = unat (prio (g_tcbs k ! w)) then [w] else []) @
         (if r = unat (prio (g_tcbs k ! c)) then [c] else [])"
    and "g_error (snd (snd (hrt_mutex_unlock B m k))) = g_error k"
    and "g_fault (snd (snd (hrt_mutex_unlock B m k))) = g_fault k"
    and "fst (hrt_mutex_unlock B m k) = (if fst (hrt_yield B (woken B w k)) then Hop else Ret 0)"
    and "g_tcbs (snd (snd (hrt_mutex_unlock B m k))) = (g_tcbs k)[w := ready_tcb (g_tcbs k ! w),
           c := (g_tcbs k ! c)\<lparr>slice_left := timeslice_cfg (g_tcbs k ! c)\<rparr>]"
proof -
  note sz = kwf_sizes [OF kinv_kwf [OF assms(1)]]
  have l: "locked m \<noteq> 0" using assms(6) by (auto simp: mutex_owner_def)
  have own: "sint (owner m) = int c" using mutex_owner_eq [OF assms(5) l] assms(6) by simp
  note pop = mutex_pop_Cons [OF mutex_wf_ring [OF assms(5)] assms(7)]
  define m' where "m' = snd (mutex_waitq_pop B m)"
  have pq: "mutex_waitq_pop B m = (int w, m')" using pop(1) by (simp add: m'_def prod_eq_iff)
  have w: "w < HARDRT_MAX_TASKS B" "state (g_tcbs k ! w) = HRT_BLOCKED" "w \<notin> set ws" "distinct ws"
    "c \<notin> set ws" "\<And>i. i \<in> set ws \<Longrightarrow> state (g_tcbs k ! i) = HRT_BLOCKED" "w \<noteq> c"
    using assms(4,5,7) l own by (auto simp: mutex_wf_def mutex_ring_def)
  let ?m = "m'\<lparr>locked := 1, owner := word_of_nat w\<rparr>"
  define k1 where "k1 = woken B w k"
  have eq: "hrt_mutex_unlock B m k =
      (if fst (hrt_yield B k1) then Hop else Ret 0, ?m, snd (hrt_yield B k1))"
    using assms(2,3) l own
    by (simp add: hrt_mutex_unlock_def hrt__get_current_def Let_def pq k1_def woken_def split_beta)
  note wy = wake_yield [OF assms(1-4) w(1,2), folded k1_def]
  have N: "w < 256" using w(1) valid_build_bounds(2) [OF sz(1)] by simp
  show "mutex_abs B (fst (snd (hrt_mutex_unlock B m k))) = (Some w, ws)"
    using pop(3) N by (simp add: eq mutex_abs_def mutex_owner_def m'_def)
  show "mutex_wf B (fst (snd (hrt_mutex_unlock B m k))) (snd (snd (hrt_mutex_unlock B m k)))"
    using pop(2,3) N w by (simp add: eq mutex_wf_def m'_def wy(2) nth_update_if)
  show "state (g_tcbs (snd (snd (hrt_mutex_unlock B m k))) ! w) = HRT_READY"
    using w sz by (simp add: eq wy(2) nth_update_if)
  show "kinv B {} (snd (snd (hrt_mutex_unlock B m k)))"
    "rq_list B (snd (snd (hrt_mutex_unlock B m k))) r = rq_list B k r @
         (if r = unat (prio (g_tcbs k ! w)) then [w] else []) @
         (if r = unat (prio (g_tcbs k ! c)) then [c] else [])"
    "g_error (snd (snd (hrt_mutex_unlock B m k))) = g_error k"
    "g_fault (snd (snd (hrt_mutex_unlock B m k))) = g_fault k"
    "fst (hrt_mutex_unlock B m k) = (if fst (hrt_yield B (woken B w k)) then Hop else Ret 0)"
    "g_tcbs (snd (snd (hrt_mutex_unlock B m k))) = (g_tcbs k)[w := ready_tcb (g_tcbs k ! w),
       c := (g_tcbs k ! c)\<lparr>slice_left := timeslice_cfg (g_tcbs k ! c)\<rparr>]"
    using wy by (simp_all add: eq k1_def)
qed

lemma mutex_unlock_refines:
  assumes "kinv B {c} k" "g_current k = int c" "c < HARDRT_MAX_TASKS B"
    "state (g_tcbs k ! c) = HRT_READY" "mutex_wf B m k"
  defines "a \<equiv> spec_unlock c (mutex_abs B m)"
  shows "mutex_abs B (fst (snd (hrt_mutex_unlock B m k))) = snd a"
    and "mutex_wf B (fst (snd (hrt_mutex_unlock B m k))) (snd (snd (hrt_mutex_unlock B m k)))"
    and "kinv B (if fst a \<and> fst (snd a) \<noteq> None then {} else {c}) (snd (snd (hrt_mutex_unlock B m k)))"
    and "fst a \<longleftrightarrow> fst (hrt_mutex_unlock B m k) \<noteq> Ret (-1)"
proof -
  have "mutex_abs B (fst (snd (hrt_mutex_unlock B m k))) = snd a \<and>
    mutex_wf B (fst (snd (hrt_mutex_unlock B m k))) (snd (snd (hrt_mutex_unlock B m k))) \<and>
    kinv B (if fst a \<and> fst (snd a) \<noteq> None then {} else {c}) (snd (snd (hrt_mutex_unlock B m k))) \<and>
    (fst a \<longleftrightarrow> fst (hrt_mutex_unlock B m k) \<noteq> Ret (-1))"
  proof (cases "mutex_owner m = Some c")
    case False
    then show ?thesis using mutex_unlock_refused [OF assms(2,3,5) False] assms(1,5)
      by (simp add: a_def spec_unlock_def mutex_abs_def mutex_wf_def)
  next
    case own: True
    show ?thesis
    proof (cases "mutex_waiters B m")
      case Nil
      then show ?thesis
        using mutex_unlock_free [OF assms(2,3,5) own Nil] mutex_wf_release [OF assms(5) Nil] own assms(1)
        by (simp add: a_def spec_unlock_def mutex_abs_def)
    next
      case (Cons w ws)
      then show ?thesis using mutex_unlock_handoff(1-3,8) [OF assms(1-5) own Cons] own
        by (auto simp: a_def spec_unlock_def mutex_abs_def)
    qed
  qed
  then show "mutex_abs B (fst (snd (hrt_mutex_unlock B m k))) = snd a"
    "mutex_wf B (fst (snd (hrt_mutex_unlock B m k))) (snd (snd (hrt_mutex_unlock B m k)))"
    "kinv B (if fst a \<and> fst (snd a) \<noteq> None then {} else {c}) (snd (snd (hrt_mutex_unlock B m k)))"
    "fst a \<longleftrightarrow> fst (hrt_mutex_unlock B m k) \<noteq> Ret (-1)"
    by blast+
qed

end

end
