(* ===== verification/HRT_Port_Null.thy ===== *)
theory HRT_Port_Null
  imports HRT_Mutex
begin

text \<open>
  The null port, \<open>src/port/null/port_null.c\<close>: it has no variables of its own (its state is
  \<open>kernel\<close> itself), starts no tick source and never switches. \<open>null_build\<close> is the library linked
  with it. \<open>run_entry\<close> stands for the application code behind \<open>t->entry(t->arg)\<close>.
\<close>

definition null_init_idle_task :: "kernel \<Rightarrow> kernel" where
  "null_init_idle_task k = k"

definition null_enter_scheduler :: "kernel \<Rightarrow> kernel" where
  "null_enter_scheduler k = k"

definition null_start_systick :: "u32 \<Rightarrow> kernel \<Rightarrow> kernel" where
  "null_start_systick tick_hz k = k"

definition null_idle_wait :: "kernel \<Rightarrow> kernel" where
  "null_idle_wait k = k"

definition null_pend_context_switch :: "kernel \<Rightarrow> kernel" where
  "null_pend_context_switch k = k"

definition null_yield_to_scheduler :: "kernel \<Rightarrow> bool \<times> kernel" where
  "null_yield_to_scheduler k = (False, k)"

definition null_prepare_task_stack :: "int \<Rightarrow> uintptr \<Rightarrow> uintptr \<Rightarrow> size_t \<Rightarrow> kernel \<Rightarrow> kernel" where
  "null_prepare_task_stack i tramp base n k = k"

definition null_crit_enter :: "kernel \<Rightarrow> kernel" where
  "null_crit_enter k = k"

definition null_crit_exit :: "kernel \<Rightarrow> kernel" where
  "null_crit_exit k = k"

definition null_sp_valid :: "uintptr \<Rightarrow> kernel \<Rightarrow> kernel" where
  "null_sp_valid s k = k"

definition null_build :: "nat \<Rightarrow> nat \<Rightarrow> bool \<Rightarrow> uintptr \<Rightarrow> kernel build" where
  "null_build n p dbg tramp =
     \<lparr>HARDRT_MAX_TASKS = n, HARDRT_MAX_PRIO = p, HARDRT_DEBUG = dbg, sym_task_trampoline = tramp,
      port_start_systick = null_start_systick, port_init_idle_task = null_init_idle_task,
      port_prepare_task_stack = null_prepare_task_stack, port_enter_scheduler = null_enter_scheduler,
      port_pend_context_switch = null_pend_context_switch,
      port_yield_to_scheduler = null_yield_to_scheduler,
      port_crit_enter = null_crit_enter, port_crit_exit = null_crit_exit\<rparr>"

definition null_task_trampoline ::
  "(uintptr \<Rightarrow> uintptr \<Rightarrow> kernel \<Rightarrow> kernel) \<Rightarrow> kernel build \<Rightarrow> kernel \<Rightarrow> kernel" where
  "null_task_trampoline run_entry B k =
     (let i = hrt__get_current k;
          t = hrt__tcb B i;
          k = (if t \<noteq> None
               then let k = deref t k in
                 if entry (tcb_of k t) \<noteq> 0 then run_entry (entry (tcb_of k t)) (arg (tcb_of k t)) k else k
               else k)
      in snd (hrt_task_delete B k))"

lemmas null_hooks =
  null_init_idle_task_def null_enter_scheduler_def null_start_systick_def null_pend_context_switch_def
  null_yield_to_scheduler_def null_prepare_task_stack_def null_crit_enter_def null_crit_exit_def

lemma null_build_fields [simp]:
  "HARDRT_MAX_TASKS (null_build n p dbg tramp) = n" "HARDRT_MAX_PRIO (null_build n p dbg tramp) = p"
  "HARDRT_DEBUG (null_build n p dbg tramp) = dbg" "sym_task_trampoline (null_build n p dbg tramp) = tramp"
  by (simp_all add: null_build_def)

interpretation null: hrt_port "null_build n p dbg tramp"
  by unfold_locales (simp_all add: null_build_def null_hooks)

text \<open>A trampoline whose entry returns ends its task: the slot is free again and the task is in
  no ready queue.\<close>

lemma null_trampoline_ends:
  assumes "\<And>x y k. g_current (run_entry x y k) = g_current k"
    and "\<And>x y k. kinv (null_build n p dbg tramp) {c} k \<Longrightarrow> kinv (null_build n p dbg tramp) {c} (run_entry x y k)"
    and "kinv (null_build n p dbg tramp) {c} k" "g_current k = int c" "Suc c < n"
  shows "kinv (null_build n p dbg tramp) {} (null_task_trampoline run_entry (null_build n p dbg tramp) k)"
    "state (g_tcbs (null_task_trampoline run_entry (null_build n p dbg tramp) k) ! c) = HRT_UNUSED"
proof -
  let ?B = "null_build n p dbg tramp"
  define k1 where "k1 = (if entry (g_tcbs k ! c) \<noteq> 0
    then run_entry (entry (g_tcbs k ! c)) (arg (g_tcbs k ! c)) k else k)"
  have n: "length (g_tcbs k) = n" using kwf_sizes(2) [OF kinv_kwf [OF assms(3)]] by simp
  have eq: "null_task_trampoline run_entry ?B k = snd (hrt_task_delete ?B k1)"
    using assms(4,5) n by (simp add: null_task_trampoline_def hrt__get_current_def k1_def Let_def)
  have k1: "kinv ?B {c} k1" "g_current k1 = int c"
    using assms(1-4) by (simp_all add: k1_def)
  have c: "c < HARDRT_MAX_TASKS ?B" "int c \<noteq> HRT_IDLE_ID ?B"
    using assms(5) by (simp_all add: HRT_IDLE_ID_def)
  note d = null.delete_running [OF k1 c]
  show "kinv ?B {} (null_task_trampoline run_entry ?B k)"
    using d(1) by (simp add: eq)
  show "state (g_tcbs (null_task_trampoline run_entry ?B k) ! c) = HRT_UNUSED"
    using d(2) c(1) kwf_sizes(2) [OF kinv_kwf [OF k1(1)]] by (simp add: eq)
qed

end
