(* ===== verification/HRT_Queue.thy ===== *)
theory HRT_Queue
  imports HRT_Mutex
begin

text \<open>
  Message queues: \<open>inc/hardrt_queue.h\<close> and \<open>src/core/hardrt_queue.c\<close>.

  \<^item> \<open>buf\<close> holds the bytes of the application's storage; the item and the destination of an
    operation are byte lists of their own, so a caller that passes a pointer into the storage
    is outside the model. \<open>None\<close> for the storage, an item or a destination is \<open>NULL\<close>.
  \<^item> A failed \<open>HRT_ASSERT\<close> is the outcome \<open>QAbort\<close> with nothing changed. \<open>QHop\<close> is the hop inside
    \<open>hrt_yield\<close>, after which the call returns 0; \<open>QRetry\<close> is the hop of a parked sender or
    receiver, after which it runs its loop again.
  \<^item> \<open>hrt_queue_send\<close> and \<open>hrt_queue_recv\<close> are loops: where the port's hop does not leave the
    caller they go round again at once, possibly for ever, so they are partial functions whose
    value \<open>None\<close> means not returning.

  The invariant \<open>queue_wf\<close> covers the message ring and both waiter rings. The message ring is
  read as the list \<open>queue_msgs\<close>, for which the operations are those of a bounded queue.
\<close>

section \<open>Definitions\<close>

datatype queue_out = QRet int | QHop | QRetry | QAbort

record hrt_queue =
  buf :: "u8 list"
  item_size :: size_t
  capacity :: u16
  q_head :: u16
  q_tail :: u16
  q_count :: u16
  rx_q :: "u8 list"
  rx_head :: u8
  rx_tail :: u8
  rx_wait :: u8
  tx_q :: "u8 list"
  tx_head :: u8
  tx_tail :: u8
  tx_wait :: u8

definition hrt_queue_count :: "hrt_queue \<Rightarrow> u16" where
  "hrt_queue_count q = q_count q"

definition wq_push :: "'p env \<Rightarrow> u8 list \<Rightarrow> u8 \<Rightarrow> u8 \<Rightarrow> u8 \<Rightarrow> u8 list \<times> u8 \<times> u8" where
  "wq_push B qbuf tail count i =
     (if unat count \<ge> HARDRT_MAX_TASKS B then (qbuf, tail, count)
      else (qbuf[unat tail := i], next_idx (HARDRT_MAX_TASKS B) tail, count + 1))"

definition wq_pop :: "'p env \<Rightarrow> u8 list \<Rightarrow> u8 \<Rightarrow> u8 \<Rightarrow> int \<times> u8 \<times> u8" where
  "wq_pop B qbuf head count =
     (if count = 0 then (-1, head, count)
      else (uint (qbuf ! unat head), next_idx (HARDRT_MAX_TASKS B) head, count - 1))"

definition hrt_queue_init ::
  "u8 list option \<Rightarrow> u16 \<Rightarrow> size_t \<Rightarrow> hrt_queue \<Rightarrow> queue_out \<times> hrt_queue" where
  "hrt_queue_init storage cap sz q =
     (case storage of
        None \<Rightarrow> (QAbort, q)
      | Some bytes \<Rightarrow>
          if \<not> cap > 0 \<or> \<not> sz > 0 then (QAbort, q)
          else (QRet 0, q\<lparr>buf := bytes, item_size := sz, capacity := cap,
                  q_head := 0, q_tail := 0, q_count := 0,
                  rx_head := 0, rx_tail := 0, rx_wait := 0,
                  tx_head := 0, tx_tail := 0, tx_wait := 0\<rparr>))"

text \<open>\<open>memcpy_to\<close> copies the first \<open>n\<close> bytes of \<open>src\<close> to the place \<open>off\<close> of \<open>dst\<close>; \<open>item_off\<close> is
  the byte offset of a slot, computed in \<open>size_t\<close>.\<close>

definition memcpy_to :: "nat \<Rightarrow> u8 list \<Rightarrow> nat \<Rightarrow> u8 list \<Rightarrow> u8 list" where
  "memcpy_to off src n dst = take off dst @ take n src @ drop (off + n) dst"

definition item_off :: "hrt_queue \<Rightarrow> u16 \<Rightarrow> nat" where
  "item_off q idx = unat ((ucast idx :: size_t) * item_size q)"

definition enqueue_cs :: "hrt_queue \<Rightarrow> u8 list \<Rightarrow> int \<times> hrt_queue" where
  "enqueue_cs q item =
     (if q_count q \<ge> capacity q then (-1, q)
      else (0, q\<lparr>buf := memcpy_to (item_off q (q_tail q)) item (unat (item_size q)) (buf q),
                 q_tail := next_idx (unat (capacity q)) (q_tail q),
                 q_count := q_count q + 1\<rparr>))"

definition dequeue_cs :: "hrt_queue \<Rightarrow> u8 list \<Rightarrow> int \<times> u8 list \<times> hrt_queue" where
  "dequeue_cs q out =
     (if q_count q = 0 then (-1, out, q)
      else (0, memcpy_to 0 (drop (item_off q (q_head q)) (buf q)) (unat (item_size q)) out,
            q\<lparr>q_head := next_idx (unat (capacity q)) (q_head q),
              q_count := q_count q - 1\<rparr>))"

definition rx_pop :: "'p env \<Rightarrow> hrt_queue \<Rightarrow> int \<times> hrt_queue" where
  "rx_pop B q =
     (case wq_pop B (rx_q q) (rx_head q) (rx_wait q) of
        (i, h, c) \<Rightarrow> (i, q\<lparr>rx_head := h, rx_wait := c\<rparr>))"

definition tx_pop :: "'p env \<Rightarrow> hrt_queue \<Rightarrow> int \<times> hrt_queue" where
  "tx_pop B q =
     (case wq_pop B (tx_q q) (tx_head q) (tx_wait q) of
        (i, h, c) \<Rightarrow> (i, q\<lparr>tx_head := h, tx_wait := c\<rparr>))"

definition rx_push :: "'p env \<Rightarrow> u8 \<Rightarrow> hrt_queue \<Rightarrow> hrt_queue" where
  "rx_push B i q =
     (case wq_push B (rx_q q) (rx_tail q) (rx_wait q) i of
        (b, t, c) \<Rightarrow> q\<lparr>rx_q := b, rx_tail := t, rx_wait := c\<rparr>)"

definition tx_push :: "'p env \<Rightarrow> u8 \<Rightarrow> hrt_queue \<Rightarrow> hrt_queue" where
  "tx_push B i q =
     (case wq_push B (tx_q q) (tx_tail q) (tx_wait q) i of
        (b, t, c) \<Rightarrow> q\<lparr>tx_q := b, tx_tail := t, tx_wait := c\<rparr>)"

text \<open>The critical section of the two non-blocking sends, and of the two non-blocking
  receives: the flag says that a waiter was woken.\<close>

definition send_cs ::
  "'p env \<Rightarrow> hrt_queue \<Rightarrow> u8 list \<Rightarrow> 'p kernel_scheme \<Rightarrow> (int \<times> bool) \<times> hrt_queue \<times> 'p kernel_scheme" where
  "send_cs B q item k =
     (case enqueue_cs q item of
        (ok, q) \<Rightarrow>
          if ok = 0
          then (case rx_pop B q of
                  (waiter, q) \<Rightarrow>
                    if waiter \<ge> 0 then ((ok, True), q, hrt__make_ready B waiter k)
                    else ((ok, False), q, k))
          else ((ok, False), q, k))"

definition recv_cs ::
  "'p env \<Rightarrow> hrt_queue \<Rightarrow> u8 list \<Rightarrow> 'p kernel_scheme \<Rightarrow>
   (int \<times> bool \<times> u8 list) \<times> hrt_queue \<times> 'p kernel_scheme" where
  "recv_cs B q out k =
     (case dequeue_cs q out of
        (ok, out, q) \<Rightarrow>
          if ok = 0
          then (case tx_pop B q of
                  (waiter, q) \<Rightarrow>
                    if waiter \<ge> 0 then ((ok, True, out), q, hrt__make_ready B waiter k)
                    else ((ok, False, out), q, k))
          else ((ok, False, out), q, k))"

definition hrt_queue_try_send ::
  "'p env \<Rightarrow> hrt_queue \<Rightarrow> u8 list option \<Rightarrow> 'p kernel_scheme \<Rightarrow> queue_out \<times> hrt_queue \<times> 'p kernel_scheme" where
  "hrt_queue_try_send B q item k =
     (case item of
        None \<Rightarrow> (QAbort, q, k)
      | Some x \<Rightarrow>
          let k = port_crit_enter B k;
              ((ok, woken), q, k) = send_cs B q x k;
              k = port_crit_exit B k
          in if woken
             then (case hrt_yield B k of (hopped, k) \<Rightarrow> (if hopped then QHop else QRet ok, q, k))
             else (QRet ok, q, k))"

definition hrt_queue_try_send_from_isr ::
  "'p env \<Rightarrow> hrt_queue \<Rightarrow> u8 list option \<Rightarrow> 'p kernel_scheme \<Rightarrow>
   (queue_out \<times> bool) \<times> hrt_queue \<times> 'p kernel_scheme" where
  "hrt_queue_try_send_from_isr B q item k =
     (case item of
        None \<Rightarrow> ((QAbort, False), q, k)
      | Some x \<Rightarrow>
          let k = port_crit_enter B k;
              ((ok, woken), q, k) = send_cs B q x k;
              k = port_crit_exit B k
          in ((QRet ok, woken), q, if woken then port_pend_context_switch B k else k))"

definition queue_send_slow ::
  "'p env \<Rightarrow> hrt_queue \<Rightarrow> u8 list \<Rightarrow> 'p kernel_scheme \<Rightarrow> (queue_out \<times> bool) \<times> hrt_queue \<times> 'p kernel_scheme" where
  "queue_send_slow B q x k =
     (let me = hrt__get_current k;
          k = port_crit_enter B k
      in if q_count q < capacity q
         then
           let (ok, q) = enqueue_cs q x;
               (waiter, q) = rx_pop B q;
               k = (if waiter \<ge> 0 then hrt__make_ready B waiter k else k)
           in ((QRet ok, True), q, port_crit_exit B k)
         else
           let q = tx_push B (word_of_int me) q;
               t = hrt__tcb B me;
               k = (if t \<noteq> None then tcb_upd t (\<lambda>u. u\<lparr>state := HRT_BLOCKED\<rparr>) k else k);
               k = port_crit_exit B k;
               k = port_pend_context_switch B k;
               (hopped, k) = port_yield_to_scheduler B k
           in ((QRetry, hopped), q, k))"

text \<open>One turn of the loop of \<open>hrt_queue_send\<close>; the flag is false when the loop goes round again
  at once.\<close>

definition queue_send_iter ::
  "'p env \<Rightarrow> hrt_queue \<Rightarrow> u8 list \<Rightarrow> 'p kernel_scheme \<Rightarrow> (queue_out \<times> bool) \<times> hrt_queue \<times> 'p kernel_scheme" where
  "queue_send_iter B q x k =
     (case hrt_queue_try_send B q (Some x) k of
        (r, q, k) \<Rightarrow> if r = QRet 0 \<or> r = QHop then ((r, True), q, k) else queue_send_slow B q x k)"

partial_function (option) queue_send_loop ::
  "'p env \<Rightarrow> hrt_queue \<Rightarrow> u8 list \<Rightarrow> 'p kernel_scheme \<Rightarrow> (queue_out \<times> hrt_queue \<times> 'p kernel_scheme) option" where
  "queue_send_loop B q x k =
     (case queue_send_iter B q x k of
        ((r, stop), q, k) \<Rightarrow> if stop then Some (r, q, k) else queue_send_loop B q x k)"

declare queue_send_loop.simps [code]

definition hrt_queue_send ::
  "'p env \<Rightarrow> hrt_queue \<Rightarrow> u8 list option \<Rightarrow> 'p kernel_scheme \<Rightarrow>
   (queue_out \<times> hrt_queue \<times> 'p kernel_scheme) option" where
  "hrt_queue_send B q item k =
     (case item of None \<Rightarrow> Some (QAbort, q, k) | Some x \<Rightarrow> queue_send_loop B q x k)"

definition hrt_queue_try_recv ::
  "'p env \<Rightarrow> hrt_queue \<Rightarrow> u8 list option \<Rightarrow> 'p kernel_scheme \<Rightarrow>
   (queue_out \<times> u8 list option) \<times> hrt_queue \<times> 'p kernel_scheme" where
  "hrt_queue_try_recv B q out k =
     (case out of
        None \<Rightarrow> ((QAbort, out), q, k)
      | Some x \<Rightarrow>
          let k = port_crit_enter B k;
              ((ok, woken, x), q, k) = recv_cs B q x k;
              k = port_crit_exit B k
          in if woken
             then (case hrt_yield B k of (hopped, k) \<Rightarrow> ((if hopped then QHop else QRet ok, Some x), q, k))
             else ((QRet ok, Some x), q, k))"

definition hrt_queue_try_recv_from_isr ::
  "'p env \<Rightarrow> hrt_queue \<Rightarrow> u8 list option \<Rightarrow> 'p kernel_scheme \<Rightarrow>
   (queue_out \<times> bool \<times> u8 list option) \<times> hrt_queue \<times> 'p kernel_scheme" where
  "hrt_queue_try_recv_from_isr B q out k =
     (case out of
        None \<Rightarrow> ((QAbort, False, out), q, k)
      | Some x \<Rightarrow>
          let k = port_crit_enter B k;
              ((ok, woken, x), q, k) = recv_cs B q x k;
              k = port_crit_exit B k
          in ((QRet ok, woken, Some x), q, if woken then port_pend_context_switch B k else k))"

definition queue_recv_slow ::
  "'p env \<Rightarrow> hrt_queue \<Rightarrow> u8 list \<Rightarrow> 'p kernel_scheme \<Rightarrow>
   (queue_out \<times> bool \<times> u8 list) \<times> hrt_queue \<times> 'p kernel_scheme" where
  "queue_recv_slow B q x k =
     (let me = hrt__get_current k;
          k = port_crit_enter B k
      in if q_count q \<noteq> 0
         then
           let (ok, x, q) = dequeue_cs q x;
               (waiter, q) = tx_pop B q;
               k = (if waiter \<ge> 0 then hrt__make_ready B waiter k else k)
           in ((QRet ok, True, x), q, port_crit_exit B k)
         else
           let q = rx_push B (word_of_int me) q;
               t = hrt__tcb B me;
               k = (if t \<noteq> None then tcb_upd t (\<lambda>u. u\<lparr>state := HRT_BLOCKED\<rparr>) k else k);
               k = port_crit_exit B k;
               k = port_pend_context_switch B k;
               (hopped, k) = port_yield_to_scheduler B k
           in ((QRetry, hopped, x), q, k))"

definition queue_recv_iter ::
  "'p env \<Rightarrow> hrt_queue \<Rightarrow> u8 list \<Rightarrow> 'p kernel_scheme \<Rightarrow>
   (queue_out \<times> bool \<times> u8 list) \<times> hrt_queue \<times> 'p kernel_scheme" where
  "queue_recv_iter B q x k =
     (case hrt_queue_try_recv B q (Some x) k of
        ((r, x'), q, k) \<Rightarrow>
          if r = QRet 0 \<or> r = QHop then ((r, True, the x'), q, k) else queue_recv_slow B q (the x') k)"

partial_function (option) queue_recv_loop ::
  "'p env \<Rightarrow> hrt_queue \<Rightarrow> u8 list \<Rightarrow> 'p kernel_scheme \<Rightarrow>
   ((queue_out \<times> u8 list) \<times> hrt_queue \<times> 'p kernel_scheme) option" where
  "queue_recv_loop B q x k =
     (case queue_recv_iter B q x k of
        ((r, stop, x), q, k) \<Rightarrow> if stop then Some ((r, x), q, k) else queue_recv_loop B q x k)"

declare queue_recv_loop.simps [code]

definition hrt_queue_recv ::
  "'p env \<Rightarrow> hrt_queue \<Rightarrow> u8 list option \<Rightarrow> 'p kernel_scheme \<Rightarrow>
   ((queue_out \<times> u8 list option) \<times> hrt_queue \<times> 'p kernel_scheme) option" where
  "hrt_queue_recv B q out k =
     (case out of
        None \<Rightarrow> Some ((QAbort, out), q, k)
      | Some x \<Rightarrow> (case queue_recv_loop B q x k of
                     None \<Rightarrow> None
                   | Some ((r, x), q, k) \<Rightarrow> Some ((r, Some x), q, k)))"

section \<open>The message ring\<close>

definition chunks :: "nat \<Rightarrow> nat \<Rightarrow> 'x list \<Rightarrow> 'x list list" where
  "chunks n sz xs = map (\<lambda>i. take sz (drop (i * sz) xs)) [0..<n]"

lemma length_chunks [simp]: "length (chunks n sz xs) = n"
  by (simp add: chunks_def)

lemma chunk_end:
  assumes "i < n" "length xs = n * sz"
  shows "i * sz + sz \<le> length xs"
proof -
  have "Suc i * sz \<le> n * sz" using assms(1) by (intro mult_le_mono1) simp
  then show ?thesis using assms(2) by (simp add: add.commute)
qed

lemma length_memcpy_to:
  assumes "off + n \<le> length dst" "n \<le> length src"
  shows "length (memcpy_to off src n dst) = length dst"
  using assms by (simp add: memcpy_to_def)

lemma chunks_memcpy:
  assumes i: "i < n" and len: "length xs = n * sz" "sz \<le> length src"
  shows "chunks n sz (memcpy_to (i * sz) src sz xs) = (chunks n sz xs)[i := take sz src]"
proof (rule nth_equalityI)
  fix j assume "j < length (chunks n sz (memcpy_to (i * sz) src sz xs))"
  then have j: "j < n" by simp
  note e = chunk_end [OF i len(1)]
  have "take sz (drop (j * sz) (memcpy_to (i * sz) src sz xs)) =
      (if j = i then take sz src else take sz (drop (j * sz) xs))"
  proof (rule linorder_cases [of j i])
    assume lt: "j < i"
    then have "Suc j * sz \<le> i * sz" by (intro mult_le_mono1) simp
    then have le: "j * sz + sz \<le> i * sz" by simp
    then show ?thesis unfolding memcpy_to_def using lt e by (subst take_drop_prefix) auto
  next
    assume "j = i"
    with e len(2) show ?thesis by (simp add: memcpy_to_def)
  next
    assume gt: "i < j"
    then have "Suc i * sz \<le> j * sz" by (intro mult_le_mono1) simp
    then have "i * sz + sz \<le> j * sz" by simp
    with gt e len(2) show ?thesis by (simp add: memcpy_to_def)
  qed
  with i j show "chunks n sz (memcpy_to (i * sz) src sz xs) ! j = (chunks n sz xs)[i := take sz src] ! j"
    by (simp add: chunks_def nth_list_update)
qed simp
definition msg_slots :: "hrt_queue \<Rightarrow> u8 list list" where
  "msg_slots q = chunks (unat (capacity q)) (unat (item_size q)) (buf q)"

definition msg_ring :: "hrt_queue \<Rightarrow> bool" where
  "msg_ring q \<longleftrightarrow> 0 < unat (item_size q) \<and>
     length (buf q) = unat (capacity q) * unat (item_size q) \<and> length (buf q) < 2 ^ 32 \<and>
     ring_ok (unat (capacity q)) (msg_slots q) (q_head q) (q_tail q) (q_count q)"

definition queue_msgs :: "hrt_queue \<Rightarrow> u8 list list" where
  "queue_msgs q = ring_list (unat (capacity q)) (msg_slots q) (q_head q) (q_count q)"

lemma length_queue_msgs: "length (queue_msgs q) = unat (q_count q)"
  by (simp add: queue_msgs_def)

lemma queue_msgs_Nil_iff: "queue_msgs q = [] \<longleftrightarrow> q_count q = 0"
  by (simp add: queue_msgs_def)

lemma item_off_value:
  assumes "msg_ring q" "unat idx < unat (capacity q)"
  shows "item_off q idx = unat idx * unat (item_size q)"
    "item_off q idx + unat (item_size q) \<le> length (buf q)"
proof -
  note e = chunk_end [OF assms(2), of "buf q" "unat (item_size q)"]
  have "unat idx * unat (item_size q) + unat (item_size q) \<le> length (buf q)" "length (buf q) < 2 ^ 32"
    using assms(1) e by (simp_all add: msg_ring_def)
  then show "item_off q idx = unat idx * unat (item_size q)"
    "item_off q idx + unat (item_size q) \<le> length (buf q)"
    by (simp_all add: item_off_def unat_word_ariths(2) unat_ucast_up)
qed

lemma msg_ring_facts:
  assumes "msg_ring q"
  shows "ring_ok (unat (capacity q)) (msg_slots q) (q_head q) (q_tail q) (q_count q)"
    "unat (q_tail q) < unat (capacity q)" "unat (q_head q) < unat (capacity q)"
    "unat (q_count q) \<le> unat (capacity q)"
  using assms by (auto simp: msg_ring_def dest: ring_ok_tail ring_ok_head ring_ok_count)

lemma enqueue_full:
  assumes "msg_ring q" "length (queue_msgs q) = unat (capacity q)"
  shows "enqueue_cs q item = (-1, q)"
  using assms by (simp add: enqueue_cs_def length_queue_msgs word_le_nat_alt)

lemma enqueue_room:
  assumes "msg_ring q" "length item = unat (item_size q)" "length (queue_msgs q) < unat (capacity q)"
  defines "q' \<equiv> snd (enqueue_cs q item)"
  shows "fst (enqueue_cs q item) = 0" "msg_ring q'" "queue_msgs q' = queue_msgs q @ [item]"
    "q' = q\<lparr>buf := buf q', q_tail := q_tail q', q_count := q_count q'\<rparr>"
proof -
  note f = msg_ring_facts [OF assms(1)]
  note off = item_off_value [OF assms(1) f(2)]
  have room: "unat (q_count q) < unat (capacity q)" using assms(3) by (simp add: length_queue_msgs)
  define b where "b = memcpy_to (unat (q_tail q) * unat (item_size q)) item (unat (item_size q)) (buf q)"
  have eq: "enqueue_cs q item = (0, q\<lparr>buf := b, q_tail := next_idx (unat (capacity q)) (q_tail q),
      q_count := q_count q + 1\<rparr>)"
    using room off by (simp add: enqueue_cs_def b_def word_le_nat_alt)
  then show "fst (enqueue_cs q item) = 0"
    "q' = q\<lparr>buf := buf q', q_tail := q_tail q', q_count := q_count q'\<rparr>"
    by (simp_all add: q'_def)
  have slots: "msg_slots q' = (msg_slots q)[unat (q_tail q) := item]"
    using assms(1,2) chunks_memcpy [OF f(2), of "buf q" "unat (item_size q)" item]
    by (simp add: q'_def eq msg_slots_def b_def msg_ring_def)
  have len: "length b = length (buf q)"
    using off assms(2) by (simp add: b_def length_memcpy_to)
  show "msg_ring q'"
    using assms(1) ring_push_ok [OF f(1) room, of item] slots len by (simp add: msg_ring_def q'_def eq)
  show "queue_msgs q' = queue_msgs q @ [item]"
    using ring_push_list [OF f(1) room, of item] slots by (simp add: queue_msgs_def q'_def eq)
qed

lemma dequeue_empty: "queue_msgs q = [] \<Longrightarrow> dequeue_cs q out = (-1, out, q)"
  by (simp add: dequeue_cs_def queue_msgs_def)

lemma dequeue_Cons:
  fixes out :: "u8 list"
  assumes "msg_ring q" "queue_msgs q = x # xs"
  defines "q' \<equiv> snd (snd (dequeue_cs q out))"
  shows "fst (dequeue_cs q out) = 0" "fst (snd (dequeue_cs q out)) = x @ drop (length x) out"
    "msg_ring q'" "queue_msgs q' = xs" "q' = q\<lparr>q_head := q_head q', q_count := q_count q'\<rparr>"
    "length x = unat (item_size q)"
proof -
  note f = msg_ring_facts [OF assms(1)]
  note off = item_off_value [OF assms(1) f(3)]
  note hd = ring_list_hd [OF f(1) assms(2) [unfolded queue_msgs_def]]
  have x: "take (unat (item_size q)) (drop (item_off q (q_head q)) (buf q)) = x"
    using hd(1) off(1) f(3) by (simp add: msg_slots_def chunks_def)
  then show lx: "length x = unat (item_size q)" using off(2) by auto
  have eq: "dequeue_cs q out = (0, x @ drop (length x) out,
      q\<lparr>q_head := next_idx (unat (capacity q)) (q_head q), q_count := q_count q - 1\<rparr>)"
    using hd(3) x lx by (simp add: dequeue_cs_def memcpy_to_def)
  then show "fst (dequeue_cs q out) = 0" "fst (snd (dequeue_cs q out)) = x @ drop (length x) out"
    "q' = q\<lparr>q_head := q_head q', q_count := q_count q'\<rparr>"
    by (simp_all add: q'_def)
  have slots: "msg_slots q' = msg_slots q" by (simp add: q'_def eq msg_slots_def)
  show "msg_ring q'" using assms(1) ring_pop_ok [OF f(1) hd(3)] slots by (simp add: msg_ring_def q'_def eq)
  show "queue_msgs q' = xs" using hd(2) slots by (simp add: queue_msgs_def q'_def eq)
qed

definition dequeue_msg :: "hrt_queue \<Rightarrow> u8 list option \<times> hrt_queue" where
  "dequeue_msg q = (case dequeue_cs q [] of (ok, x, q) \<Rightarrow> (if ok = 0 then Some x else None, q))"

interpretation msgs: bounded_fifo "\<lambda>x q. snd (enqueue_cs q x)" dequeue_msg None Some
    "\<lambda>q. msg_ring q \<and> item_size q = sz \<and> capacity q = cap" queue_msgs "\<lambda>q. unat cap" "\<lambda>x. length x = unat sz"
  for sz :: size_t and cap :: u16
proof (unfold_locales, goal_cases)
  case (1 q x)
  then show ?case by (simp add: enqueue_room(3))
next
  case (2 q x)
  then show ?case by (simp add: enqueue_full)
next
  case (3 q x)
  have "item_size (snd (enqueue_cs q x)) = item_size q" "capacity (snd (enqueue_cs q x)) = capacity q"
    by (simp_all add: enqueue_cs_def)
  moreover have "unat (q_count q) \<le> unat (capacity q)" using 3 msg_ring_facts(4) by blast
  ultimately show ?case using 3 enqueue_room(2) [of q x] enqueue_full [of q x]
    by (cases "unat (q_count q) < unat (capacity q)") (simp_all add: length_queue_msgs)
next
  case (5 q)
  then show ?case by (simp add: dequeue_msg_def dequeue_empty)
next
  case (6 q x xs)
  then show ?case using dequeue_Cons(1,2) [of q x xs "[]"] by (simp add: dequeue_msg_def split_beta)
next
  case (7 q x xs)
  then show ?case using dequeue_Cons(4) [of q x xs "[]"] by (simp add: dequeue_msg_def split_beta)
next
  case (8 q)
  have "item_size (snd (dequeue_msg q)) = item_size q" "capacity (snd (dequeue_msg q)) = capacity q"
    by (simp_all add: dequeue_msg_def dequeue_cs_def)
  with 8 show ?case using dequeue_Cons(3) [of q _ _ "[]"] dequeue_empty [of q "[]"]
    by (cases "queue_msgs q") (simp_all add: dequeue_msg_def split_beta)
next
  case (10 q)
  then show ?case using msg_ring_facts(4) by (auto simp: length_queue_msgs)
qed simp_all

section \<open>The waiter queues\<close>

definition wq_list :: "'p env \<Rightarrow> u8 list \<Rightarrow> u8 \<Rightarrow> u8 \<Rightarrow> nat list" where
  "wq_list B b h c = map unat (ring_list (HARDRT_MAX_TASKS B) b h c)"

definition wq_ok :: "'p env \<Rightarrow> u8 list \<Rightarrow> u8 \<Rightarrow> u8 \<Rightarrow> u8 \<Rightarrow> bool" where
  "wq_ok B b h t c \<longleftrightarrow> valid_build B \<and> ring_ok (HARDRT_MAX_TASKS B) b h t c \<and>
     (\<forall>i \<in> set (wq_list B b h c). i < HARDRT_MAX_TASKS B)"

definition rx_waiters :: "'p env \<Rightarrow> hrt_queue \<Rightarrow> nat list" where
  "rx_waiters B q = wq_list B (rx_q q) (rx_head q) (rx_wait q)"

definition tx_waiters :: "'p env \<Rightarrow> hrt_queue \<Rightarrow> nat list" where
  "tx_waiters B q = wq_list B (tx_q q) (tx_head q) (tx_wait q)"

definition rx_ok :: "'p env \<Rightarrow> hrt_queue \<Rightarrow> bool" where
  "rx_ok B q \<longleftrightarrow> wq_ok B (rx_q q) (rx_head q) (rx_tail q) (rx_wait q)"

definition tx_ok :: "'p env \<Rightarrow> hrt_queue \<Rightarrow> bool" where
  "tx_ok B q \<longleftrightarrow> wq_ok B (tx_q q) (tx_head q) (tx_tail q) (tx_wait q)"

lemma wq_push_room:
  assumes "wq_ok B b h t c" "i < HARDRT_MAX_TASKS B" "length (wq_list B b h c) < HARDRT_MAX_TASKS B"
  defines "r \<equiv> wq_push B b t c (word_of_nat i)"
  shows "wq_ok B (fst r) h (fst (snd r)) (snd (snd r))" "wq_list B (fst r) h (snd (snd r)) = wq_list B b h c @ [i]"
proof -
  let ?N = "HARDRT_MAX_TASKS B"
  have ok: "ring_ok ?N b h t c" and room: "unat c < ?N" and N: "?N < 256"
    using assms(1,3) valid_build_bounds by (auto simp: wq_ok_def wq_list_def)
  have i: "unat (word_of_nat i :: u8) = i" using assms(2) N by simp
  have eq: "r = (b[unat t := word_of_nat i], next_idx ?N t, c + 1)" using room by (simp add: r_def wq_push_def)
  show w: "wq_list B (fst r) h (snd (snd r)) = wq_list B b h c @ [i]"
    using ring_push_list [OF ok room, of "word_of_nat i"] i by (simp add: eq wq_list_def)
  show "wq_ok B (fst r) h (fst (snd r)) (snd (snd r))"
    using assms(1,2) ring_push_ok [OF ok room, of "word_of_nat i"] w by (auto simp: wq_ok_def eq)
qed

lemma wq_push_full:
  "length (wq_list B b h c) = HARDRT_MAX_TASKS B \<Longrightarrow> wq_push B b t c i = (b, t, c)"
  by (simp add: wq_push_def wq_list_def)

lemma wq_pop_empty: "wq_list B b h c = [] \<Longrightarrow> wq_pop B b h c = (-1, h, c)"
  by (simp add: wq_pop_def wq_list_def)

lemma wq_pop_Cons:
  assumes "wq_ok B b h t c" "wq_list B b h c = w # ws"
  defines "r \<equiv> wq_pop B b h c"
  shows "fst r = int w" "wq_ok B b (fst (snd r)) t (snd (snd r))" "wq_list B b (fst (snd r)) (snd (snd r)) = ws"
proof -
  let ?N = "HARDRT_MAX_TASKS B"
  have ok: "ring_ok ?N b h t c" using assms(1) by (simp add: wq_ok_def)
  obtain x xs where x: "ring_list ?N b h c = x # xs" and w: "unat x = w" "map unat xs = ws"
    using assms(2) by (auto simp: wq_list_def map_eq_Cons_conv)
  note hd = ring_list_hd [OF ok x]
  have wi: "uint x = int w" using w(1) by (metis uint_nat)
  have eq: "r = (int w, next_idx ?N h, c - 1)" using hd(1,3) wi by (simp add: r_def wq_pop_def)
  then show "fst r = int w" by simp
  show ws: "wq_list B b (fst (snd r)) (snd (snd r)) = ws" using hd(2) w by (simp add: eq wq_list_def)
  show "wq_ok B b (fst (snd r)) t (snd (snd r))"
    using assms(1,2) ring_pop_ok [OF ok hd(3)] ws by (auto simp: wq_ok_def eq)
qed

lemma wq_bound: "wq_ok B b h t c \<Longrightarrow> length (wq_list B b h c) \<le> HARDRT_MAX_TASKS B"
  by (auto simp: wq_ok_def wq_list_def dest: ring_ok_count)

text \<open>The receivers' queue.\<close>

lemma rx_push_room:
  assumes "rx_ok B q" "i < HARDRT_MAX_TASKS B" "length (rx_waiters B q) < HARDRT_MAX_TASKS B"
  defines "q' \<equiv> rx_push B (word_of_nat i) q"
  shows "rx_ok B q'" "rx_waiters B q' = rx_waiters B q @ [i]"
    "q' = q\<lparr>rx_q := rx_q q', rx_tail := rx_tail q', rx_wait := rx_wait q'\<rparr>"
  using wq_push_room [OF assms(1) [unfolded rx_ok_def] assms(2) assms(3) [unfolded rx_waiters_def]]
  by (simp_all add: q'_def rx_push_def rx_ok_def rx_waiters_def split_beta)

lemma rx_push_full:
  assumes "length (rx_waiters B q) = HARDRT_MAX_TASKS B"
  shows "rx_push B i q = q"
  using assms by (simp add: rx_push_def rx_waiters_def wq_push_full)

lemma rx_pop_empty: "rx_waiters B q = [] \<Longrightarrow> rx_pop B q = (-1, q)"
  by (simp add: rx_pop_def rx_waiters_def wq_pop_empty)

lemma rx_pop_Cons:
  assumes "rx_ok B q" "rx_waiters B q = w # ws"
  defines "q' \<equiv> snd (rx_pop B q)"
  shows "fst (rx_pop B q) = int w" "rx_ok B q'" "rx_waiters B q' = ws"
    "q' = q\<lparr>rx_head := rx_head q', rx_wait := rx_wait q'\<rparr>"
  using wq_pop_Cons [OF assms(1) [unfolded rx_ok_def] assms(2) [unfolded rx_waiters_def]]
  by (simp_all add: q'_def rx_pop_def rx_ok_def rx_waiters_def split_beta)

lemma rx_bound: "rx_ok B q \<Longrightarrow> length (rx_waiters B q) \<le> HARDRT_MAX_TASKS B"
  by (simp add: rx_ok_def rx_waiters_def wq_bound)

interpretation rxq: bounded_fifo "\<lambda>i. rx_push B (word_of_nat i)" "rx_pop B" "-1" int
    "rx_ok B" "rx_waiters B" "\<lambda>q. HARDRT_MAX_TASKS B" "\<lambda>i. i < HARDRT_MAX_TASKS B" for B :: "'p env"
proof (unfold_locales, goal_cases)
  case (3 q i)
  then show ?case using rx_push_room(1) [OF 3] rx_push_full [of B q] rx_bound [of B q]
    by (cases "length (rx_waiters B q) < HARDRT_MAX_TASKS B") simp_all
next
  case (8 q)
  then show ?case by (cases "rx_waiters B q") (simp_all add: rx_pop_empty rx_pop_Cons(2))
qed (simp_all add: rx_push_room(2) rx_push_full rx_pop_empty rx_pop_Cons(1,3) rx_bound)

text \<open>The senders' queue.\<close>

lemma tx_push_room:
  assumes "tx_ok B q" "i < HARDRT_MAX_TASKS B" "length (tx_waiters B q) < HARDRT_MAX_TASKS B"
  defines "q' \<equiv> tx_push B (word_of_nat i) q"
  shows "tx_ok B q'" "tx_waiters B q' = tx_waiters B q @ [i]"
    "q' = q\<lparr>tx_q := tx_q q', tx_tail := tx_tail q', tx_wait := tx_wait q'\<rparr>"
  using wq_push_room [OF assms(1) [unfolded tx_ok_def] assms(2) assms(3) [unfolded tx_waiters_def]]
  by (simp_all add: q'_def tx_push_def tx_ok_def tx_waiters_def split_beta)

lemma tx_push_full:
  assumes "length (tx_waiters B q) = HARDRT_MAX_TASKS B"
  shows "tx_push B i q = q"
  using assms by (simp add: tx_push_def tx_waiters_def wq_push_full)

lemma tx_pop_empty: "tx_waiters B q = [] \<Longrightarrow> tx_pop B q = (-1, q)"
  by (simp add: tx_pop_def tx_waiters_def wq_pop_empty)

lemma tx_pop_Cons:
  assumes "tx_ok B q" "tx_waiters B q = w # ws"
  defines "q' \<equiv> snd (tx_pop B q)"
  shows "fst (tx_pop B q) = int w" "tx_ok B q'" "tx_waiters B q' = ws"
    "q' = q\<lparr>tx_head := tx_head q', tx_wait := tx_wait q'\<rparr>"
  using wq_pop_Cons [OF assms(1) [unfolded tx_ok_def] assms(2) [unfolded tx_waiters_def]]
  by (simp_all add: q'_def tx_pop_def tx_ok_def tx_waiters_def split_beta)

lemma tx_bound: "tx_ok B q \<Longrightarrow> length (tx_waiters B q) \<le> HARDRT_MAX_TASKS B"
  by (simp add: tx_ok_def tx_waiters_def wq_bound)

interpretation txq: bounded_fifo "\<lambda>i. tx_push B (word_of_nat i)" "tx_pop B" "-1" int
    "tx_ok B" "tx_waiters B" "\<lambda>q. HARDRT_MAX_TASKS B" "\<lambda>i. i < HARDRT_MAX_TASKS B" for B :: "'p env"
proof (unfold_locales, goal_cases)
  case (3 q i)
  then show ?case using tx_push_room(1) [OF 3] tx_push_full [of B q] tx_bound [of B q]
    by (cases "length (tx_waiters B q) < HARDRT_MAX_TASKS B") simp_all
next
  case (8 q)
  then show ?case by (cases "tx_waiters B q") (simp_all add: tx_pop_empty tx_pop_Cons(2))
qed (simp_all add: tx_push_room(2) tx_push_full tx_pop_empty tx_pop_Cons(1,3) tx_bound)

section \<open>Invariant and specification\<close>

definition queue_wf :: "'p env \<Rightarrow> hrt_queue \<Rightarrow> 'p kernel_scheme \<Rightarrow> bool" where
  "queue_wf B q k \<longleftrightarrow> msg_ring q \<and> rx_ok B q \<and> tx_ok B q \<and>
     distinct (rx_waiters B q @ tx_waiters B q) \<and>
     (\<forall>i \<in> set (rx_waiters B q @ tx_waiters B q). state (g_tcbs k ! i) = HRT_BLOCKED)"

text \<open>The abstract queue: the messages, the waiting receivers and the waiting senders, oldest
  first. A send that finds room, and a receive that finds a message, wakes the oldest waiter of
  the other side, which the second component of the result names.\<close>

type_synonym queue_state = "u8 list list \<times> nat list \<times> nat list"

definition queue_abs :: "'p env \<Rightarrow> hrt_queue \<Rightarrow> queue_state" where
  "queue_abs B q = (queue_msgs q, rx_waiters B q, tx_waiters B q)"

definition oldest :: "nat list \<Rightarrow> nat option" where
  "oldest ws = (case ws of [] \<Rightarrow> None | w # _ \<Rightarrow> Some w)"

definition spec_send :: "nat \<Rightarrow> u8 list \<Rightarrow> queue_state \<Rightarrow> bool \<times> nat option \<times> queue_state" where
  "spec_send cap x a =
     (case a of (ms, rs, ts) \<Rightarrow>
        if length ms < cap then (True, oldest rs, ms @ [x], tl rs, ts) else (False, None, a))"

definition spec_recv :: "queue_state \<Rightarrow> u8 list option \<times> nat option \<times> queue_state" where
  "spec_recv a =
     (case a of (ms, rs, ts) \<Rightarrow>
        (case ms of [] \<Rightarrow> (None, None, a) | m # ms \<Rightarrow> (Some m, oldest ts, ms, rs, tl ts)))"

lemma spec_send_none: "\<not> fst (spec_send cap x a) \<Longrightarrow> snd (spec_send cap x a) = (None, a)"
  by (auto simp: spec_send_def split: prod.splits if_splits)

lemma spec_recv_none: "fst (spec_recv a) = None \<Longrightarrow> snd (spec_recv a) = (None, a)"
  by (auto simp: spec_recv_def split: prod.splits list.splits)

definition wake_opt :: "'p env \<Rightarrow> nat option \<Rightarrow> 'p kernel_scheme \<Rightarrow> 'p kernel_scheme" where
  "wake_opt B w k = (case w of None \<Rightarrow> k | Some i \<Rightarrow> hrt__make_ready B (int i) k)"

section \<open>What the operations leave alone\<close>

lemma enqueue_frame [simp]:
  "rx_waiters B (snd (enqueue_cs q x)) = rx_waiters B q" "tx_waiters B (snd (enqueue_cs q x)) = tx_waiters B q"
  "rx_ok B (snd (enqueue_cs q x)) = rx_ok B q" "tx_ok B (snd (enqueue_cs q x)) = tx_ok B q"
  "capacity (snd (enqueue_cs q x)) = capacity q" "item_size (snd (enqueue_cs q x)) = item_size q"
  by (simp_all add: enqueue_cs_def rx_waiters_def tx_waiters_def rx_ok_def tx_ok_def)

lemma dequeue_frame [simp]:
  "rx_waiters B (snd (snd (dequeue_cs q x))) = rx_waiters B q"
  "tx_waiters B (snd (snd (dequeue_cs q x))) = tx_waiters B q"
  "rx_ok B (snd (snd (dequeue_cs q x))) = rx_ok B q" "tx_ok B (snd (snd (dequeue_cs q x))) = tx_ok B q"
  "capacity (snd (snd (dequeue_cs q x))) = capacity q" "item_size (snd (snd (dequeue_cs q x))) = item_size q"
  by (simp_all add: dequeue_cs_def rx_waiters_def tx_waiters_def rx_ok_def tx_ok_def)

lemmas queue_parts = msg_slots_def msg_ring_def queue_msgs_def rx_waiters_def tx_waiters_def rx_ok_def tx_ok_def

lemma rx_pop_frame [simp]:
  "msg_ring (snd (rx_pop B q)) = msg_ring q" "queue_msgs (snd (rx_pop B q)) = queue_msgs q"
  "tx_waiters B (snd (rx_pop B q)) = tx_waiters B q" "tx_ok B (snd (rx_pop B q)) = tx_ok B q"
  "capacity (snd (rx_pop B q)) = capacity q" "item_size (snd (rx_pop B q)) = item_size q"
  by (simp_all add: rx_pop_def queue_parts split_beta)

lemma tx_pop_frame [simp]:
  "msg_ring (snd (tx_pop B q)) = msg_ring q" "queue_msgs (snd (tx_pop B q)) = queue_msgs q"
  "rx_waiters B (snd (tx_pop B q)) = rx_waiters B q" "rx_ok B (snd (tx_pop B q)) = rx_ok B q"
  "capacity (snd (tx_pop B q)) = capacity q" "item_size (snd (tx_pop B q)) = item_size q"
  by (simp_all add: tx_pop_def queue_parts split_beta)

lemma rx_push_frame [simp]:
  "msg_ring (rx_push B i q) = msg_ring q" "queue_msgs (rx_push B i q) = queue_msgs q"
  "tx_waiters B (rx_push B i q) = tx_waiters B q" "tx_ok B (rx_push B i q) = tx_ok B q"
  "capacity (rx_push B i q) = capacity q" "item_size (rx_push B i q) = item_size q"
  by (simp_all add: rx_push_def queue_parts split_beta)

lemma tx_push_frame [simp]:
  "msg_ring (tx_push B i q) = msg_ring q" "queue_msgs (tx_push B i q) = queue_msgs q"
  "rx_waiters B (tx_push B i q) = rx_waiters B q" "rx_ok B (tx_push B i q) = rx_ok B q"
  "capacity (tx_push B i q) = capacity q" "item_size (tx_push B i q) = item_size q"
  by (simp_all add: tx_push_def queue_parts split_beta)

lemma queue_wf_rings: "queue_wf B q k \<Longrightarrow> msg_ring q" "queue_wf B q k \<Longrightarrow> rx_ok B q" "queue_wf B q k \<Longrightarrow> tx_ok B q"
  by (simp_all add: queue_wf_def)

lemma queue_wf_waiter:
  assumes "queue_wf B q k" "i \<in> set (rx_waiters B q) \<union> set (tx_waiters B q)"
  shows "i < HARDRT_MAX_TASKS B" "state (g_tcbs k ! i) = HRT_BLOCKED"
  using assms by (auto simp: queue_wf_def rx_ok_def tx_ok_def wq_ok_def rx_waiters_def tx_waiters_def)

lemma queue_wf_tcbs:
  assumes "queue_wf B q k"
    "\<And>i. i \<in> set (rx_waiters B q) \<union> set (tx_waiters B q) \<Longrightarrow> state (g_tcbs k' ! i) = state (g_tcbs k ! i)"
  shows "queue_wf B q k'"
  using assms by (auto simp: queue_wf_def)

section \<open>The critical sections\<close>

text \<open>A waiter of a well-formed queue can be woken: it is a blocked task, and making it ready changes its own control block only.\<close>

lemma queue_waiter_wakes:
  assumes "kinv B R k" "queue_wf B q k" "w \<in> set (rx_waiters B q) \<union> set (tx_waiters B q)"
  shows "w < HARDRT_MAX_TASKS B" "state (g_tcbs k ! w) = HRT_BLOCKED"
    and "g_tcbs (hrt__make_ready B (int w) k) = (g_tcbs k)[w := ready_tcb (g_tcbs k ! w)]"
proof -
  show w: "w < HARDRT_MAX_TASKS B" "state (g_tcbs k ! w) = HRT_BLOCKED"
    using queue_wf_waiter [OF assms(2), of w] assms(3) by auto
  then have "state (g_tcbs k ! w) \<noteq> HRT_READY" "state (g_tcbs k ! w) \<noteq> HRT_UNUSED" by simp_all
  from make_ready_wakes(2) [OF assms(1) w(1) this]
  show "g_tcbs (hrt__make_ready B (int w) k) = (g_tcbs k)[w := ready_tcb (g_tcbs k ! w)]" .
qed

lemma send_cs_wakes:
  assumes "kinv B R k" "queue_wf B q k" "length x = unat (item_size q)"
    "length (queue_msgs q) < unat (capacity q)" "rx_waiters B q = w # ws"
  obtains q' where "send_cs B q x k = ((0, True), q', hrt__make_ready B (int w) k)"
    "queue_abs B q' = (queue_msgs q @ [x], ws, tx_waiters B q)" "queue_wf B q' (hrt__make_ready B (int w) k)"
proof -
  note r = queue_wf_rings [OF assms(2)]
  note e = enqueue_room [OF r(1) assms(3,4)]
  let ?q = "snd (enqueue_cs q x)"
  have c: "rx_ok B ?q" "rx_waiters B ?q = w # ws" using r(2) assms(5) by simp_all
  note p = rx_pop_Cons [OF c]
  have mk: "g_tcbs (hrt__make_ready B (int w) k) = (g_tcbs k)[w := ready_tcb (g_tcbs k ! w)]"
    using queue_waiter_wakes(3) [OF assms(1,2), of w] assms(5) by simp
  show ?thesis
  proof (rule that)
    show "send_cs B q x k = ((0, True), snd (rx_pop B ?q), hrt__make_ready B (int w) k)"
      by (simp add: send_cs_def split_beta p(1) e(1))
    show "queue_abs B (snd (rx_pop B ?q)) = (queue_msgs q @ [x], ws, tx_waiters B q)"
      using e(3) p(3) by (simp add: queue_abs_def)
    show "queue_wf B (snd (rx_pop B ?q)) (hrt__make_ready B (int w) k)"
      using assms(2,5) e(2) p(2,3) by (auto simp: queue_wf_def mk nth_update_if)
  qed
qed

lemma recv_cs_wakes:
  assumes "kinv B R k" "queue_wf B q k" "length out = unat (item_size q)"
    "queue_msgs q = m # ms" "tx_waiters B q = w # ws"
  obtains q' where "recv_cs B q out k = ((0, True, m), q', hrt__make_ready B (int w) k)"
    "queue_abs B q' = (ms, rx_waiters B q, ws)" "queue_wf B q' (hrt__make_ready B (int w) k)"
proof -
  note r = queue_wf_rings [OF assms(2)]
  note d = dequeue_Cons(1-5) [OF r(1) assms(4), of out]
  have out: "fst (snd (dequeue_cs q out)) = m" using d(2) dequeue_Cons(6) [OF r(1) assms(4)] assms(3) by simp
  let ?q = "snd (snd (dequeue_cs q out))"
  have c: "tx_ok B ?q" "tx_waiters B ?q = w # ws" using r(3) assms(5) by simp_all
  note p = tx_pop_Cons [OF c]
  have mk: "g_tcbs (hrt__make_ready B (int w) k) = (g_tcbs k)[w := ready_tcb (g_tcbs k ! w)]"
    using queue_waiter_wakes(3) [OF assms(1,2), of w] assms(5) by simp
  show ?thesis
  proof (rule that)
    show "recv_cs B q out k = ((0, True, m), snd (tx_pop B ?q), hrt__make_ready B (int w) k)"
      by (simp add: recv_cs_def split_beta p(1) d(1) out)
    show "queue_abs B (snd (tx_pop B ?q)) = (ms, rx_waiters B q, ws)" using d(4) p(3) by (simp add: queue_abs_def)
    show "queue_wf B (snd (tx_pop B ?q)) (hrt__make_ready B (int w) k)"
      using assms(2,5) d(3) p(2,3) by (auto simp: queue_wf_def mk nth_update_if)
  qed
qed

lemma send_cs_refines:
  assumes "kinv B R k" "queue_wf B q k" "length x = unat (item_size q)"
  defines "a \<equiv> spec_send (unat (capacity q)) x (queue_abs B q)"
  shows "fst (send_cs B q x k) = (if fst a then 0 else -1, fst (snd a) \<noteq> None)"
    and "snd (snd (send_cs B q x k)) = wake_opt B (fst (snd a)) k"
    and "queue_abs B (fst (snd (send_cs B q x k))) = snd (snd a)"
    and "queue_wf B (fst (snd (send_cs B q x k))) (wake_opt B (fst (snd a)) k)"
    and "\<forall>w \<in> set_option (fst (snd a)). w < HARDRT_MAX_TASKS B \<and> state (g_tcbs k ! w) = HRT_BLOCKED"
proof -
  note r = queue_wf_rings [OF assms(2)]
  have P: "fst (send_cs B q x k) = (if fst a then 0 else -1, fst (snd a) \<noteq> None) \<and>
    snd (snd (send_cs B q x k)) = wake_opt B (fst (snd a)) k \<and>
    queue_abs B (fst (snd (send_cs B q x k))) = snd (snd a) \<and>
    queue_wf B (fst (snd (send_cs B q x k))) (wake_opt B (fst (snd a)) k) \<and>
    (\<forall>w \<in> set_option (fst (snd a)). w < HARDRT_MAX_TASKS B \<and> state (g_tcbs k ! w) = HRT_BLOCKED)"
  proof (cases "length (queue_msgs q) < unat (capacity q)")
    case False
    then have "length (queue_msgs q) = unat (capacity q)"
      using msg_ring_facts(4) [OF r(1)] by (simp add: length_queue_msgs)
    then show ?thesis using enqueue_full [OF r(1), of x] assms(2)
      by (simp add: send_cs_def a_def spec_send_def queue_abs_def wake_opt_def)
  next
    case room: True
    note e = enqueue_room [OF r(1) assms(3) room]
    let ?q = "snd (enqueue_cs q x)"
    show ?thesis
    proof (cases "rx_waiters B q")
      case Nil
      then have p: "rx_pop B ?q = (-1, ?q)" by (simp add: rx_pop_empty)
      have eq: "send_cs B q x k = ((0, False), ?q, k)" by (simp add: send_cs_def split_beta p e(1))
      have a: "a = (True, None, queue_msgs q @ [x], [], tx_waiters B q)"
        using room Nil by (simp add: a_def spec_send_def queue_abs_def oldest_def)
      show ?thesis using e(2,3) Nil assms(2) unfolding eq a
        by (simp add: wake_opt_def queue_abs_def queue_wf_def)
    next
      case (Cons w ws)
      from send_cs_wakes [OF assms(1-3) room Cons] obtain q' where q': "send_cs B q x k = ((0, True), q', hrt__make_ready B (int w) k)"
        "queue_abs B q' = (queue_msgs q @ [x], ws, tx_waiters B q)" "queue_wf B q' (hrt__make_ready B (int w) k)" .
      have a: "a = (True, Some w, queue_msgs q @ [x], ws, tx_waiters B q)"
        using room Cons by (simp add: a_def spec_send_def queue_abs_def oldest_def)
      show ?thesis using queue_waiter_wakes(1,2) [OF assms(1,2), of w] Cons q'(2,3) unfolding q'(1) a by (simp add: wake_opt_def)
    qed
  qed
  then show "fst (send_cs B q x k) = (if fst a then 0 else -1, fst (snd a) \<noteq> None)"
    "snd (snd (send_cs B q x k)) = wake_opt B (fst (snd a)) k"
    "queue_abs B (fst (snd (send_cs B q x k))) = snd (snd a)"
    "queue_wf B (fst (snd (send_cs B q x k))) (wake_opt B (fst (snd a)) k)"
    "\<forall>w \<in> set_option (fst (snd a)). w < HARDRT_MAX_TASKS B \<and> state (g_tcbs k ! w) = HRT_BLOCKED"
    by blast+
qed

lemma recv_cs_refines:
  assumes "kinv B R k" "queue_wf B q k" "length out = unat (item_size q)"
  defines "a \<equiv> spec_recv (queue_abs B q)"
  shows "fst (recv_cs B q out k) =
      (if fst a = None then -1 else 0, fst (snd a) \<noteq> None, case fst a of None \<Rightarrow> out | Some m \<Rightarrow> m)"
    and "snd (snd (recv_cs B q out k)) = wake_opt B (fst (snd a)) k"
    and "queue_abs B (fst (snd (recv_cs B q out k))) = snd (snd a)"
    and "queue_wf B (fst (snd (recv_cs B q out k))) (wake_opt B (fst (snd a)) k)"
    and "\<forall>w \<in> set_option (fst (snd a)). w < HARDRT_MAX_TASKS B \<and> state (g_tcbs k ! w) = HRT_BLOCKED"
proof -
  note r = queue_wf_rings [OF assms(2)]
  have P: "fst (recv_cs B q out k) =
      (if fst a = None then -1 else 0, fst (snd a) \<noteq> None, case fst a of None \<Rightarrow> out | Some m \<Rightarrow> m) \<and>
    snd (snd (recv_cs B q out k)) = wake_opt B (fst (snd a)) k \<and>
    queue_abs B (fst (snd (recv_cs B q out k))) = snd (snd a) \<and>
    queue_wf B (fst (snd (recv_cs B q out k))) (wake_opt B (fst (snd a)) k) \<and>
    (\<forall>w \<in> set_option (fst (snd a)). w < HARDRT_MAX_TASKS B \<and> state (g_tcbs k ! w) = HRT_BLOCKED)"
  proof (cases "queue_msgs q")
    case Nil
    then show ?thesis using assms(2)
      by (simp add: recv_cs_def dequeue_empty a_def spec_recv_def queue_abs_def wake_opt_def)
  next
    case (Cons m ms)
    note d = dequeue_Cons(1-5) [OF r(1) Cons, of out]
    have out: "fst (snd (dequeue_cs q out)) = m" using d(2) dequeue_Cons(6) [OF r(1) Cons] assms(3) by simp
    let ?q = "snd (snd (dequeue_cs q out))"
    show ?thesis
    proof (cases "tx_waiters B q")
      case Nil
      then have p: "tx_pop B ?q = (-1, ?q)" by (simp add: tx_pop_empty)
      have eq: "recv_cs B q out k = ((0, False, m), ?q, k)" by (simp add: recv_cs_def split_beta p d(1) out)
      have a: "a = (Some m, None, ms, rx_waiters B q, [])"
        using Cons Nil by (simp add: a_def spec_recv_def queue_abs_def oldest_def)
      show ?thesis using d(3,4) Nil assms(2) unfolding eq a
        by (simp add: wake_opt_def queue_abs_def queue_wf_def)
    next
      case wc: (Cons w ws)
      from recv_cs_wakes [OF assms(1-3) Cons wc] obtain q' where q': "recv_cs B q out k = ((0, True, m), q', hrt__make_ready B (int w) k)"
        "queue_abs B q' = (ms, rx_waiters B q, ws)" "queue_wf B q' (hrt__make_ready B (int w) k)" .
      have a: "a = (Some m, Some w, ms, rx_waiters B q, ws)"
        using Cons wc by (simp add: a_def spec_recv_def queue_abs_def oldest_def)
      show ?thesis using queue_waiter_wakes(1,2) [OF assms(1,2), of w] wc q'(2,3) unfolding q'(1) a by (simp add: wake_opt_def)
    qed
  qed
  then show "fst (recv_cs B q out k) =
      (if fst a = None then -1 else 0, fst (snd a) \<noteq> None, case fst a of None \<Rightarrow> out | Some m \<Rightarrow> m)"
    "snd (snd (recv_cs B q out k)) = wake_opt B (fst (snd a)) k"
    "queue_abs B (fst (snd (recv_cs B q out k))) = snd (snd a)"
    "queue_wf B (fst (snd (recv_cs B q out k))) (wake_opt B (fst (snd a)) k)"
    "\<forall>w \<in> set_option (fst (snd a)). w < HARDRT_MAX_TASKS B \<and> state (g_tcbs k ! w) = HRT_BLOCKED"
    by blast+
qed

section \<open>Sending and receiving\<close>

context hrt_port
begin

lemma hook_queue_wf [simp]:
  "queue_wf B q (port_pend_context_switch B k) = queue_wf B q k"
  "queue_wf B q (snd (port_yield_to_scheduler B k)) = queue_wf B q k"
  "queue_wf B q (port_crit_enter B k) = queue_wf B q k" "queue_wf B q (port_crit_exit B k) = queue_wf B q k"
  by (simp_all add: queue_wf_def)

text \<open>After the critical section has woken at most one task: an interrupt handler is done, a task
  yields if it woke someone.\<close>

lemma wake_opt_isr:
  assumes "kinv B R k" "\<forall>w \<in> set_option wo. w < HARDRT_MAX_TASKS B \<and> state (g_tcbs k ! w) = HRT_BLOCKED"
  defines "k1 \<equiv> port_crit_exit B (wake_opt B wo (port_crit_enter B k))"
  shows "kinv B (R - set_option wo) k1" "g_error k1 = g_error k" "g_fault k1 = g_fault k"
    "g_current k1 = g_current k"
  using assms(1) wake_cs [OF assms(1), of "the wo"] assms(2)
  by (cases wo; simp add: k1_def wake_opt_def woken_def)+

lemma wake_opt_task:
  assumes "kinv B {c} k" "g_current k = int c" "c < HARDRT_MAX_TASKS B" "state (g_tcbs k ! c) = HRT_READY"
    "\<forall>w \<in> set_option wo. w < HARDRT_MAX_TASKS B \<and> state (g_tcbs k ! w) = HRT_BLOCKED"
    "queue_wf B q (wake_opt B wo (port_crit_enter B k))"
  defines "k1 \<equiv> port_crit_exit B (wake_opt B wo (port_crit_enter B k))"
  defines "k2 \<equiv> (if wo \<noteq> None then snd (hrt_yield B k1) else k1)"
  shows "kinv B (if wo = None then {c} else {}) k2" "queue_wf B q k2" "g_error k2 = g_error k"
    "g_fault k2 = g_fault k"
proof -
  have "kinv B (if wo = None then {c} else {}) k2 \<and> queue_wf B q k2 \<and> g_error k2 = g_error k \<and> g_fault k2 = g_fault k"
  proof (cases wo)
    case None
    then show ?thesis using assms(1,6) by (simp add: k2_def k1_def wake_opt_def)
  next
    case (Some w)
    then have w: "w < HARDRT_MAX_TASKS B" "state (g_tcbs k ! w) = HRT_BLOCKED" using assms(5) by simp_all
    have k1: "k1 = woken B w k" using Some by (simp add: k1_def wake_opt_def woken_def)
    note wy = wake_yield [OF assms(1-4) w, folded k1]
    note wk = wake_cs [OF assms(1) w, folded k1]
    have "queue_wf B q k1" using assms(6) Some by (simp add: k1 wake_opt_def woken_def)
    then have "queue_wf B q (snd (hrt_yield B k1))"
      by (rule queue_wf_tcbs) (use w assms(4) in \<open>auto simp: wy(2) wk(2) nth_update_if\<close>)
    then show ?thesis using wy Some by (simp add: k2_def)
  qed
  then show "kinv B (if wo = None then {c} else {}) k2" "queue_wf B q k2" "g_error k2 = g_error k"
    "g_fault k2 = g_fault k" by blast+
qed

lemma try_send_isr_refines:
  assumes "kinv B R k" "queue_wf B q k" "length x = unat (item_size q)"
  defines "a \<equiv> spec_send (unat (capacity q)) x (queue_abs B q)"
  defines "r \<equiv> hrt_queue_try_send_from_isr B q (Some x) k"
  shows "fst r = (QRet (if fst a then 0 else -1), fst (snd a) \<noteq> None)"
    and "queue_abs B (fst (snd r)) = snd (snd a)" and "queue_wf B (fst (snd r)) (snd (snd r))"
    and "kinv B (R - set_option (fst (snd a))) (snd (snd r))"
    and "g_error (snd (snd r)) = g_error k" "g_fault (snd (snd r)) = g_fault k"
proof -
  have i: "kinv B R (port_crit_enter B k)" "queue_wf B q (port_crit_enter B k)" using assms by simp_all
  note cs = send_cs_refines [OF i assms(3), folded a_def]
  have blocked: "\<forall>w \<in> set_option (fst (snd a)). w < HARDRT_MAX_TASKS B \<and> state (g_tcbs k ! w) = HRT_BLOCKED"
    using cs(5) by simp
  define k1 where "k1 = port_crit_exit B (wake_opt B (fst (snd a)) (port_crit_enter B k))"
  note w = wake_opt_isr [OF assms(1) blocked, folded k1_def]
  have eq: "r = (let s = send_cs B q x (port_crit_enter B k); k = port_crit_exit B (snd (snd s)) in
      ((QRet (fst (fst s)), snd (fst s)), fst (snd s), if snd (fst s) then port_pend_context_switch B k else k))"
    by (simp add: r_def hrt_queue_try_send_from_isr_def Let_def split_beta)
  have k2: "snd (snd r) = (if fst (snd a) \<noteq> None then port_pend_context_switch B k1 else k1)"
    by (simp add: eq Let_def cs(1,2) k1_def)
  show "fst r = (QRet (if fst a then 0 else -1), fst (snd a) \<noteq> None)"
    "queue_abs B (fst (snd r)) = snd (snd a)" "queue_wf B (fst (snd r)) (snd (snd r))"
    using cs(4) by (cases "fst (snd a)"; simp add: eq Let_def cs(1-3))+
  show "kinv B (R - set_option (fst (snd a))) (snd (snd r))"
    "g_error (snd (snd r)) = g_error k" "g_fault (snd (snd r)) = g_fault k"
    using w(1-3) by (auto simp: k2)
qed

lemma try_recv_isr_refines:
  assumes "kinv B R k" "queue_wf B q k" "length out = unat (item_size q)"
  defines "a \<equiv> spec_recv (queue_abs B q)"
  defines "r \<equiv> hrt_queue_try_recv_from_isr B q (Some out) k"
  shows "fst r = (QRet (if fst a = None then -1 else 0), fst (snd a) \<noteq> None,
      Some (case fst a of None \<Rightarrow> out | Some m \<Rightarrow> m))"
    and "queue_abs B (fst (snd r)) = snd (snd a)" and "queue_wf B (fst (snd r)) (snd (snd r))"
    and "kinv B (R - set_option (fst (snd a))) (snd (snd r))"
    and "g_error (snd (snd r)) = g_error k" "g_fault (snd (snd r)) = g_fault k"
proof -
  have i: "kinv B R (port_crit_enter B k)" "queue_wf B q (port_crit_enter B k)" using assms by simp_all
  note cs = recv_cs_refines [OF i assms(3), folded a_def]
  have blocked: "\<forall>w \<in> set_option (fst (snd a)). w < HARDRT_MAX_TASKS B \<and> state (g_tcbs k ! w) = HRT_BLOCKED"
    using cs(5) by simp
  define k1 where "k1 = port_crit_exit B (wake_opt B (fst (snd a)) (port_crit_enter B k))"
  note w = wake_opt_isr [OF assms(1) blocked, folded k1_def]
  have eq: "r = (let s = recv_cs B q out (port_crit_enter B k); k = port_crit_exit B (snd (snd s)) in
      ((QRet (fst (fst s)), fst (snd (fst s)), Some (snd (snd (fst s)))), fst (snd s),
       if fst (snd (fst s)) then port_pend_context_switch B k else k))"
    by (simp add: r_def hrt_queue_try_recv_from_isr_def Let_def split_beta)
  have k2: "snd (snd r) = (if fst (snd a) \<noteq> None then port_pend_context_switch B k1 else k1)"
    by (simp add: eq Let_def cs(1,2) k1_def)
  show "fst r = (QRet (if fst a = None then -1 else 0), fst (snd a) \<noteq> None,
      Some (case fst a of None \<Rightarrow> out | Some m \<Rightarrow> m))"
    "queue_abs B (fst (snd r)) = snd (snd a)" "queue_wf B (fst (snd r)) (snd (snd r))"
    using cs(4) by (cases "fst (snd a)"; simp add: eq Let_def cs(1-3))+
  show "kinv B (R - set_option (fst (snd a))) (snd (snd r))"
    "g_error (snd (snd r)) = g_error k" "g_fault (snd (snd r)) = g_fault k"
    using w(1-3) by (auto simp: k2)
qed

lemma try_send_refines:
  assumes "kinv B {c} k" "g_current k = int c" "c < HARDRT_MAX_TASKS B" "state (g_tcbs k ! c) = HRT_READY"
    "queue_wf B q k" "length x = unat (item_size q)"
  defines "a \<equiv> spec_send (unat (capacity q)) x (queue_abs B q)"
  defines "r \<equiv> hrt_queue_try_send B q (Some x) k"
  shows "fst r \<in> (if \<not> fst a then {QRet (-1)} else if fst (snd a) = None then {QRet 0} else {QRet 0, QHop})"
    and "queue_abs B (fst (snd r)) = snd (snd a)" and "queue_wf B (fst (snd r)) (snd (snd r))"
    and "kinv B (if fst (snd a) = None then {c} else {}) (snd (snd r))"
    and "g_error (snd (snd r)) = g_error k" "g_fault (snd (snd r)) = g_fault k"
    and "\<forall>w \<in> set_option (fst (snd a)). w < HARDRT_MAX_TASKS B \<and> state (g_tcbs k ! w) = HRT_BLOCKED"
    and "fst (snd a) = None \<Longrightarrow> fst r = QRet (if fst a then 0 else -1) \<and> snd (snd r) = port_crit_exit B (port_crit_enter B k)"
    and "fst (snd a) = Some w \<Longrightarrow> fst r = (if fst (hrt_yield B (woken B w k)) then QHop else QRet 0) \<and>
      snd (snd r) = snd (hrt_yield B (woken B w k))"
proof -
  have i: "kinv B {c} (port_crit_enter B k)" "queue_wf B q (port_crit_enter B k)" using assms by simp_all
  note cs = send_cs_refines [OF i assms(6), folded a_def]
  have blocked: "\<forall>w \<in> set_option (fst (snd a)). w < HARDRT_MAX_TASKS B \<and> state (g_tcbs k ! w) = HRT_BLOCKED"
    using cs(5) by simp
  define k1 where "k1 = port_crit_exit B (wake_opt B (fst (snd a)) (port_crit_enter B k))"
  note w = wake_opt_task [OF assms(1-4) blocked cs(4), folded k1_def]
  have eq: "r = (let s = send_cs B q x (port_crit_enter B k); k = port_crit_exit B (snd (snd s)) in
      (if snd (fst s) \<and> fst (hrt_yield B k) then QHop else QRet (fst (fst s)), fst (snd s),
       if snd (fst s) then snd (hrt_yield B k) else k))"
    by (simp add: r_def hrt_queue_try_send_def Let_def split_beta)
  have q2: "fst (snd r) = fst (snd (send_cs B q x (port_crit_enter B k)))" by (simp add: eq Let_def)
  have k2: "snd (snd r) = (if fst (snd a) \<noteq> None then snd (hrt_yield B k1) else k1)"
    by (simp add: eq Let_def cs(1,2) k1_def)
  show "fst r \<in> (if \<not> fst a then {QRet (-1)} else if fst (snd a) = None then {QRet 0} else {QRet 0, QHop})"
    using spec_send_none [of "unat (capacity q)" x "queue_abs B q"]
    by (cases "fst a"; cases "fst (snd a)") (simp_all add: eq Let_def cs(1) flip: a_def)
  show "queue_abs B (fst (snd r)) = snd (snd a)" by (simp add: eq Let_def cs(3))
  show "queue_wf B (fst (snd r)) (snd (snd r))" "kinv B (if fst (snd a) = None then {c} else {}) (snd (snd r))"
    "g_error (snd (snd r)) = g_error k" "g_fault (snd (snd r)) = g_fault k"
    using w by (simp_all only: k2 q2)
  show "\<forall>w \<in> set_option (fst (snd a)). w < HARDRT_MAX_TASKS B \<and> state (g_tcbs k ! w) = HRT_BLOCKED" by (rule blocked)
  show "fst r = QRet (if fst a then 0 else -1) \<and> snd (snd r) = port_crit_exit B (port_crit_enter B k)" if "fst (snd a) = None"
    using that by (simp add: eq Let_def cs(1,2) wake_opt_def)
  show "fst r = (if fst (hrt_yield B (woken B w k)) then QHop else QRet 0) \<and> snd (snd r) = snd (hrt_yield B (woken B w k))"
    if "fst (snd a) = Some w"
    using that spec_send_none [of "unat (capacity q)" x "queue_abs B q"]
    by (cases "fst a") (simp_all add: eq Let_def cs(1,2) wake_opt_def woken_def flip: a_def)
qed

lemma try_recv_refines:
  assumes "kinv B {c} k" "g_current k = int c" "c < HARDRT_MAX_TASKS B" "state (g_tcbs k ! c) = HRT_READY"
    "queue_wf B q k" "length out = unat (item_size q)"
  defines "a \<equiv> spec_recv (queue_abs B q)"
  defines "r \<equiv> hrt_queue_try_recv B q (Some out) k"
  shows "fst (fst r) \<in> (if fst a = None then {QRet (-1)} else if fst (snd a) = None then {QRet 0} else {QRet 0, QHop})"
    and "snd (fst r) = Some (case fst a of None \<Rightarrow> out | Some m \<Rightarrow> m)"
    and "queue_abs B (fst (snd r)) = snd (snd a)" and "queue_wf B (fst (snd r)) (snd (snd r))"
    and "kinv B (if fst (snd a) = None then {c} else {}) (snd (snd r))"
    and "g_error (snd (snd r)) = g_error k" "g_fault (snd (snd r)) = g_fault k"
    and "\<forall>w \<in> set_option (fst (snd a)). w < HARDRT_MAX_TASKS B \<and> state (g_tcbs k ! w) = HRT_BLOCKED"
    and "fst (snd a) = None \<Longrightarrow> fst (fst r) = QRet (if fst a = None then -1 else 0) \<and>
      snd (snd r) = port_crit_exit B (port_crit_enter B k)"
    and "fst (snd a) = Some w \<Longrightarrow> fst (fst r) = (if fst (hrt_yield B (woken B w k)) then QHop else QRet 0) \<and>
      snd (snd r) = snd (hrt_yield B (woken B w k))"
proof -
  have i: "kinv B {c} (port_crit_enter B k)" "queue_wf B q (port_crit_enter B k)" using assms by simp_all
  note cs = recv_cs_refines [OF i assms(6), folded a_def]
  have blocked: "\<forall>w \<in> set_option (fst (snd a)). w < HARDRT_MAX_TASKS B \<and> state (g_tcbs k ! w) = HRT_BLOCKED"
    using cs(5) by simp
  define k1 where "k1 = port_crit_exit B (wake_opt B (fst (snd a)) (port_crit_enter B k))"
  note w = wake_opt_task [OF assms(1-4) blocked cs(4), folded k1_def]
  have eq: "r = (let s = recv_cs B q out (port_crit_enter B k); k = port_crit_exit B (snd (snd s)) in
      if fst (snd (fst s))
      then ((if fst (hrt_yield B k) then QHop else QRet (fst (fst s)), Some (snd (snd (fst s)))), fst (snd s),
            snd (hrt_yield B k))
      else ((QRet (fst (fst s)), Some (snd (snd (fst s)))), fst (snd s), k))"
    by (simp add: r_def hrt_queue_try_recv_def Let_def split_beta)
  have q2: "fst (snd r) = fst (snd (recv_cs B q out (port_crit_enter B k)))" by (simp add: eq Let_def)
  have k2: "snd (snd r) = (if fst (snd a) \<noteq> None then snd (hrt_yield B k1) else k1)"
    by (simp add: eq Let_def cs(1,2) k1_def)
  show "fst (fst r) \<in> (if fst a = None then {QRet (-1)} else if fst (snd a) = None then {QRet 0} else {QRet 0, QHop})"
    using spec_recv_none [of "queue_abs B q"] by (cases "fst a"; cases "fst (snd a)") (simp_all add: eq Let_def cs(1) flip: a_def)
  show "snd (fst r) = Some (case fst a of None \<Rightarrow> out | Some m \<Rightarrow> m)"
    "queue_abs B (fst (snd r)) = snd (snd a)" by (cases "fst (snd a)"; simp add: eq Let_def cs(1,3))+
  show "queue_wf B (fst (snd r)) (snd (snd r))" "kinv B (if fst (snd a) = None then {c} else {}) (snd (snd r))"
    "g_error (snd (snd r)) = g_error k" "g_fault (snd (snd r)) = g_fault k"
    using w by (simp_all only: k2 q2)
  show "\<forall>w \<in> set_option (fst (snd a)). w < HARDRT_MAX_TASKS B \<and> state (g_tcbs k ! w) = HRT_BLOCKED" by (rule blocked)
  show "fst (fst r) = QRet (if fst a = None then -1 else 0) \<and> snd (snd r) = port_crit_exit B (port_crit_enter B k)"
    if "fst (snd a) = None" using that by (simp add: eq Let_def cs(1,2) wake_opt_def)
  show "fst (fst r) = (if fst (hrt_yield B (woken B w k)) then QHop else QRet 0) \<and> snd (snd r) = snd (hrt_yield B (woken B w k))"
    if "fst (snd a) = Some w"
    using that spec_recv_none [of "queue_abs B q"]
    by (cases "fst a") (simp_all add: eq Let_def cs(1,2) wake_opt_def woken_def flip: a_def)
qed

text \<open>A sender that still finds the queue full parks itself behind the waiting senders, and a
  receiver that still finds it empty behind the waiting receivers.\<close>

lemma send_slow_parks:
  fixes x :: "u8 list"
  assumes "kinv B {c} k" "g_current k = int c" "c < HARDRT_MAX_TASKS B" "state (g_tcbs k ! c) = HRT_READY"
    "queue_wf B q k" "length (queue_msgs q) = unat (capacity q)"
  defines "r \<equiv> queue_send_slow B q x k"
  shows "fst r = (QRetry, fst (port_yield_to_scheduler B (parked B c k)))"
    and "queue_abs B (fst (snd r)) = (queue_msgs q, rx_waiters B q, tx_waiters B q @ [c])"
    and "queue_wf B (fst (snd r)) (snd (snd r))" and "kinv B {} (snd (snd r))"
    and "g_tcbs (snd (snd r)) = (g_tcbs k)[c := (g_tcbs k ! c)\<lparr>state := HRT_BLOCKED\<rparr>]"
    and "rq_list B (snd (snd r)) = rq_list B k"
    and "g_error (snd (snd r)) = g_error k" "g_fault (snd (snd r)) = g_fault k"
proof -
  note sz = kwf_sizes [OF kinv_kwf [OF assms(1)]]
  note rings = queue_wf_rings [OF assms(5)]
  have nc: "c \<notin> set (rx_waiters B q) \<union> set (tx_waiters B q)"
    using queue_wf_waiter(2) [OF assms(5), of c] assms(4) by auto
  have room: "length (tx_waiters B q) < HARDRT_MAX_TASKS B"
    using assms(3,5) nc queue_wf_waiter(1) [OF assms(5)]
    by (intro distinct_bounded_length_less [where y = c]) (auto simp: queue_wf_def)
  define q' where "q' = tx_push B (word_of_nat c) q"
  note push = tx_push_room(1,2) [OF rings(3) assms(3) room, folded q'_def]
  define k1 where "k1 = parked B c k"
  note bh = block_hop [OF assms(1,3,4), folded k1_def]
  have eq: "r = ((QRetry, fst (port_yield_to_scheduler B k1)), q', snd (port_yield_to_scheduler B k1))"
    using assms(2,3,6) sz rings(1)
    by (simp add: r_def queue_send_slow_def hrt__get_current_def Let_def k1_def parked_def q'_def split_beta
        length_queue_msgs word_less_nat_alt)
  show "fst r = (QRetry, fst (port_yield_to_scheduler B (parked B c k)))" by (simp add: eq k1_def)
  show "queue_abs B (fst (snd r)) = (queue_msgs q, rx_waiters B q, tx_waiters B q @ [c])" using push(2) by (simp add: eq queue_abs_def q'_def)
  have "queue_wf B q' (k\<lparr>g_tcbs := (g_tcbs k)[c := (g_tcbs k ! c)\<lparr>state := HRT_BLOCKED\<rparr>]\<rparr>)"
    using assms(3,5) push nc sz by (auto simp: queue_wf_def q'_def nth_update_if)
  then show "queue_wf B (fst (snd r)) (snd (snd r))" by (simp add: eq queue_wf_def k1_def parked_def)
  show "kinv B {} (snd (snd r))"
    "g_tcbs (snd (snd r)) = (g_tcbs k)[c := (g_tcbs k ! c)\<lparr>state := HRT_BLOCKED\<rparr>]"
    "rq_list B (snd (snd r)) = rq_list B k"
    "g_error (snd (snd r)) = g_error k" "g_fault (snd (snd r)) = g_fault k"
    using bh by (simp_all add: eq)
qed

lemma recv_slow_parks:
  fixes out :: "u8 list"
  assumes "kinv B {c} k" "g_current k = int c" "c < HARDRT_MAX_TASKS B" "state (g_tcbs k ! c) = HRT_READY"
    "queue_wf B q k" "queue_msgs q = []"
  defines "r \<equiv> queue_recv_slow B q out k"
  shows "fst r = (QRetry, fst (port_yield_to_scheduler B (parked B c k)), out)"
    and "queue_abs B (fst (snd r)) = (queue_msgs q, rx_waiters B q @ [c], tx_waiters B q)"
    and "queue_wf B (fst (snd r)) (snd (snd r))" and "kinv B {} (snd (snd r))"
    and "g_tcbs (snd (snd r)) = (g_tcbs k)[c := (g_tcbs k ! c)\<lparr>state := HRT_BLOCKED\<rparr>]"
    and "rq_list B (snd (snd r)) = rq_list B k"
    and "g_error (snd (snd r)) = g_error k" "g_fault (snd (snd r)) = g_fault k"
proof -
  note sz = kwf_sizes [OF kinv_kwf [OF assms(1)]]
  note rings = queue_wf_rings [OF assms(5)]
  have nc: "c \<notin> set (rx_waiters B q) \<union> set (tx_waiters B q)"
    using queue_wf_waiter(2) [OF assms(5), of c] assms(4) by auto
  have room: "length (rx_waiters B q) < HARDRT_MAX_TASKS B"
    using assms(3,5) nc queue_wf_waiter(1) [OF assms(5)]
    by (intro distinct_bounded_length_less [where y = c]) (auto simp: queue_wf_def)
  define q' where "q' = rx_push B (word_of_nat c) q"
  note push = rx_push_room(1,2) [OF rings(2) assms(3) room, folded q'_def]
  define k1 where "k1 = parked B c k"
  note bh = block_hop [OF assms(1,3,4), folded k1_def]
  have eq: "r = ((QRetry, fst (port_yield_to_scheduler B k1), out), q', snd (port_yield_to_scheduler B k1))"
    using assms(2,3,6) sz rings(1)
    by (simp add: r_def queue_recv_slow_def hrt__get_current_def Let_def k1_def parked_def q'_def split_beta
        queue_msgs_Nil_iff)
  show "fst r = (QRetry, fst (port_yield_to_scheduler B (parked B c k)), out)" by (simp add: eq k1_def)
  show "queue_abs B (fst (snd r)) = (queue_msgs q, rx_waiters B q @ [c], tx_waiters B q)" using push(2) by (simp add: eq queue_abs_def q'_def)
  have "queue_wf B q' (k\<lparr>g_tcbs := (g_tcbs k)[c := (g_tcbs k ! c)\<lparr>state := HRT_BLOCKED\<rparr>]\<rparr>)"
    using assms(3,5) push nc sz by (auto simp: queue_wf_def q'_def nth_update_if)
  then show "queue_wf B (fst (snd r)) (snd (snd r))" by (simp add: eq queue_wf_def k1_def parked_def)
  show "kinv B {} (snd (snd r))"
    "g_tcbs (snd (snd r)) = (g_tcbs k)[c := (g_tcbs k ! c)\<lparr>state := HRT_BLOCKED\<rparr>]"
    "rq_list B (snd (snd r)) = rq_list B k"
    "g_error (snd (snd r)) = g_error k" "g_fault (snd (snd r)) = g_fault k"
    using bh by (simp_all add: eq)
qed

text \<open>The blocking calls return: with room or a message at once, and otherwise at the hop, provided
  the hop leaves the caller.\<close>

lemma queue_send_room:
  assumes "kinv B {c} k" "g_current k = int c" "c < HARDRT_MAX_TASKS B" "state (g_tcbs k ! c) = HRT_READY"
    "queue_wf B q k" "length x = unat (item_size q)" "length (queue_msgs q) < unat (capacity q)"
  shows "hrt_queue_send B q (Some x) k = Some (hrt_queue_try_send B q (Some x) k)"
proof -
  obtain r q' k' where t: "hrt_queue_try_send B q (Some x) k = (r, q', k')" by (cases "hrt_queue_try_send B q (Some x) k")
  have "r = QRet 0 \<or> r = QHop"
    using try_send_refines(1) [OF assms(1-6)] assms(7) t
    by (auto simp: spec_send_def queue_abs_def split: if_splits)
  then show ?thesis
    by (simp add: hrt_queue_send_def queue_send_loop.simps [of B q x k] queue_send_iter_def t)
qed

lemma queue_send_full:
  assumes "kinv B {c} k" "g_current k = int c" "c < HARDRT_MAX_TASKS B" "state (g_tcbs k ! c) = HRT_READY"
    "queue_wf B q k" "length x = unat (item_size q)" "length (queue_msgs q) = unat (capacity q)"
    "fst (port_yield_to_scheduler B (parked B c (port_crit_exit B (port_crit_enter B k))))"
  shows "hrt_queue_send B q (Some x) k =
    Some (QRetry, snd (queue_send_slow B q x (port_crit_exit B (port_crit_enter B k))))"
proof -
  let ?k = "port_crit_exit B (port_crit_enter B k)"
  have t: "hrt_queue_try_send B q (Some x) k = (QRet (-1), q, ?k)"
    using enqueue_full [OF queue_wf_rings(1) [OF assms(5)] assms(7)]
    by (simp add: hrt_queue_try_send_def send_cs_def Let_def)
  have "kinv B {c} ?k" "g_current ?k = int c" "state (g_tcbs ?k ! c) = HRT_READY" "queue_wf B q ?k"
    using assms(1,2,4,5) by simp_all
  from send_slow_parks(1) [OF this(1,2) assms(3) this(3,4) assms(7), of x]
  have "fst (queue_send_slow B q x ?k) = (QRetry, True)" using assms(8) by simp
  then show ?thesis
    by (simp add: hrt_queue_send_def queue_send_loop.simps [of B q x k] queue_send_iter_def t split_beta)
qed

lemma queue_recv_ready:
  assumes "kinv B {c} k" "g_current k = int c" "c < HARDRT_MAX_TASKS B" "state (g_tcbs k ! c) = HRT_READY"
    "queue_wf B q k" "length out = unat (item_size q)" "queue_msgs q \<noteq> []"
  shows "hrt_queue_recv B q (Some out) k = Some (hrt_queue_try_recv B q (Some out) k)"
proof -
  obtain r x q' k' where t: "hrt_queue_try_recv B q (Some out) k = ((r, x), q', k')"
    by (metis prod.exhaust)
  obtain m ms where m: "queue_msgs q = m # ms" using assms(7) by (cases "queue_msgs q") auto
  have r: "r = QRet 0 \<or> r = QHop"
    using try_recv_refines(1) [OF assms(1-6)] m t
    by (auto simp: spec_recv_def queue_abs_def split: if_splits)
  have "x = Some m" using try_recv_refines(2) [OF assms(1-6)] m t by (simp add: spec_recv_def queue_abs_def)
  with r show ?thesis
    by (simp add: hrt_queue_recv_def queue_recv_loop.simps [of B q out k] queue_recv_iter_def t)
qed

lemma queue_recv_empty:
  assumes "kinv B {c} k" "g_current k = int c" "c < HARDRT_MAX_TASKS B" "state (g_tcbs k ! c) = HRT_READY"
    "queue_wf B q k" "queue_msgs q = []"
    "fst (port_yield_to_scheduler B (parked B c (port_crit_exit B (port_crit_enter B k))))"
  shows "hrt_queue_recv B q (Some out) k =
    Some ((QRetry, Some out), snd (queue_recv_slow B q out (port_crit_exit B (port_crit_enter B k))))"
proof -
  let ?k = "port_crit_exit B (port_crit_enter B k)"
  have t: "hrt_queue_try_recv B q (Some out) k = ((QRet (-1), Some out), q, ?k)"
    by (simp add: hrt_queue_try_recv_def recv_cs_def dequeue_empty [OF assms(6)] Let_def)
  have "kinv B {c} ?k" "g_current ?k = int c" "state (g_tcbs ?k ! c) = HRT_READY" "queue_wf B q ?k"
    using assms(1,2,4,5) by simp_all
  from recv_slow_parks(1) [OF this(1,2) assms(3) this(3,4) assms(6), of out]
  have "fst (queue_recv_slow B q out ?k) = (QRetry, True, out)" using assms(7) by simp
  then show ?thesis
    by (simp add: hrt_queue_recv_def queue_recv_loop.simps [of B q out k] queue_recv_iter_def t split_beta)
qed

text \<open>Room or a message that appears between the fast path and the critical section is used without
  parking. The waiter this wakes is made ready, but here the code neither yields nor asks for a
  switch.\<close>

lemma send_slow_room:
  assumes "kinv B {c} k" "g_current k = int c" "c < HARDRT_MAX_TASKS B" "state (g_tcbs k ! c) = HRT_READY"
    "queue_wf B q k" "length x = unat (item_size q)" "length (queue_msgs q) < unat (capacity q)"
  defines "a \<equiv> spec_send (unat (capacity q)) x (queue_abs B q)"
  defines "r \<equiv> queue_send_slow B q x k"
  shows "fst r = (QRet 0, True)" "queue_abs B (fst (snd r)) = snd (snd a)"
    "queue_wf B (fst (snd r)) (snd (snd r))" "kinv B {c} (snd (snd r))"
    "snd (snd r) = port_crit_exit B (wake_opt B (fst (snd a)) (port_crit_enter B k))"
proof -
  let ?k = "port_crit_enter B k"
  have i: "kinv B {c} ?k" "queue_wf B q ?k" using assms by simp_all
  note e = enqueue_room(1) [OF queue_wf_rings(1) [OF assms(5)] assms(6,7)]
  note cs = send_cs_refines [OF i assms(6), folded a_def]
  have sc: "send_cs B q x ?k = (let (w, q') = rx_pop B (snd (enqueue_cs q x)) in
      if w \<ge> 0 then ((0, True), q', hrt__make_ready B w ?k) else ((0, False), q', ?k))"
    using e by (simp add: send_cs_def split_beta Let_def)
  have "q_count q < capacity q" using assms(7) by (simp add: length_queue_msgs word_less_nat_alt)
  then have "r = (let (w, q') = rx_pop B (snd (enqueue_cs q x)) in
      ((QRet 0, True), q', port_crit_exit B (if w \<ge> 0 then hrt__make_ready B w ?k else ?k)))"
    using e by (simp add: r_def queue_send_slow_def Let_def split_beta)
  then have eq: "r = ((QRet 0, True), fst (snd (send_cs B q x ?k)), port_crit_exit B (snd (snd (send_cs B q x ?k))))"
    unfolding sc by (simp add: Let_def split_beta)
  show "fst r = (QRet 0, True)" "queue_abs B (fst (snd r)) = snd (snd a)"
    "queue_wf B (fst (snd r)) (snd (snd r))"
    "snd (snd r) = port_crit_exit B (wake_opt B (fst (snd a)) ?k)"
    using cs(4) by (simp_all add: eq cs(2,3))
  have "\<forall>w \<in> set_option (fst (snd a)). w < HARDRT_MAX_TASKS B \<and> state (g_tcbs k ! w) = HRT_BLOCKED"
    using cs(5) by simp
  moreover from this have "{c} - set_option (fst (snd a)) = {c}" using assms(4) by auto
  ultimately show "kinv B {c} (snd (snd r))"
    using wake_opt_isr(1) [OF assms(1), of "fst (snd a)"] by (simp add: eq cs(2))
qed

lemma recv_slow_ready:
  assumes "kinv B {c} k" "g_current k = int c" "c < HARDRT_MAX_TASKS B" "state (g_tcbs k ! c) = HRT_READY"
    "queue_wf B q k" "length out = unat (item_size q)" "queue_msgs q = m # ms"
  defines "a \<equiv> spec_recv (queue_abs B q)"
  defines "r \<equiv> queue_recv_slow B q out k"
  shows "fst r = (QRet 0, True, m)" "queue_abs B (fst (snd r)) = snd (snd a)"
    "queue_wf B (fst (snd r)) (snd (snd r))" "kinv B {c} (snd (snd r))"
    "snd (snd r) = port_crit_exit B (wake_opt B (fst (snd a)) (port_crit_enter B k))"
proof -
  let ?k = "port_crit_enter B k"
  have i: "kinv B {c} ?k" "queue_wf B q ?k" using assms by simp_all
  note cs = recv_cs_refines [OF i assms(6), folded a_def]
  note ring = queue_wf_rings(1) [OF assms(5)]
  have d: "fst (dequeue_cs q out) = 0" "fst (snd (dequeue_cs q out)) = m"
    using dequeue_Cons(1,2) [OF ring assms(7), of out] dequeue_Cons(6) [OF ring assms(7)] assms(6) by simp_all
  have sc: "recv_cs B q out ?k = (let (w, q') = tx_pop B (snd (snd (dequeue_cs q out))) in
      if w \<ge> 0 then ((0, True, m), q', hrt__make_ready B w ?k) else ((0, False, m), q', ?k))"
    using d by (simp add: recv_cs_def split_beta Let_def)
  have "q_count q \<noteq> 0" using assms(7) queue_msgs_Nil_iff [of q] by auto
  then have "r = (let (w, q') = tx_pop B (snd (snd (dequeue_cs q out))) in
      ((QRet 0, True, m), q', port_crit_exit B (if w \<ge> 0 then hrt__make_ready B w ?k else ?k)))"
    using d by (simp add: r_def queue_recv_slow_def Let_def split_beta)
  then have eq: "r = ((QRet 0, True, m), fst (snd (recv_cs B q out ?k)), port_crit_exit B (snd (snd (recv_cs B q out ?k))))"
    unfolding sc by (simp add: Let_def split_beta)
  show "fst r = (QRet 0, True, m)" "queue_abs B (fst (snd r)) = snd (snd a)"
    "queue_wf B (fst (snd r)) (snd (snd r))"
    "snd (snd r) = port_crit_exit B (wake_opt B (fst (snd a)) ?k)"
    using cs(4) by (simp_all add: eq cs(2,3))
  have "\<forall>w \<in> set_option (fst (snd a)). w < HARDRT_MAX_TASKS B \<and> state (g_tcbs k ! w) = HRT_BLOCKED"
    using cs(5) by simp
  moreover from this have "{c} - set_option (fst (snd a)) = {c}" using assms(4) by auto
  ultimately show "kinv B {c} (snd (snd r))"
    using wake_opt_isr(1) [OF assms(1), of "fst (snd a)"] by (simp add: eq cs(2))
qed

end

lemma queue_init_wf:
  assumes "valid_build B" "length (rx_q q) = HARDRT_MAX_TASKS B" "length (tx_q q) = HARDRT_MAX_TASKS B"
    "0 < cap" "0 < sz" "length bytes = unat cap * unat sz" "length bytes < 2 ^ 32"
  shows "fst (hrt_queue_init (Some bytes) cap sz q) = QRet 0"
    "queue_wf B (snd (hrt_queue_init (Some bytes) cap sz q)) k"
    "queue_abs B (snd (hrt_queue_init (Some bytes) cap sz q)) = ([], [], [])"
    "capacity (snd (hrt_queue_init (Some bytes) cap sz q)) = cap"
    "item_size (snd (hrt_queue_init (Some bytes) cap sz q)) = sz"
proof -
  note N = valid_build_bounds [OF assms(1)]
  have ring: "ring_ok (HARDRT_MAX_TASKS B) xs (0 :: u8) 0 0" if "length xs = HARDRT_MAX_TASKS B" for xs :: "u8 list"
    using that N by (intro ring_ok_init) simp_all
  have "unat cap < 2 ^ LENGTH(16)" by (rule unsigned_less)
  then have m: "ring_ok (unat cap) (chunks (unat cap) (unat sz) bytes) (0 :: u16) 0 0"
    using assms(4) by (intro ring_ok_init) (simp_all add: unat_gt_0 word_neq_0_conv)
  show "fst (hrt_queue_init (Some bytes) cap sz q) = QRet 0"
    "queue_abs B (snd (hrt_queue_init (Some bytes) cap sz q)) = ([], [], [])"
    "capacity (snd (hrt_queue_init (Some bytes) cap sz q)) = cap"
    "item_size (snd (hrt_queue_init (Some bytes) cap sz q)) = sz"
    using assms(4,5) by (simp_all add: hrt_queue_init_def queue_abs_def queue_parts wq_list_def)
  show "queue_wf B (snd (hrt_queue_init (Some bytes) cap sz q)) k"
    using assms m ring by (simp add: hrt_queue_init_def queue_wf_def queue_parts wq_ok_def wq_list_def word_less_nat_alt)
qed

end
