(* ===== verification/HRT_Port_Posix.thy ===== *)
theory HRT_Port_Posix
  imports HRT_Queue
begin

text \<open>
  The POSIX port, \<open>src/port/posix/port_posix.c\<close>.

  The record \<open>posix\<close> adds the port's variables to the kernel, and what the port uses of the
  host: whether \<open>SIGALRM\<close> is blocked (\<open>sig_blocked\<close>), whether the tick handler is installed, the
  interval timer in microseconds (0 when disarmed), and who has the processor (\<open>cpu\<close>). A
  \<open>ucontext_t\<close> is its stack, its link, its signal mask and where it continues: at the
  trampoline, or in \<open>hrt_port_yield_to_scheduler\<close> with the mask saved there.

  \<open>hrt_port_enter_scheduler\<close> does not return (but for the test hook), so it only hands the
  processor to the scheduler loop; \<open>posix_sched_pass\<close> is one pass of the loop up to the switch
  into a task and \<open>posix_sched_back\<close> what follows when the task has switched back. \<open>hooks\<close> says
  whether the port is built with \<open>HARDRT_TEST_HOOKS\<close>. \<open>long\<close> has 64 bits.
\<close>

section \<open>Port state\<close>

datatype resume_at = AtTrampoline | InYield bool

record ucontext =
  ss_sp :: uintptr
  ss_size :: size_t
  uc_link :: bool
  uc_blocked :: bool
  uc_resume :: resume_at

record port_ctx =
  ctx :: ucontext
  stk_ptr :: uintptr
  stk_bytes :: size_t
  valid :: bool

datatype where_cpu = InMain | LoopTop | LoopBack | InTask nat

record posix = kernel +
  g_crit_depth :: int
  g_ctxs :: "port_ctx list"
  g_sched_blocked :: bool
  g_sched_old :: bool
  g_switch_pending :: bool
  g_sigalrm_set :: bool
  g_test_stop :: bool
  g_idle_counter :: u64
  sig_blocked :: bool
  sig_handler :: bool
  itimer_usec :: int
  cpu :: where_cpu

section \<open>Signals and critical sections\<close>

text \<open>\<open>sigprocmask\<close> with the set the port keeps: the set is empty until the port has started its
  timer, and blocking it then changes nothing.\<close>

definition block_sigalrm :: "posix \<Rightarrow> bool \<times> posix" where
  "block_sigalrm k = (sig_blocked k, k\<lparr>sig_blocked := (sig_blocked k \<or> g_sigalrm_set k)\<rparr>)"

definition unblock_sigalrm :: "bool \<Rightarrow> posix \<Rightarrow> posix" where
  "unblock_sigalrm old k = k\<lparr>sig_blocked := old\<rparr>"

definition posix_crit_enter :: "posix \<Rightarrow> posix" where
  "posix_crit_enter k =
     (let outermost = (g_crit_depth k = 0);
          k = k\<lparr>g_crit_depth := g_crit_depth k + 1\<rparr>
      in if outermost then k\<lparr>sig_blocked := (sig_blocked k \<or> g_sigalrm_set k)\<rparr> else k)"

definition posix_crit_exit :: "posix \<Rightarrow> posix" where
  "posix_crit_exit k =
     (let k = k\<lparr>g_crit_depth := g_crit_depth k - 1\<rparr>
      in if g_crit_depth k = 0
         then k\<lparr>sig_blocked := (sig_blocked k \<and> \<not> g_sigalrm_set k)\<rparr> else k)"

section \<open>Test hooks\<close>

definition hrt__test_stop_scheduler :: "posix \<Rightarrow> posix" where
  "hrt__test_stop_scheduler k = k\<lparr>g_test_stop := True\<rparr>"

definition hrt__test_reset_scheduler_state :: "posix \<Rightarrow> posix" where
  "hrt__test_reset_scheduler_state k = k\<lparr>g_test_stop := False, g_switch_pending := True\<rparr>"

definition hrt__test_idle_counter_reset :: "posix \<Rightarrow> posix" where
  "hrt__test_idle_counter_reset k = k\<lparr>g_idle_counter := 0\<rparr>"

definition hrt__test_idle_counter_value :: "posix \<Rightarrow> u64" where
  "hrt__test_idle_counter_value k = g_idle_counter k"

fun tick_times :: "posix build \<Rightarrow> nat \<Rightarrow> posix \<Rightarrow> posix" where
  "tick_times B 0 k = k"
| "tick_times B (Suc n) k = tick_times B n (hrt__tick_isr B k)"

definition hrt__test_fast_forward_ticks :: "posix build \<Rightarrow> u32 \<Rightarrow> posix \<Rightarrow> posix" where
  "hrt__test_fast_forward_ticks B delta k =
     (case block_sigalrm k of (old, k) \<Rightarrow> unblock_sigalrm old (tick_times B (unat delta) k))"

definition hrt__test_block_sigalrm :: "posix \<Rightarrow> posix" where
  "hrt__test_block_sigalrm k = k\<lparr>sig_blocked := (sig_blocked k \<or> g_sigalrm_set k)\<rparr>"

definition hrt__test_unblock_sigalrm :: "posix \<Rightarrow> posix" where
  "hrt__test_unblock_sigalrm k = k\<lparr>sig_blocked := (sig_blocked k \<and> \<not> g_sigalrm_set k)\<rparr>"

section \<open>Hooks\<close>

definition posix_prepare_task_stack :: "int \<Rightarrow> uintptr \<Rightarrow> uintptr \<Rightarrow> size_t \<Rightarrow> posix \<Rightarrow> posix" where
  "posix_prepare_task_stack i tramp base n k =
     (let bytes = n * 4;
          c = \<lparr>ctx = \<lparr>ss_sp = base, ss_size = bytes, uc_link = True,
                      uc_blocked = sig_blocked k, uc_resume = AtTrampoline\<rparr>,
               stk_ptr = base, stk_bytes = bytes, valid = True\<rparr>
      in k\<lparr>g_ctxs := (g_ctxs k)[nat i := c]\<rparr>)"

definition setitimer :: "int \<Rightarrow> posix \<Rightarrow> posix" where
  "setitimer usec k = (if 0 \<le> usec \<and> usec < 1000000 then k\<lparr>itimer_usec := usec\<rparr> else k)"

definition posix_start_systick :: "u32 \<Rightarrow> posix \<Rightarrow> posix" where
  "posix_start_systick tick_hz k =
     (if hrt__cfg_tick_src k = HRT_TICK_EXTERNAL then k
      else
        let k = k\<lparr>g_sigalrm_set := True\<rparr>;
            k = k\<lparr>sig_handler := True\<rparr>;
            usec = (if tick_hz \<noteq> 0 then 1000000 div uint tick_hz else 1000)
        in setitimer usec k)"

definition posix_idle_wait :: "bool \<Rightarrow> posix \<Rightarrow> posix" where
  "posix_idle_wait hooks k = (if hooks then k\<lparr>g_idle_counter := g_idle_counter k + 1\<rparr> else k)"

definition posix_pend_context_switch :: "posix \<Rightarrow> posix" where
  "posix_pend_context_switch k = k\<lparr>g_switch_pending := True\<rparr>"

definition posix_yield_to_scheduler :: "nat \<Rightarrow> posix \<Rightarrow> bool \<times> posix" where
  "posix_yield_to_scheduler n k =
     (let cur = hrt__get_current k in
      if cur < 0 \<or> cur = int n - 1 \<or> \<not> valid (g_ctxs k ! nat cur) then (False, k)
      else case block_sigalrm k of
        (old, k) \<Rightarrow>
          let c = g_ctxs k ! nat cur;
              c = c\<lparr>ctx := (ctx c)\<lparr>uc_blocked := sig_blocked k, uc_resume := InYield old\<rparr>\<rparr>
          in (True, k\<lparr>g_ctxs := (g_ctxs k)[nat cur := c], sig_blocked := g_sched_blocked k, cpu := LoopBack\<rparr>))"

definition posix_enter_scheduler :: "posix \<Rightarrow> posix" where
  "posix_enter_scheduler k = k\<lparr>cpu := LoopTop\<rparr>"

definition posix_sp_valid :: "uintptr \<Rightarrow> posix \<Rightarrow> posix" where
  "posix_sp_valid s k = k"

definition posix_init_idle_task :: "posix \<Rightarrow> posix" where
  "posix_init_idle_task k = k"

definition posix_build :: "nat \<Rightarrow> nat \<Rightarrow> bool \<Rightarrow> uintptr \<Rightarrow> posix build" where
  "posix_build n p dbg tramp =
     \<lparr>HARDRT_MAX_TASKS = n, HARDRT_MAX_PRIO = p, HARDRT_DEBUG = dbg, sym_task_trampoline = tramp,
      port_start_systick = posix_start_systick, port_init_idle_task = posix_init_idle_task,
      port_prepare_task_stack = posix_prepare_task_stack, port_enter_scheduler = posix_enter_scheduler,
      port_pend_context_switch = posix_pend_context_switch,
      port_yield_to_scheduler = posix_yield_to_scheduler n,
      port_crit_enter = posix_crit_enter, port_crit_exit = posix_crit_exit\<rparr>"

section \<open>Tick, scheduler loop and trampoline\<close>

definition tick_sighandler :: "posix build \<Rightarrow> posix \<Rightarrow> posix" where
  "tick_sighandler B k = (hrt__tick_isr B k)\<lparr>g_switch_pending := True\<rparr>"

text \<open>The switch into a task: the context's mask comes back, and a task that had yielded goes on
  to restore the mask it had before.\<close>

definition swap_in :: "nat \<Rightarrow> posix \<Rightarrow> posix" where
  "swap_in i k =
     (let u = ctx (g_ctxs k ! i);
          k = k\<lparr>g_sched_blocked := sig_blocked k, sig_blocked := uc_blocked u, cpu := InTask i\<rparr>
      in case uc_resume u of AtTrampoline \<Rightarrow> k | InYield old \<Rightarrow> unblock_sigalrm old k)"

definition posix_sched_pass :: "bool \<Rightarrow> posix build \<Rightarrow> posix \<Rightarrow> posix" where
  "posix_sched_pass hooks B k =
     (if hooks \<and> g_test_stop k then (setitimer 0 k)\<lparr>cpu := InMain\<rparr>
      else if \<not> g_switch_pending k then posix_idle_wait hooks k
      else
        let k = k\<lparr>g_switch_pending := False\<rparr>;
            (old, k) = block_sigalrm k;
            k = k\<lparr>g_sched_old := old\<rparr>;
            (next, k) = hrt__pick_next_ready B k
        in if next < 0 \<or> next = HRT_IDLE_ID B
           then posix_idle_wait hooks (unblock_sigalrm old k)
           else swap_in (nat next) (hrt__set_current B next k))"

definition posix_sched_back :: "posix build \<Rightarrow> posix \<Rightarrow> posix" where
  "posix_sched_back B k =
     (let k = hrt__on_scheduler_entry B k
      in (unblock_sigalrm (g_sched_old k) k)\<lparr>cpu := LoopTop\<rparr>)"

definition posix_task_trampoline ::
  "(uintptr \<Rightarrow> uintptr \<Rightarrow> posix \<Rightarrow> posix) \<Rightarrow> posix build \<Rightarrow> posix \<Rightarrow> bool \<times> posix" where
  "posix_task_trampoline run_entry B k =
     (let i = hrt__get_current k;
          t = hrt__tcb B i;
          k = deref t k;
          k = run_entry (entry (tcb_of k t)) (arg (tcb_of k t)) k
      in hrt_task_delete B k)"

section \<open>The port keeps its contract\<close>

lemmas posix_hooks =
  posix_start_systick_def posix_init_idle_task_def posix_prepare_task_stack_def posix_enter_scheduler_def
  posix_pend_context_switch_def posix_yield_to_scheduler_def posix_crit_enter_def posix_crit_exit_def
  setitimer_def block_sigalrm_def unblock_sigalrm_def

lemma posix_build_fields [simp]:
  "HARDRT_MAX_TASKS (posix_build n p dbg tramp) = n" "HARDRT_MAX_PRIO (posix_build n p dbg tramp) = p"
  "HARDRT_DEBUG (posix_build n p dbg tramp) = dbg" "sym_task_trampoline (posix_build n p dbg tramp) = tramp"
  by (simp_all add: posix_build_def)

lemma posix_core:
  "core (k\<lparr>g_crit_depth := d\<rparr>) = core k" "core (k\<lparr>g_ctxs := cs\<rparr>) = core k"
  "core (k\<lparr>g_sched_blocked := b\<rparr>) = core k" "core (k\<lparr>g_sched_old := b\<rparr>) = core k"
  "core (k\<lparr>g_switch_pending := b\<rparr>) = core k" "core (k\<lparr>g_sigalrm_set := b\<rparr>) = core k"
  "core (k\<lparr>g_test_stop := b\<rparr>) = core k" "core (k\<lparr>g_idle_counter := w\<rparr>) = core k"
  "core (k\<lparr>sig_blocked := b\<rparr>) = core k" "core (k\<lparr>sig_handler := b\<rparr>) = core k"
  "core (k\<lparr>itimer_usec := z\<rparr>) = core k" "core (k\<lparr>cpu := u\<rparr>) = core k"
  by (simp_all add: kernel.truncate_def)

lemma posix_hook_core:
  "core (posix_pend_context_switch k) = core k" "core (snd (posix_yield_to_scheduler n k)) = core k"
  "core (posix_enter_scheduler k) = core k" "core (posix_crit_enter k) = core k"
  "core (posix_crit_exit k) = core k" "core (posix_start_systick hz k) = core k"
  "core (posix_prepare_task_stack i tr base w k) = core k" "core (posix_init_idle_task k) = core k"
  by (simp_all add: posix_hooks posix_core Let_def)

interpretation posix: hrt_port "posix_build n p dbg tramp"
  by unfold_locales (simp_all add: posix_build_def posix_hook_core sched_core_of_core [OF posix_hook_core(7)]
      sched_core_of_core [OF posix_hook_core(8)])

lemma posix_more:
  assumes "kernel.more (a :: posix) = kernel.more b"
  shows "g_crit_depth a = g_crit_depth b" "g_ctxs a = g_ctxs b" "g_sched_blocked a = g_sched_blocked b"
    "g_sched_old a = g_sched_old b" "g_switch_pending a = g_switch_pending b"
    "g_sigalrm_set a = g_sigalrm_set b" "g_test_stop a = g_test_stop b"
    "g_idle_counter a = g_idle_counter b" "sig_blocked a = sig_blocked b" "sig_handler a = sig_handler b"
    "itimer_usec a = itimer_usec b" "cpu a = cpu b"
  using assms by (cases a; cases b; simp)+

text \<open>The invariant and the queues do not see the port's variables.\<close>

lemma posix_kinv [simp]:
  "kinv B R (k\<lparr>g_crit_depth := d\<rparr>) = kinv B R k"
  "kinv B R (k\<lparr>g_ctxs := cs\<rparr>) = kinv B R k"
  "kinv B R (k\<lparr>g_sched_blocked := b\<rparr>) = kinv B R k"
  "kinv B R (k\<lparr>g_sched_old := b\<rparr>) = kinv B R k"
  "kinv B R (k\<lparr>g_switch_pending := b\<rparr>) = kinv B R k"
  "kinv B R (k\<lparr>g_sigalrm_set := b\<rparr>) = kinv B R k"
  "kinv B R (k\<lparr>g_test_stop := b\<rparr>) = kinv B R k"
  "kinv B R (k\<lparr>g_idle_counter := w\<rparr>) = kinv B R k"
  "kinv B R (k\<lparr>sig_blocked := b\<rparr>) = kinv B R k"
  "kinv B R (k\<lparr>sig_handler := b\<rparr>) = kinv B R k"
  "kinv B R (k\<lparr>itimer_usec := z\<rparr>) = kinv B R k"
  "kinv B R (k\<lparr>cpu := u\<rparr>) = kinv B R k"
  by (rule kinv_same_core, simp add: posix_core)+

lemma posix_rq_list [simp]:
  "rq_list B (k\<lparr>g_crit_depth := d\<rparr>) = rq_list B k"
  "rq_list B (k\<lparr>g_ctxs := cs\<rparr>) = rq_list B k"
  "rq_list B (k\<lparr>g_sched_blocked := b\<rparr>) = rq_list B k"
  "rq_list B (k\<lparr>g_sched_old := b\<rparr>) = rq_list B k"
  "rq_list B (k\<lparr>g_switch_pending := b\<rparr>) = rq_list B k"
  "rq_list B (k\<lparr>g_sigalrm_set := b\<rparr>) = rq_list B k"
  "rq_list B (k\<lparr>g_test_stop := b\<rparr>) = rq_list B k"
  "rq_list B (k\<lparr>g_idle_counter := w\<rparr>) = rq_list B k"
  "rq_list B (k\<lparr>sig_blocked := b\<rparr>) = rq_list B k"
  "rq_list B (k\<lparr>sig_handler := b\<rparr>) = rq_list B k"
  "rq_list B (k\<lparr>itimer_usec := z\<rparr>) = rq_list B k"
  "rq_list B (k\<lparr>cpu := u\<rparr>) = rq_list B k"
  by (rule rq_list_cong, simp)+

lemma posix_abs_rq [simp]:
  "abs_rq B (k\<lparr>g_crit_depth := d\<rparr>) = abs_rq B k"
  "abs_rq B (k\<lparr>g_ctxs := cs\<rparr>) = abs_rq B k"
  "abs_rq B (k\<lparr>g_sched_blocked := b\<rparr>) = abs_rq B k"
  "abs_rq B (k\<lparr>g_sched_old := b\<rparr>) = abs_rq B k"
  "abs_rq B (k\<lparr>g_switch_pending := b\<rparr>) = abs_rq B k"
  "abs_rq B (k\<lparr>g_sigalrm_set := b\<rparr>) = abs_rq B k"
  "abs_rq B (k\<lparr>g_test_stop := b\<rparr>) = abs_rq B k"
  "abs_rq B (k\<lparr>g_idle_counter := w\<rparr>) = abs_rq B k"
  "abs_rq B (k\<lparr>sig_blocked := b\<rparr>) = abs_rq B k"
  "abs_rq B (k\<lparr>sig_handler := b\<rparr>) = abs_rq B k"
  "abs_rq B (k\<lparr>itimer_usec := z\<rparr>) = abs_rq B k"
  "abs_rq B (k\<lparr>cpu := u\<rparr>) = abs_rq B k"
  by (simp_all add: abs_rq_def)

section \<open>Critical sections\<close>

lemma posix_crit_balanced:
  assumes "0 \<le> g_crit_depth k" "g_crit_depth k = 0 \<Longrightarrow> \<not> (sig_blocked k \<and> g_sigalrm_set k)"
  shows "posix_crit_exit (posix_crit_enter k) = k"
  using assms by (cases k) (auto simp: posix_crit_enter_def posix_crit_exit_def Let_def)

lemma posix_crit_masks:
  assumes "g_sigalrm_set k" "g_crit_depth k = 0 \<or> sig_blocked k"
  shows "sig_blocked (posix_crit_enter k)"
  using assms by (auto simp: posix_crit_enter_def Let_def)

text \<open>The outermost exit unblocks the signal even if it was blocked before the section.\<close>

lemma posix_crit_exit_unblocks:
  assumes "g_crit_depth k = 1" "g_sigalrm_set k"
  shows "\<not> sig_blocked (posix_crit_exit k)" "g_crit_depth (posix_crit_exit k) = 0"
  using assms by (simp_all add: posix_crit_exit_def Let_def)

section \<open>The tick source\<close>

lemma posix_systick_external:
  "g_tick_src k = HRT_TICK_EXTERNAL \<Longrightarrow> posix_start_systick hz k = k"
  by (simp add: posix_start_systick_def hrt__cfg_tick_src_def)

lemma posix_systick_period:
  assumes "g_tick_src k \<noteq> HRT_TICK_EXTERNAL" "2 \<le> uint hz" "uint hz \<le> 1000000"
  shows "itimer_usec (posix_start_systick hz k) = 1000000 div uint hz"
    "0 < itimer_usec (posix_start_systick hz k)" "sig_handler (posix_start_systick hz k)"
    "g_sigalrm_set (posix_start_systick hz k)"
proof -
  have nz: "hz \<noteq> 0" using assms(2) by auto
  have q: "0 < 1000000 div uint hz" "1000000 div uint hz < 1000000"
    using assms(2,3) by (simp_all add: pos_imp_zdiv_pos_iff int_div_less_self)
  then show "itimer_usec (posix_start_systick hz k) = 1000000 div uint hz"
    "sig_handler (posix_start_systick hz k)" "g_sigalrm_set (posix_start_systick hz k)"
    using assms(1) nz by (simp_all add: posix_start_systick_def hrt__cfg_tick_src_def setitimer_def Let_def)
  with q show "0 < itimer_usec (posix_start_systick hz k)" by simp
qed

text \<open>At 1 Hz the requested microseconds are out of the range \<open>setitimer\<close> takes, and above 1 MHz
  they are 0, which disarms the timer: both leave the program without a tick.\<close>

lemma posix_systick_dead:
  assumes "g_tick_src k \<noteq> HRT_TICK_EXTERNAL" "uint hz = 1 \<or> uint hz > 1000000" "itimer_usec k = 0"
  shows "itimer_usec (posix_start_systick hz k) = 0"
proof -
  have nz: "hz \<noteq> 0" using assms(2) by auto
  have "1000000 div uint hz = 1000000 \<or> 1000000 div uint hz = 0"
    using assms(2) by (auto simp: zdiv_eq_0_iff)
  then show ?thesis using assms(1,3) nz
    by (auto simp: posix_start_systick_def hrt__cfg_tick_src_def setitimer_def Let_def)
qed

section \<open>The scheduler loop\<close>

lemma swap_in_core: "core (swap_in i k) = core k" "cpu (swap_in i k) = InTask i"
  "g_sched_blocked (swap_in i k) = sig_blocked k" "g_switch_pending (swap_in i k) = g_switch_pending k"
  "g_sched_old (swap_in i k) = g_sched_old k" "g_ctxs (swap_in i k) = g_ctxs k"
  "g_sigalrm_set (swap_in i k) = g_sigalrm_set k" "g_crit_depth (swap_in i k) = g_crit_depth k"
  "g_test_stop (swap_in i k) = g_test_stop k"
  by (simp_all add: swap_in_def unblock_sigalrm_def Let_def posix_core split: resume_at.split)

lemma set_current_valid:
  assumes "0 \<le> i" "i < int (HARDRT_MAX_TASKS B)"
  shows "hrt__set_current B i k = k\<lparr>g_current := i\<rparr>"
  using assms by (simp add: hrt__set_current_def)

lemma kinv_current [simp]: "kinv B R (k\<lparr>g_current := i\<rparr>) = kinv B R k"
  by (simp add: kinv_def kwf_def kshape_def queued_def)

lemma abs_rq_current [simp]: "abs_rq B (k\<lparr>g_current := i\<rparr>) = abs_rq B k"
  by (simp add: abs_rq_def)

lemma sched_pass_switch:
  assumes "\<not> (hooks \<and> g_test_stop k)" "g_switch_pending k" "kinv B {} k"
    "spec_pick (abs_rq B k) = (Some i, qs)" "int i \<noteq> HRT_IDLE_ID B"
  defines "k' \<equiv> posix_sched_pass hooks B k"
  shows "cpu k' = InTask i" "g_current k' = int i" "kinv B {i} k'" "abs_rq B k' = qs"
    "g_switch_pending k' = False" "g_sched_old k' = sig_blocked k"
    "g_sched_blocked k' = (sig_blocked k \<or> g_sigalrm_set k)" "g_tcbs k' = g_tcbs k"
    "g_error k' = g_error k" "i < HARDRT_MAX_TASKS B" "g_ctxs k' = g_ctxs k"
    "g_test_stop k' = g_test_stop k" "g_crit_depth k' = g_crit_depth k" "g_sigalrm_set k' = g_sigalrm_set k"
    "g_policy k' = g_policy k" "g_tick k' = g_tick k" "g_fault k' = g_fault k"
proof -
  define k1 where "k1 = k\<lparr>g_switch_pending := False, sig_blocked := sig_blocked k \<or> g_sigalrm_set k,
    g_sched_old := sig_blocked k\<rparr>"
  define k2 where "k2 = snd (hrt__pick_next_ready B k1)"
  have a: "abs_rq B k1 = abs_rq B k" "kinv B {} k1" "g_tcbs k1 = g_tcbs k" "g_error k1 = g_error k"
    using assms(3) by (simp_all add: k1_def)
  note ps = pick_spec [OF kinv_kwf [OF a(2)], unfolded a(1) assms(4), folded k2_def]
  have n: "fst (hrt__pick_next_ready B k1) = int i" using ps(1) by (simp add: pick_id_def)
  note pc = kinv_pick_current [OF a(2) n, folded k2_def]
  have pick: "hrt__pick_next_ready B k1 = (int i, k2)" using n by (simp add: k2_def prod_eq_iff)
  define k3 where "k3 = k2\<lparr>g_current := int i\<rparr>"
  have eq: "k' = swap_in i k3"
    using assms(1,2,5) pc(2)
    by (auto simp: k'_def posix_sched_pass_def block_sigalrm_def pick Let_def set_current_valid k3_def
        simp flip: k1_def)
  note c = core_fields [OF swap_in_core(1) [of i k3], folded eq]
  have "kernel.more k2 = kernel.more k1" by (simp add: k2_def)
  note m = posix_more [OF this]
  have k3: "g_current k3 = int i" "g_tcbs k3 = g_tcbs k" "g_error k3 = g_error k" "g_policy k3 = g_policy k"
    "g_tick k3 = g_tick k" "g_fault k3 = g_fault k"
    using ps(4) a by (simp_all add: k3_def k2_def k1_def)
  show "g_current k' = int i" "g_tcbs k' = g_tcbs k" "g_error k' = g_error k" "g_policy k' = g_policy k"
    "g_tick k' = g_tick k" "g_fault k' = g_fault k"
    by (simp_all only: c(1,2,3,5,9,11) k3)
  show "cpu k' = InTask i" by (simp add: eq swap_in_core)
  show "i < HARDRT_MAX_TASKS B" using pc(2) by simp
  have q: "sched_core k' = sched_core k3" by (rule sched_core_of_core) (simp add: eq swap_in_core)
  show "kinv B {i} k'" using pc(3) kinv_core [OF q] by (simp add: k3_def)
  show "abs_rq B k' = qs" using ps(2) rq_list_core [OF q, of B] by (simp add: abs_rq_def k3_def)
  show "g_switch_pending k' = False" "g_sched_old k' = sig_blocked k"
    "g_sched_blocked k' = (sig_blocked k \<or> g_sigalrm_set k)" "g_ctxs k' = g_ctxs k"
    "g_test_stop k' = g_test_stop k" "g_crit_depth k' = g_crit_depth k" "g_sigalrm_set k' = g_sigalrm_set k"
    using m by (simp_all add: eq swap_in_core k3_def k1_def)
qed

lemma sched_pass_idle:
  assumes "\<not> (hooks \<and> g_test_stop k)" "g_switch_pending k" "kinv B {} k"
    "fst (spec_pick (abs_rq B k)) = None"
  shows "posix_sched_pass hooks B k =
    posix_idle_wait hooks (k\<lparr>g_switch_pending := False, g_sched_old := sig_blocked k\<rparr>)"
proof -
  let ?k = "k\<lparr>g_switch_pending := False, sig_blocked := sig_blocked k \<or> g_sigalrm_set k,
    g_sched_old := sig_blocked k\<rparr>"
  have wf: "kwf B ?k" using kinv_kwf [of B "{}" ?k] assms(3) by simp
  have "hrt__pick_next_ready B ?k = (HRT_IDLE_ID B, ?k)"
  proof (cases rule: pick_cases [OF wf])
    case (2 r i js)
    then have "spec_pick (abs_rq B ?k) = (Some i, (abs_rq B ?k)[r := js])"
      by (intro spec_pick_some) simp_all
    then show ?thesis using assms(4) by simp
  qed
  then show ?thesis using assms(1,2)
    by (auto simp: posix_sched_pass_def block_sigalrm_def unblock_sigalrm_def Let_def)
qed

lemma sched_pass_quiet:
  assumes "\<not> (hooks \<and> g_test_stop k)" "\<not> g_switch_pending k"
  shows "posix_sched_pass hooks B k = posix_idle_wait hooks k"
  using assms by (auto simp: posix_sched_pass_def)

lemma sched_pass_stop:
  assumes "hooks" "g_test_stop k"
  shows "posix_sched_pass hooks B k = k\<lparr>itimer_usec := 0, cpu := InMain\<rparr>"
  using assms by (simp add: posix_sched_pass_def setitimer_def)

text \<open>A task in the idle slot is taken out of its queue and dropped.\<close>

lemma sched_pass_drops_idle_slot:
  assumes "\<not> (hooks \<and> g_test_stop k)" "g_switch_pending k" "kinv B {} k"
    "spec_pick (abs_rq B k) = (Some i, qs)" "int i = HRT_IDLE_ID B"
  defines "k' \<equiv> posix_sched_pass hooks B k"
  shows "abs_rq B k' = qs" "g_tcbs k' = g_tcbs k" "g_current k' = g_current k" "cpu k' = cpu k"
proof -
  define k1 where "k1 = k\<lparr>g_switch_pending := False, sig_blocked := sig_blocked k \<or> g_sigalrm_set k,
    g_sched_old := sig_blocked k\<rparr>"
  define k2 where "k2 = snd (hrt__pick_next_ready B k1)"
  have a: "abs_rq B k1 = abs_rq B k" "kinv B {} k1" using assms(3) by (simp_all add: k1_def)
  note ps = pick_spec [OF kinv_kwf [OF a(2)], unfolded a(1) assms(4), folded k2_def]
  have pick: "hrt__pick_next_ready B k1 = (int i, k2)"
    using ps(1) by (simp add: k2_def prod_eq_iff pick_id_def)
  have eq: "k' = posix_idle_wait hooks (unblock_sigalrm (sig_blocked k) k2)"
    using assms(1,2,5)
    by (auto simp: k'_def posix_sched_pass_def block_sigalrm_def pick Let_def simp flip: k1_def)
  have "kernel.more k2 = kernel.more k1" by (simp add: k2_def)
  note m = posix_more [OF this]
  show "abs_rq B k' = qs" "g_tcbs k' = g_tcbs k" "g_current k' = g_current k" "cpu k' = cpu k"
    using ps(2) m(12) by (simp_all add: eq posix_idle_wait_def unblock_sigalrm_def k2_def k1_def)
qed

section \<open>Hopping to the scheduler and back\<close>

lemma posix_build_hooks [simp]:
  "port_yield_to_scheduler (posix_build n p dbg tramp) = posix_yield_to_scheduler n"
  "port_pend_context_switch (posix_build n p dbg tramp) = posix_pend_context_switch"
  "port_crit_enter (posix_build n p dbg tramp) = posix_crit_enter"
  "port_crit_exit (posix_build n p dbg tramp) = posix_crit_exit"
  by (simp_all add: posix_build_def)

lemma posix_hop:
  assumes "g_current k = int c" "Suc c < n" "valid (g_ctxs k ! c)"
  shows "fst (posix_yield_to_scheduler n k)" "cpu (snd (posix_yield_to_scheduler n k)) = LoopBack"
    "sig_blocked (snd (posix_yield_to_scheduler n k)) = g_sched_blocked k"
    "g_switch_pending (snd (posix_yield_to_scheduler n k)) = g_switch_pending k"
    "g_test_stop (snd (posix_yield_to_scheduler n k)) = g_test_stop k"
    "c < length (g_ctxs k) \<Longrightarrow> uc_resume (ctx (g_ctxs (snd (posix_yield_to_scheduler n k)) ! c)) = InYield (sig_blocked k)"
    "valid (g_ctxs (snd (posix_yield_to_scheduler n k)) ! j) = valid (g_ctxs k ! j)"
  using assms
  by (simp_all add: posix_yield_to_scheduler_def hrt__get_current_def block_sigalrm_def Let_def nth_update_if)

lemma posix_no_hop:
  assumes "g_current k < 0 \<or> g_current k = int n - 1 \<or> \<not> valid (g_ctxs k ! nat (g_current k))"
  shows "posix_yield_to_scheduler n k = (False, k)"
  using assms by (auto simp: posix_yield_to_scheduler_def hrt__get_current_def Let_def)

text \<open>A task that gives up the processor resumes with the signal mask it had.\<close>

lemma posix_crit_ctxs [simp]:
  "g_ctxs (posix_crit_enter k) = g_ctxs k" "g_ctxs (posix_crit_exit k) = g_ctxs k"
  by (simp_all add: posix_crit_enter_def posix_crit_exit_def Let_def)

lemma posix_parked_hops:
  assumes "g_current k = int c" "Suc c < n" "valid (g_ctxs k ! c)"
  shows "fst (posix_yield_to_scheduler n (parked (posix_build n p dbg tramp) c (posix_crit_exit (posix_crit_enter k))))"
proof -
  let ?k = "parked (posix_build n p dbg tramp) c (posix_crit_exit (posix_crit_enter k))"
  have "g_current ?k = int c"
    using assms(1) core_fields(2) [OF posix_hook_core(4)] core_fields(2) [OF posix_hook_core(5)]
    by (simp add: parked_def posix_pend_context_switch_def)
  moreover have "valid (g_ctxs ?k ! c)"
    using assms(3) by (simp add: parked_def posix_pend_context_switch_def)
  ultimately show ?thesis using posix_hop(1) assms(2) by blast
qed

lemma posix_resume_mask:
  assumes "g_current k = int c" "Suc c < n" "valid (g_ctxs k ! c)" "c < length (g_ctxs k)"
    and "ctx (g_ctxs k' ! c) = ctx (g_ctxs (snd (posix_yield_to_scheduler n k)) ! c)"
  shows "sig_blocked (swap_in c k') = sig_blocked k"
  using posix_hop(6) [OF assms(1-4)] assms(5) by (simp add: swap_in_def unblock_sigalrm_def Let_def)

lemma sched_back_quiet:
  assumes "kinv B {} k" "g_current k = int c" "c < HARDRT_MAX_TASKS B"
    "state (g_tcbs k ! c) = HRT_READY \<Longrightarrow> slice_left (g_tcbs k ! c) = timeslice_cfg (g_tcbs k ! c)"
  shows "posix_sched_back B k = k\<lparr>sig_blocked := g_sched_old k, cpu := LoopTop\<rparr>"
proof -
  have "hrt__on_scheduler_entry B k = k"
    using assms(4) by (intro scheduler_entry_quiet [OF kinv_kwf [OF assms(1)] assms(2,3)]) auto
  then show ?thesis by (simp add: posix_sched_back_def unblock_sigalrm_def Let_def)
qed

lemma sched_back_rotates:
  assumes "kinv B {c} k" "g_current k = int c" "c < HARDRT_MAX_TASKS B"
    "state (g_tcbs k ! c) = HRT_READY" "rr_policy (g_policy k)"
    "timeslice_cfg (g_tcbs k ! c) > 0" "slice_left (g_tcbs k ! c) = 0"
  shows "kinv B {} (posix_sched_back B k)" "cpu (posix_sched_back B k) = LoopTop"
    "rq_list B (posix_sched_back B k) r = rq_list B k r @ (if r = unat (prio (g_tcbs k ! c)) then [c] else [])"
  using scheduler_entry_rotates [OF assms]
  by (simp_all add: posix_sched_back_def unblock_sigalrm_def Let_def)

lemma posix_yield_eq:
  assumes "kinv (posix_build n p dbg tramp) {c} k" "g_current k = int c" "c < n" "state (g_tcbs k ! c) = HRT_READY"
  obtains k1 where "hrt_yield (posix_build n p dbg tramp) k = posix_yield_to_scheduler n (posix_pend_context_switch k1)"
    "kernel.more k1 = kernel.more k" "g_current k1 = int c"
proof -
  let ?B = "posix_build n p dbg tramp"
  let ?k1 = "rq_push ?B (prio (g_tcbs k ! c)) (int c)
    (k\<lparr>g_tcbs := (g_tcbs k)[c := (g_tcbs k ! c)\<lparr>slice_left := timeslice_cfg (g_tcbs k ! c)\<rparr>]\<rparr>)"
  have "length (g_tcbs k) = n" "n < 256"
    using kwf_sizes [OF kinv_kwf [OF assms(1)]] by simp_all
  then have "hrt_yield ?B k = posix_yield_to_scheduler n (posix_pend_context_switch ?k1)"
    using assms(2-4) by (simp add: hrt_yield_def Let_def)
  then show ?thesis using assms(2) by (intro that [of ?k1]) simp_all
qed

text \<open>From the call of \<open>hrt_yield\<close> to the next task: the caller goes to the tail of the queue of
  its priority, and the loop switches to the head of the first non-empty queue.\<close>

lemma posix_yield_roundtrip:
  fixes hooks dbg :: bool and n p :: nat and tramp :: uintptr
  defines "B \<equiv> posix_build n p dbg tramp"
  assumes "kinv B {c} k" "g_current k = int c" "Suc c < n" "state (g_tcbs k ! c) = HRT_READY"
    "valid (g_ctxs k ! c)" "\<not> (hooks \<and> g_test_stop k)"
    "spec_pick (preempted_rq B k) = (Some i, qs)" "Suc i < n"
  defines "k' \<equiv> posix_sched_pass hooks B (posix_sched_back B (snd (hrt_yield B k)))"
  shows "cpu k' = InTask i" "g_current k' = int i" "kinv B {i} k'" "abs_rq B k' = qs"
    "g_tcbs k' = (g_tcbs k)[c := (g_tcbs k ! c)\<lparr>slice_left := timeslice_cfg (g_tcbs k ! c)\<rparr>]"
    "valid (g_ctxs k' ! j) = valid (g_ctxs k ! j)" "g_test_stop k' = g_test_stop k"
proof -
  have cn: "c < n" using assms(4) by simp
  obtain k1 where k1: "hrt_yield B k = posix_yield_to_scheduler n (posix_pend_context_switch k1)"
    "kernel.more k1 = kernel.more k" "g_current k1 = int c"
    using posix_yield_eq [OF assms(2) [unfolded B_def] assms(3) cn assms(5)] unfolding B_def by metis
  note m = posix_more [OF k1(2)]
  let ?k1 = "posix_pend_context_switch k1"
  have p: "g_current ?k1 = int c" "valid (g_ctxs ?k1 ! c)" "g_test_stop ?k1 = g_test_stop k" "g_switch_pending ?k1"
    using k1(3) m assms(6) by (simp_all add: posix_pend_context_switch_def)
  note hop = posix_hop [OF p(1) assms(4) p(2)]
  define k2 where "k2 = snd (hrt_yield B k)"
  have cN: "c < HARDRT_MAX_TASKS (posix_build n p dbg tramp)" using cn by simp
  note y = posix.yield_running [OF assms(2) [unfolded B_def] assms(3) cN assms(5), folded B_def, folded k2_def]
  have sz: "length (g_tcbs k) = n" using kwf_sizes(2) [OF kinv_kwf [OF assms(2)]] by (simp add: B_def)
  have bk: "posix_sched_back B k2 = k2\<lparr>sig_blocked := g_sched_old k2, cpu := LoopTop\<rparr>"
    using y(1,2,6) assms(3) cn sz by (intro sched_back_quiet [where c = c]) (simp_all add: B_def)
  have pre: "abs_rq B k2 = preempted_rq B k"
    using y(3) assms(3,5) by (simp add: abs_rq_def preempted_rq_def Let_def)
  have st: "\<not> (hooks \<and> g_test_stop (posix_sched_back B k2))" "g_switch_pending (posix_sched_back B k2)"
    "kinv B {} (posix_sched_back B k2)" "spec_pick (abs_rq B (posix_sched_back B k2)) = (Some i, qs)"
    using hop(4,5) p(3,4) assms(7,8) y(1) pre unfolding bk by (auto simp: k2_def k1(1))
  have i: "int i \<noteq> HRT_IDLE_ID B" using assms(9) by (simp add: HRT_IDLE_ID_def B_def)
  note pass = sched_pass_switch [OF st i, folded k2_def]
  show "cpu k' = InTask i" "g_current k' = int i" "kinv B {i} k'" "abs_rq B k' = qs"
    using pass(1-4) by (simp_all add: k'_def k2_def)
  show "g_tcbs k' = (g_tcbs k)[c := (g_tcbs k ! c)\<lparr>slice_left := timeslice_cfg (g_tcbs k ! c)\<rparr>]"
    using pass(8) y(2) bk by (simp add: k'_def flip: k2_def)
  show "valid (g_ctxs k' ! j) = valid (g_ctxs k ! j)"
    using pass(11) hop(7) [of j] m(2) bk
    by (simp add: k'_def k2_def k1(1) posix_pend_context_switch_def)
  show "g_test_stop k' = g_test_stop k"
    using pass(12) hop(5) p(3) bk by (simp add: k'_def k2_def k1(1))
qed

end
