(* ===== verification/HRT_Port_CortexM.thy ===== *)
theory HRT_Port_CortexM
  imports HRT_Queue
begin

unbundle bit_operations_syntax

text \<open>
  The Cortex-M port: \<open>port_cortexm.c\<close>, \<open>port_cortexm_isr.c\<close>, \<open>hrt_pendsv_handler.s\<close> and
  \<open>hardfault_diag.c\<close> under \<open>src/port/cortex_m\<close>.

  The record \<open>cortexm\<close> adds to the kernel the port's variables, the registers and system control
  registers the code uses, and a memory \<open>mem\<close> of 32-bit words by address. \<open>cm_link\<close> holds what the
  linker and the vendor files provide: the RAM limits, the core clock, the address of the idle
  stack and of the two entry points.

  \<open>PendSV\<close> becomes pending where the code sets it and is taken as soon as the masks allow; the
  second component of the voluntary hop says whether it is taken there. The handler is a program
  in the instructions it uses (\<open>pendsv_code\<close>), run by \<open>cm_step\<close>: \<open>bl\<close> sets the link register like
  the hardware does, so what \<open>bx lr\<close> returns to is a result and not an assumption.
\<close>

section \<open>Port state\<close>

record cm_link =
  ram_start :: u32
  ram_end :: u32
  SystemCoreClock :: u32
  g_idle_stack :: u32
  sym_idle_task :: u32
  sym_trampoline :: u32

record fault_record =
  f_r0 :: u32
  f_r1 :: u32
  f_r2 :: u32
  f_r3 :: u32
  f_r12 :: u32
  f_lr :: u32
  f_pc :: u32
  f_psr :: u32
  f_cfsr :: u32
  f_hfsr :: u32
  f_bfar :: u32
  f_afsr :: u32
  f_psp :: u32
  f_msp :: u32

record cortexm = kernel +
  g_basepri_prev :: u32
  g_cs_nest :: u32
  g_idle_tcb :: hrt_tcb
  mem :: "u32 \<Rightarrow> u32"
  basepri :: u32
  primask :: bool
  psp :: u32
  msp :: u32
  r4_r11 :: "u32 list"
  pendsv_set :: bool
  systick_load :: u32
  systick_val :: u32
  systick_ctrl :: u32
  shpr10 :: u8
  shpr11 :: u8
  g_fault_regs :: fault_record

section \<open>Stack pointer check and clock\<close>

definition HRT_SP_FRAME_BYTES :: u32 where "HRT_SP_FRAME_BYTES = 64"

definition cm_sp_valid :: "cm_link \<Rightarrow> uintptr \<Rightarrow> cortexm \<Rightarrow> cortexm" where
  "cm_sp_valid L s k =
     (let k = (if s = 0 then hrt_error ERR_SP_NULL k else k);
          k = (if ram_end L - ram_start L < 2 * HRT_SP_FRAME_BYTES
               then hrt_error ERR_INVALID_RAM_RANGE k else k);
          k = (if s < ram_start L + HRT_SP_FRAME_BYTES \<or> s > ram_end L - HRT_SP_FRAME_BYTES
               then hrt_error ERR_STACK_RANGE k else k)
      in if s AND 7 \<noteq> 0 then hrt_error ERR_STACK_ALIGN k else k)"

definition hrt_port_get_core_hz :: "cm_link \<Rightarrow> u32" where
  "hrt_port_get_core_hz L = (if SystemCoreClock L \<noteq> 0 then SystemCoreClock L else 100000000)"

section \<open>Critical sections\<close>

definition HARDRT_NVIC_PRIO_BITS :: nat where "HARDRT_NVIC_PRIO_BITS = 4"

definition HARDRT_MAX_SYSCALL_IRQ_PRIO :: u32 where "HARDRT_MAX_SYSCALL_IRQ_PRIO = 5"

definition prio_to_basepri :: "u32 \<Rightarrow> u32" where
  "prio_to_basepri p = push_bit (8 - HARDRT_NVIC_PRIO_BITS) p AND 0xFF"

definition cm_crit_enter :: "cortexm \<Rightarrow> cortexm" where
  "cm_crit_enter k =
     (let prev = basepri k;
          k = (if g_cs_nest k = 0
               then k\<lparr>g_basepri_prev := prev, basepri := prio_to_basepri HARDRT_MAX_SYSCALL_IRQ_PRIO\<rparr>
               else k)
      in k\<lparr>g_cs_nest := g_cs_nest k + 1\<rparr>)"

definition cm_crit_exit :: "cortexm \<Rightarrow> cortexm" where
  "cm_crit_exit k =
     (if g_cs_nest k = 0 then k
      else
        let k = k\<lparr>g_cs_nest := g_cs_nest k - 1\<rparr>
        in if g_cs_nest k = 0 then k\<lparr>basepri := g_basepri_prev k\<rparr> else k)"

section \<open>Stack frames\<close>

fun push_words :: "u32 list \<Rightarrow> u32 \<times> cortexm \<Rightarrow> u32 \<times> cortexm" where
  "push_words [] s = s"
| "push_words (w # ws) s = (case s of (a, k) \<Rightarrow> push_words ws (a - 4, k\<lparr>mem := (mem k)(a - 4 := w)\<rparr>))"

definition cm_init_idle_task :: "cm_link \<Rightarrow> cortexm build \<Rightarrow> cortexm \<Rightarrow> cortexm" where
  "cm_init_idle_task L B k =
     (let t = zero_tcb\<lparr>state := HRT_READY, prio := 0, timeslice_cfg := 0, slice_left := 0,
                entry := sym_idle_task L, arg := 0\<rparr>;
          (s, k) = push_words [0x01000000, sym_idle_task L, sym_trampoline L, 0, 0, 0, 0, 0,
                               0, 0, 0, 0, 0, 0, 0, 0] (g_idle_stack L + 4 * 64, k);
          k = k\<lparr>g_idle_tcb := t\<lparr>sp := s\<rparr>\<rparr>
      in set_sp B (HRT_IDLE_ID B) s k)"

definition cm_prepare_task_stack ::
  "cm_link \<Rightarrow> cortexm build \<Rightarrow> int \<Rightarrow> uintptr \<Rightarrow> uintptr \<Rightarrow> size_t \<Rightarrow> cortexm \<Rightarrow> cortexm" where
  "cm_prepare_task_stack L B i tramp base n k =
     (let stack_end = base + 4 * n;
          stk = stack_end AND NOT 7
      in if stk \<le> base \<or> stk > stack_end then hrt_error ERR_STACK_RANGE k
         else case push_words [0x01000000, sym_trampoline L, 0xFFFFFFFD, 0, 0, 0, 0, 0,
                               0, 0, 0, 0, 0, 0, 0, 0] (stk, k) of
           (s, k) \<Rightarrow>
             if s < base then hrt_error ERR_STACK_UNDERFLOW_INIT k
             else set_sp B i s k)"

section \<open>Switch requests, tick source, scheduler entry\<close>

definition cm_pend_context_switch :: "cortexm \<Rightarrow> cortexm" where
  "cm_pend_context_switch k = k\<lparr>pendsv_set := True\<rparr>"

definition pendsv_taken :: "cortexm \<Rightarrow> bool" where
  "pendsv_taken k \<longleftrightarrow> pendsv_set k \<and> \<not> primask k \<and> (basepri k = 0 \<or> ucast (shpr10 k) < basepri k)"

definition cm_yield_to_scheduler :: "cortexm \<Rightarrow> bool \<times> cortexm" where
  "cm_yield_to_scheduler k = (let k = cm_pend_context_switch k in (pendsv_taken k, k))"

definition cm_start_systick :: "cm_link \<Rightarrow> u32 \<Rightarrow> cortexm \<Rightarrow> cortexm" where
  "cm_start_systick L tick_hz k =
     (if tick_hz = 0 then k
      else if hrt__cfg_tick_src k = HRT_TICK_EXTERNAL then k\<lparr>shpr10 := 0xF0, primask := False\<rparr>
      else
        let core_hz = hrt_port_get_core_hz L in
        if core_hz = 0 then k
        else
          let reload = core_hz div tick_hz;
              reload = (if reload = 0 then 1 else reload);
              reload = (if reload > 0xFFFFFF then 0xFFFFFF else reload);
              reload = reload - 1
          in k\<lparr>systick_load := reload, systick_val := 0, shpr10 := 0xF0, shpr11 := 0xE0,
               systick_ctrl := push_bit 2 1 OR push_bit 1 1 OR push_bit 0 1, primask := False\<rparr>)"

definition cm_enter_scheduler :: "cortexm \<Rightarrow> cortexm" where
  "cm_enter_scheduler k = cm_pend_context_switch (k\<lparr>primask := False\<rparr>)"

definition SysTick_Handler :: "cortexm build \<Rightarrow> cortexm \<Rightarrow> cortexm" where
  "SysTick_Handler B k =
     (if hrt__cfg_tick_src k \<noteq> HRT_TICK_EXTERNAL then hrt__tick_isr B k else k)"

text \<open>The build ties the knot: the two hooks that store a stack pointer do so through the core's
  \<open>_set_sp\<close>, for which the sizes and the debug switch are all that matters.\<close>

definition cm_sizes :: "nat \<Rightarrow> nat \<Rightarrow> bool \<Rightarrow> u32 \<Rightarrow> cortexm build" where
  "cm_sizes n p dbg tramp =
     \<lparr>HARDRT_MAX_TASKS = n, HARDRT_MAX_PRIO = p, HARDRT_DEBUG = dbg, sym_task_trampoline = tramp,
      port_start_systick = \<lambda>_ k. k, port_init_idle_task = \<lambda>k. k,
      port_prepare_task_stack = \<lambda>_ _ _ _ k. k, port_enter_scheduler = \<lambda>k. k,
      port_pend_context_switch = \<lambda>k. k, port_yield_to_scheduler = \<lambda>k. (False, k),
      port_crit_enter = \<lambda>k. k, port_crit_exit = \<lambda>k. k\<rparr>"

definition cm_build :: "cm_link \<Rightarrow> nat \<Rightarrow> nat \<Rightarrow> bool \<Rightarrow> cortexm build" where
  "cm_build L n p dbg =
     (cm_sizes n p dbg (sym_trampoline L))
      \<lparr>port_start_systick := cm_start_systick L,
       port_init_idle_task := cm_init_idle_task L (cm_sizes n p dbg (sym_trampoline L)),
       port_prepare_task_stack := cm_prepare_task_stack L (cm_sizes n p dbg (sym_trampoline L)),
       port_enter_scheduler := cm_enter_scheduler,
       port_pend_context_switch := cm_pend_context_switch,
       port_yield_to_scheduler := cm_yield_to_scheduler,
       port_crit_enter := cm_crit_enter, port_crit_exit := cm_crit_exit\<rparr>"

definition cm_task_trampoline ::
  "(uintptr \<Rightarrow> uintptr \<Rightarrow> cortexm \<Rightarrow> cortexm) \<Rightarrow> cortexm build \<Rightarrow> cortexm \<Rightarrow> bool \<times> cortexm" where
  "cm_task_trampoline run_entry B k =
     (let i = hrt__get_current k;
          k = (if HARDRT_DEBUG B \<and> i < 0 then hrt_error ERR_INVALID_ID k else k);
          t = hrt__tcb B i;
          k = (if HARDRT_DEBUG B \<and> t = None then hrt_error ERR_TCB_NULL k else k);
          k = deref t k;
          k = run_entry (entry (tcb_of k t)) (arg (tcb_of k t)) k
      in hrt_task_delete B k)"

section \<open>The PendSV handler\<close>

datatype instr =
    CPSID | CPSIE | MRS_R0_PSP | CBZ_R0 nat | STMDB_R0_R4_R11 | LDMIA_R0_R4_R11 | BL_hrt__schedule
  | MSR_PSP_R0 | LDR_R1 u32 | MOV_LR_R1 | MOVS_R0_0 | BX_LR

definition pendsv_code :: "instr list" where
  "pendsv_code =
     [CPSID, MRS_R0_PSP, CBZ_R0 12,
      STMDB_R0_R4_R11, BL_hrt__schedule, CBZ_R0 21, LDMIA_R0_R4_R11, MSR_PSP_R0,
      LDR_R1 0xFFFFFFFD, MOV_LR_R1, CPSIE, BX_LR,
      MOVS_R0_0, BL_hrt__schedule, CBZ_R0 21, LDMIA_R0_R4_R11, MSR_PSP_R0,
      LDR_R1 0xFFFFFFFD, MOV_LR_R1, CPSIE, BX_LR,
      CPSIE, BX_LR]"

text \<open>The link register holds an exception return value or the place \<open>bl\<close> was called from. The
  processor is running the handler, has returned from the exception, or has left the code.\<close>

datatype link_reg = ExcReturn u32 | ReturnTo nat

datatype handler_pc = At nat | Returned u32

record cm_regs =
  pc :: handler_pc
  r0 :: u32
  r1 :: u32
  lr :: link_reg

definition load_words :: "(u32 \<Rightarrow> u32) \<Rightarrow> u32 \<Rightarrow> nat \<Rightarrow> u32 list" where
  "load_words m a n = map (\<lambda>i. m (a + 4 * word_of_nat i)) [0..<n]"

fun store_words :: "u32 list \<Rightarrow> u32 \<Rightarrow> (u32 \<Rightarrow> u32) \<Rightarrow> (u32 \<Rightarrow> u32)" where
  "store_words [] a m = m"
| "store_words (w # ws) a m = store_words ws (a + 4) (m(a := w))"

fun cm_exec :: "cortexm build \<Rightarrow> instr \<Rightarrow> nat \<Rightarrow> cm_regs \<times> cortexm \<Rightarrow> cm_regs \<times> cortexm" where
  "cm_exec B CPSID n (g, k) = (g\<lparr>pc := At (n + 1)\<rparr>, k\<lparr>primask := True\<rparr>)"
| "cm_exec B CPSIE n (g, k) = (g\<lparr>pc := At (n + 1)\<rparr>, k\<lparr>primask := False\<rparr>)"
| "cm_exec B MRS_R0_PSP n (g, k) = (g\<lparr>pc := At (n + 1), r0 := psp k\<rparr>, k)"
| "cm_exec B (CBZ_R0 l) n (g, k) = (g\<lparr>pc := At (if r0 g = 0 then l else n + 1)\<rparr>, k)"
| "cm_exec B STMDB_R0_R4_R11 n (g, k) =
     (g\<lparr>pc := At (n + 1), r0 := r0 g - 32\<rparr>, k\<lparr>mem := store_words (r4_r11 k) (r0 g - 32) (mem k)\<rparr>)"
| "cm_exec B LDMIA_R0_R4_R11 n (g, k) =
     (g\<lparr>pc := At (n + 1), r0 := r0 g + 32\<rparr>, k\<lparr>r4_r11 := load_words (mem k) (r0 g) 8\<rparr>)"
| "cm_exec B BL_hrt__schedule n (g, k) =
     (case hrt__schedule B (r0 g) k of
        (s, k) \<Rightarrow> (g\<lparr>pc := At (n + 1), r0 := s, lr := ReturnTo (n + 1)\<rparr>, k))"
| "cm_exec B MSR_PSP_R0 n (g, k) = (g\<lparr>pc := At (n + 1)\<rparr>, k\<lparr>psp := r0 g\<rparr>)"
| "cm_exec B (LDR_R1 w) n (g, k) = (g\<lparr>pc := At (n + 1), r1 := w\<rparr>, k)"
| "cm_exec B MOV_LR_R1 n (g, k) = (g\<lparr>pc := At (n + 1), lr := ExcReturn (r1 g)\<rparr>, k)"
| "cm_exec B MOVS_R0_0 n (g, k) = (g\<lparr>pc := At (n + 1), r0 := 0\<rparr>, k)"
| "cm_exec B BX_LR n (g, k) =
     (g\<lparr>pc := (case lr g of ExcReturn w \<Rightarrow> Returned w | ReturnTo l \<Rightarrow> At l)\<rparr>, k)"

definition cm_step :: "cortexm build \<Rightarrow> cm_regs \<times> cortexm \<Rightarrow> cm_regs \<times> cortexm" where
  "cm_step B s =
     (case pc (fst s) of At n \<Rightarrow> cm_exec B (pendsv_code ! n) n s | Returned w \<Rightarrow> s)"

fun cm_run :: "cortexm build \<Rightarrow> nat \<Rightarrow> cm_regs \<times> cortexm \<Rightarrow> cm_regs \<times> cortexm" where
  "cm_run B 0 s = s"
| "cm_run B (Suc n) s = cm_run B n (cm_step B s)"

text \<open>Entry of the exception: it is no longer pending and the link register has the return
  value of the interrupted code.\<close>

definition PendSV_entry :: "u32 \<Rightarrow> cm_regs \<Rightarrow> cortexm \<Rightarrow> cm_regs \<times> cortexm" where
  "PendSV_entry exc g k = (g\<lparr>pc := At 0, lr := ExcReturn exc\<rparr>, k\<lparr>pendsv_set := False\<rparr>)"

definition PendSV_Handler :: "cortexm build \<Rightarrow> nat \<Rightarrow> u32 \<Rightarrow> cm_regs \<Rightarrow> cortexm \<Rightarrow> (u32 \<times> cortexm) option" where
  "PendSV_Handler B fuel exc g k =
     (case cm_run B fuel (PendSV_entry exc g k) of
        (g, k) \<Rightarrow> (case pc g of Returned w \<Rightarrow> Some (w, k) | At _ \<Rightarrow> None))"

text \<open>Entering and leaving an exception from thread mode on the process stack: the hardware pushes
  and pops r0-r3, r12, lr, pc and xPSR.\<close>

definition hw_stack :: "u32 list \<Rightarrow> cortexm \<Rightarrow> cortexm" where
  "hw_stack frame k = k\<lparr>psp := psp k - 32, mem := store_words frame (psp k - 32) (mem k)\<rparr>"

definition hw_unstack :: "cortexm \<Rightarrow> u32 list \<times> cortexm" where
  "hw_unstack k = (load_words (mem k) (psp k) 8, k\<lparr>psp := psp k + 32\<rparr>)"

section \<open>Hard fault record\<close>

definition hardfault_sp :: "u32 \<Rightarrow> cortexm \<Rightarrow> u32" where
  "hardfault_sp exc k = (if exc AND 4 = 0 then msp k else psp k)"

definition hardfault_c :: "u32 \<Rightarrow> cortexm \<Rightarrow> cortexm" where
  "hardfault_c s k =
     (let at = (\<lambda>i. mem k (s + 4 * i))
      in k\<lparr>g_fault_regs := \<lparr>f_r0 = at 0, f_r1 = at 1, f_r2 = at 2, f_r3 = at 3, f_r12 = at 4,
             f_lr = at 5, f_pc = at 6, f_psr = at 7,
             f_cfsr = mem k 0xE000ED28, f_hfsr = mem k 0xE000ED2C,
             f_bfar = mem k 0xE000ED38, f_afsr = mem k 0xE000ED3C,
             f_psp = psp k, f_msp = msp k\<rparr>\<rparr>)"

definition HardFault_Handler :: "u32 \<Rightarrow> cortexm \<Rightarrow> cortexm" where
  "HardFault_Handler exc k = hardfault_c (hardfault_sp exc k) k"

section \<open>The port keeps its contract\<close>

lemma cm_core:
  "core (k\<lparr>g_basepri_prev := w\<rparr>) = core k" "core (k\<lparr>g_cs_nest := w\<rparr>) = core k"
  "core (k\<lparr>g_idle_tcb := t\<rparr>) = core k" "core (k\<lparr>mem := m\<rparr>) = core k"
  "core (k\<lparr>basepri := w\<rparr>) = core k" "core (k\<lparr>primask := b\<rparr>) = core k"
  "core (k\<lparr>psp := w\<rparr>) = core k" "core (k\<lparr>r4_r11 := ws\<rparr>) = core k"
  "core (k\<lparr>pendsv_set := b\<rparr>) = core k" "core (k\<lparr>systick_load := w\<rparr>) = core k"
  "core (k\<lparr>systick_val := w\<rparr>) = core k" "core (k\<lparr>systick_ctrl := w\<rparr>) = core k"
  "core (k\<lparr>shpr10 := x\<rparr>) = core k" "core (k\<lparr>shpr11 := x\<rparr>) = core k"
  by (simp_all add: kernel.truncate_def)

lemma cm_build_fields [simp]:
  "HARDRT_MAX_TASKS (cm_build L n p dbg) = n" "HARDRT_MAX_PRIO (cm_build L n p dbg) = p"
  "HARDRT_DEBUG (cm_build L n p dbg) = dbg"
  "HARDRT_MAX_TASKS (cm_sizes n p dbg tr) = n" "HARDRT_DEBUG (cm_sizes n p dbg tr) = dbg"
  "port_yield_to_scheduler (cm_build L n p dbg) = cm_yield_to_scheduler"
  "port_pend_context_switch (cm_build L n p dbg) = cm_pend_context_switch"
  "port_crit_enter (cm_build L n p dbg) = cm_crit_enter"
  "port_crit_exit (cm_build L n p dbg) = cm_crit_exit"
  "port_prepare_task_stack (cm_build L n p dbg) = cm_prepare_task_stack L (cm_sizes n p dbg (sym_trampoline L))"
  by (simp_all add: cm_build_def cm_sizes_def)

lemma cm_hook_core:
  "core (cm_pend_context_switch k) = core k" "core (snd (cm_yield_to_scheduler k)) = core k"
  "core (cm_enter_scheduler k) = core k" "core (cm_crit_enter k) = core k"
  "core (cm_crit_exit k) = core k" "core (cm_start_systick L hz k) = core k"
  by (simp_all add: cm_pend_context_switch_def cm_yield_to_scheduler_def cm_enter_scheduler_def cm_crit_enter_def
      cm_crit_exit_def cm_start_systick_def cm_core Let_def)

lemma set_sp_core:
  assumes "0 \<le> i" "i < int (HARDRT_MAX_TASKS B)" "length (g_tcbs k) = HARDRT_MAX_TASKS B"
  shows "sched_core (set_sp B i s k) = sched_core k"
proof -
  obtain j where j: "i = int j" using assms(1) nonneg_int_cases by blast
  then have "j < length (g_tcbs k)" using assms(2,3) by simp
  then have "sched_core (k\<lparr>g_tcbs := (g_tcbs k)[j := (g_tcbs k ! j)\<lparr>sp := s\<rparr>]\<rparr>) = sched_core k"
    by (simp add: sched_core_def kernel.truncate_def map_update list_update_same_conv)
  then show ?thesis
    using assms(2,3) j by (auto simp: set_sp_def hrt_error_def Let_def sched_core_def kernel.truncate_def)
qed

lemma push_words_core: "core (snd (push_words ws (a, k))) = core k"
  by (induction ws arbitrary: a k) (simp_all add: cm_core)

lemma push_words_fst: "fst (push_words ws (a, k)) = a - 4 * word_of_nat (length ws)"
proof (induction ws arbitrary: a k)
  case (Cons w ws)
  then show ?case by (simp add: distrib_left)
qed simp

declare push_words.simps [simp del]

interpretation cm: hrt_port "cm_build L n p dbg"
proof (unfold_locales, goal_cases)
  case (7 i k tramp base w)
  let ?B = "cm_sizes n p dbg (sym_trampoline L)"
  have "sched_core (hrt_error e k) = sched_core k" for e and k :: cortexm
    by (simp add: sched_core_def hrt_error_def kernel.truncate_def)
  moreover have "length (g_tcbs (snd (push_words ws (a, k)))) = HARDRT_MAX_TASKS ?B" for ws a
    using 7(3) core_fields(1) [OF push_words_core, of ws a k] by simp
  moreover note sched_core_of_core [OF push_words_core] set_sp_core [of i ?B]
  ultimately show ?case using 7(1,2)
    by (simp add: cm_prepare_task_stack_def Let_def split_beta)
next
  case (8 k)
  let ?B = "cm_sizes n p dbg (sym_trampoline L)"
  have *: "length (g_tcbs (snd (push_words ws (a, k)))) = HARDRT_MAX_TASKS ?B" for ws a
    using 8(2) core_fields(1) [OF push_words_core, of ws a k] by simp
  have "sched_core (set_sp ?B (HRT_IDLE_ID ?B) s (snd (push_words ws (a, k))\<lparr>g_idle_tcb := t\<rparr>)) = sched_core k"
    for s ws a t
  proof -
    have "sched_core (set_sp ?B (HRT_IDLE_ID ?B) s (snd (push_words ws (a, k))\<lparr>g_idle_tcb := t\<rparr>)) =
        sched_core (snd (push_words ws (a, k))\<lparr>g_idle_tcb := t\<rparr>)"
      using 8(1) * by (intro set_sp_core) (simp_all add: HRT_IDLE_ID_def)
    also have "\<dots> = sched_core k"
      by (rule sched_core_of_core) (simp add: cm_core push_words_core)
    finally show ?thesis .
  qed
  then show ?case by (simp add: cm_build_def cm_init_idle_task_def Let_def split_beta)
qed (simp_all add: cm_build_def cm_hook_core)

section \<open>Critical sections and tick source\<close>

lemma basepri_level: "prio_to_basepri HARDRT_MAX_SYSCALL_IRQ_PRIO = 0x50"
  by (simp add: prio_to_basepri_def HARDRT_NVIC_PRIO_BITS_def HARDRT_MAX_SYSCALL_IRQ_PRIO_def)

lemma cm_crit_balanced:
  assumes "g_cs_nest k + 1 \<noteq> 0"
  shows "cm_crit_exit (cm_crit_enter k) =
    (if g_cs_nest k = 0 then k\<lparr>g_basepri_prev := basepri k\<rparr> else k)"
  using assms by (cases k) (auto simp: cm_crit_enter_def cm_crit_exit_def Let_def)

lemma cm_crit_masks:
  assumes "g_cs_nest k = 0" "shpr10 k = 0xF0"
  shows "basepri (cm_crit_enter k) = 0x50" "\<not> pendsv_taken (cm_pend_context_switch (cm_crit_enter k))"
  using assms by (simp_all add: cm_crit_enter_def pendsv_taken_def cm_pend_context_switch_def basepri_level Let_def)

text \<open>The state inside \<open>m\<close> nested critical sections, entered from \<open>k\<close>.\<close>

definition masked :: "nat \<Rightarrow> cortexm \<Rightarrow> cortexm" where
  "masked m k = k\<lparr>g_basepri_prev := basepri k, basepri := 0x50, g_cs_nest := word_of_nat m\<rparr>"

lemma word_of_nat_nz: "0 < m \<Longrightarrow> m < 2 ^ 32 \<Longrightarrow> (word_of_nat m :: u32) \<noteq> 0"
  by (simp add: word_of_nat_eq_0_iff nat_dvd_not_less)

lemma cm_crit_enters:
  assumes "g_cs_nest k = 0" "m < 2 ^ 32 - 1"
  shows "(cm_crit_enter ^^ Suc m) k = masked (Suc m) k"
  using assms
proof (induction m)
  case (Suc m)
  have "(word_of_nat (Suc m) :: u32) \<noteq> 0" using Suc.prems(2) by (intro word_of_nat_nz) simp_all
  then have "cm_crit_enter (masked (Suc m) k) = masked (Suc (Suc m)) k"
    by (simp add: cm_crit_enter_def masked_def Let_def ac_simps)
  with Suc show ?case by (simp del: of_nat_Suc)
qed (simp add: cm_crit_enter_def Let_def basepri_level masked_def)

lemma cm_crit_exits:
  assumes "g_cs_nest k = 0" "m < 2 ^ 32" "j < m"
  shows "(cm_crit_exit ^^ j) (masked m k) = masked (m - j) k"
  using assms(3)
proof (induction j)
  case (Suc j)
  define i where "i = m - Suc j"
  have i: "m - j = Suc i" "0 < i" "Suc i < 2 ^ 32" using Suc.prems assms(2) by (auto simp: i_def)
  have "(word_of_nat (Suc i) :: u32) \<noteq> 0" "(word_of_nat i :: u32) \<noteq> 0" using i by (intro word_of_nat_nz; simp)+
  then have "cm_crit_exit (masked (Suc i) k) = masked i k"
    by (simp add: cm_crit_exit_def masked_def Let_def)
  with Suc i(1) show ?case by (simp add: i_def)
qed simp

lemma cm_crit_last_exit:
  assumes "g_cs_nest k = 0"
  shows "cm_crit_exit (masked 1 k) = k\<lparr>g_basepri_prev := basepri k\<rparr>"
  using assms by (cases k) (simp add: cm_crit_exit_def masked_def Let_def)

lemma cm_crit_underflow: "g_cs_nest k = 0 \<Longrightarrow> cm_crit_exit k = k"
  by (simp add: cm_crit_exit_def)

lemma cm_systick_reload:
  assumes "tick_hz \<noteq> 0" "g_tick_src k \<noteq> HRT_TICK_EXTERNAL"
  shows "unat (systick_load (cm_start_systick L tick_hz k)) + 1 =
    min 0xFFFFFF (max 1 (unat (hrt_port_get_core_hz L) div unat tick_hz))"
proof -
  have c: "hrt_port_get_core_hz L \<noteq> 0" by (simp add: hrt_port_get_core_hz_def)
  define q where "q = hrt_port_get_core_hz L div tick_hz"
  have q: "unat q = unat (hrt_port_get_core_hz L) div unat tick_hz" by (simp add: q_def unat_div)
  define r where "r = (let r = (if q = 0 then 1 else q) in if r > 0xFFFFFF then 0xFFFFFF else r)"
  have r: "unat r = min 0xFFFFFF (max 1 (unat q))"
  proof (cases "q = 0")
    case False
    then have "1 \<le> unat q" by (simp add: Suc_leI unat_gt_0)
    with False show ?thesis by (auto simp: r_def Let_def word_less_nat_alt min_def max_def)
  qed (simp add: r_def)
  then have "r \<noteq> 0" by auto
  then have "unat (r - 1) + 1 = unat r" by (simp add: unat_pred_pos unat_gt_0)
  moreover have "systick_load (cm_start_systick L tick_hz k) = r - 1"
    using assms c by (simp add: cm_start_systick_def hrt__cfg_tick_src_def r_def q_def Let_def)
  ultimately show ?thesis using q r by simp
qed

section \<open>Memory\<close>

lemma word_offset_inj:
  assumes "4 * i < 2 ^ 32" "4 * j < 2 ^ 32" "(a :: u32) + 4 * word_of_nat i = a + 4 * word_of_nat j"
  shows "i = j"
proof -
  have "(word_of_nat (4 * i) :: u32) = word_of_nat (4 * j)" using assms(3) by simp
  moreover have "unat (word_of_nat (4 * i) :: u32) = 4 * i" "unat (word_of_nat (4 * j) :: u32) = 4 * j"
    using assms(1,2) by (simp_all del: of_nat_mult)
  ultimately have "4 * i = 4 * j" by metis
  then show ?thesis by simp
qed

lemma store_words_frame:
  assumes "\<And>j. j < length ws \<Longrightarrow> x \<noteq> a + 4 * word_of_nat j"
  shows "store_words ws a m x = m x"
  using assms
proof (induction ws arbitrary: a m)
  case (Cons w ws)
  have "store_words ws (a + 4) (m(a := w)) x = (m(a := w)) x"
  proof (rule Cons.IH)
    show "x \<noteq> a + 4 + 4 * word_of_nat j" if "j < length ws" for j
      using Cons.prems [of "Suc j"] that by (simp add: distrib_left add.assoc)
  qed
  moreover have "x \<noteq> a" using Cons.prems [of 0] by simp
  ultimately show ?case by simp
qed simp

lemma store_words_nth:
  assumes "4 * length ws \<le> 2 ^ 32" "j < length ws"
  shows "store_words ws a m (a + 4 * word_of_nat j) = ws ! j"
  using assms
proof (induction ws arbitrary: a m j)
  case (Cons w ws)
  show ?case
  proof (cases j)
    case 0
    have "store_words ws (a + 4) (m(a := w)) a = (m(a := w)) a"
    proof (rule store_words_frame)
      show "a \<noteq> a + 4 + 4 * word_of_nat i" if "i < length ws" for i
        using word_offset_inj [of 0 "Suc i" a] that Cons.prems(1) by (auto simp: distrib_left add.assoc)
    qed
    then show ?thesis using 0 by simp
  next
    case (Suc i)
    have "store_words ws (a + 4) (m(a := w)) (a + 4 + 4 * word_of_nat i) = ws ! i"
      using Cons.prems Suc by (intro Cons.IH) simp_all
    then show ?thesis using Suc by (simp add: distrib_left add.assoc)
  qed
qed simp

lemma load_store_words:
  assumes "4 * length ws \<le> 2 ^ 32"
  shows "load_words (store_words ws a m) a (length ws) = ws"
  using assms by (intro nth_equalityI) (simp_all add: load_words_def store_words_nth)

lemma length_load_words [simp]: "length (load_words m a n) = n"
  by (simp add: load_words_def)

lemma unat_offset: "unat a + 4 * j < 2 ^ 32 \<Longrightarrow> unat ((a :: u32) + 4 * word_of_nat j) = unat a + 4 * j"
proof -
  assume a: "unat a + 4 * j < 2 ^ 32"
  have "unat (word_of_nat (4 * j) :: u32) = 4 * j" using a by (simp del: of_nat_mult)
  then have "unat (4 * word_of_nat j :: u32) = 4 * j" by simp
  then show ?thesis using a by (simp add: unat_word_ariths)
qed

lemma store_words_outside:
  assumes "unat a + 4 * length ws \<le> 2 ^ 32" "unat x < unat a \<or> unat a + 4 * length ws \<le> unat x"
  shows "store_words ws a m x = m x"
proof (rule store_words_frame)
  fix j assume "j < length ws"
  then have "unat (a + 4 * word_of_nat j) = unat a + 4 * j" "4 * j < 4 * length ws" using assms(1) by (auto intro!: unat_offset)
  then show "x \<noteq> a + 4 * word_of_nat j" using assms(2) by auto
qed

lemma load_words_cong:
  assumes "unat a + 4 * n \<le> 2 ^ 32" "\<And>x. unat a \<le> unat x \<Longrightarrow> unat x < unat a + 4 * n \<Longrightarrow> m x = m' x"
  shows "load_words m a n = load_words m' a n"
proof -
  have "m (a + 4 * word_of_nat j) = m' (a + 4 * word_of_nat j)" if "j < n" for j
    using that assms(1) by (intro assms(2)) (simp_all add: unat_offset)
  then show ?thesis by (simp add: load_words_def)
qed

lemma unat_plus_small: "unat (a :: u32) + unat b < 2 ^ 32 \<Longrightarrow> unat (a + b) = unat a + unat b"
  by (simp add: unat_word_ariths)

lemma unat_minus_small: "unat b \<le> unat (a :: u32) \<Longrightarrow> unat (a - b) = unat a - unat b"
  by (simp add: unat_sub word_le_nat_alt)

text \<open>Pushing words one by one downwards leaves them in memory in reverse order.\<close>

lemma push_words_snoc:
  "push_words (ws @ [w]) (a, k) =
     (let (b, k) = push_words ws (a, k) in (b - 4, k\<lparr>mem := (mem k)(b - 4 := w)\<rparr>))"
  by (induction ws arbitrary: a k) (simp_all add: push_words.simps)

lemma push_words_store:
  assumes "4 * length ws \<le> 2 ^ 32"
  shows "snd (push_words ws (a, k)) =
    k\<lparr>mem := store_words (rev ws) (a - 4 * word_of_nat (length ws)) (mem k)\<rparr>"
  using assms
proof (induction ws rule: rev_induct)
  case (snoc w ws)
  let ?b = "a - 4 * word_of_nat (length ws)"
  have st: "store_words xs (c + 4) (m(c := w)) = (store_words xs (c + 4) m)(c := w)"
    if "4 * length xs + 4 \<le> 2 ^ 32" for xs and c :: u32 and m
  proof
    fix x
    show "store_words xs (c + 4) (m(c := w)) x = ((store_words xs (c + 4) m)(c := w)) x"
    proof (cases "\<exists>j < length xs. x = c + 4 + 4 * word_of_nat j")
      case True
      then obtain j where j: "j < length xs" "x = c + 4 + 4 * word_of_nat j" by blast
      then have "x \<noteq> c"
        using word_offset_inj [of "Suc j" 0 c] that by (auto simp: distrib_left add.assoc)
      with j that show ?thesis by (simp add: store_words_nth)
    next
      case False
      then show ?thesis by (simp add: store_words_frame)
    qed
  qed
  have "snd (push_words (ws @ [w]) (a, k)) =
      k\<lparr>mem := (store_words (rev ws) ?b (mem k))(?b - 4 := w)\<rparr>"
    using snoc by (simp add: push_words_snoc Let_def split_beta push_words_fst)
  also have "\<dots> = k\<lparr>mem := store_words (rev (ws @ [w])) (?b - 4) (mem k)\<rparr>"
    using st [of "rev ws" "?b - 4" "mem k"] snoc.prems by simp
  also have "?b - 4 = a - 4 * word_of_nat (length (ws @ [w]))" by (simp add: distrib_left diff_diff_add add.commute)
  finally show ?case .
qed (simp add: push_words.simps)

section \<open>The frame of a new task\<close>

lemma align_down: "unat ((x :: u32) AND NOT 7) = unat x - unat x mod 8"
proof -
  have m: "(7 :: u32) = mask 3" by (simp add: mask_eq_exp_minus_1)
  have "x AND NOT 7 = push_bit 3 (drop_bit 3 x)"
    unfolding m by (rule bit_word_eqI) (auto simp: bit_simps not_le)
  then have "(x AND NOT 7) + take_bit 3 x = x" by (simp add: bits_ident)
  then have e: "x AND NOT 7 = x - take_bit 3 x" by (metis add_diff_cancel_right')
  have t: "unat (take_bit 3 x) = unat x mod 8" by (simp add: take_bit_eq_mod unat_mod)
  have "take_bit 3 x \<le> x" using t by (simp add: word_le_nat_alt)
  then show ?thesis unfolding e using t by (simp add: unat_sub)
qed

definition stack_top :: "u32 \<Rightarrow> u32 \<Rightarrow> u32" where
  "stack_top base n = (base + 4 * n) AND NOT 7"

definition first_frame :: "cm_link \<Rightarrow> u32 list" where
  "first_frame L = replicate 13 0 @ [0xFFFFFFFD, sym_trampoline L, 0x01000000]"

lemma stack_top_bounds:
  assumes "unat base + 4 * unat n < 2 ^ 32" "64 \<le> unat n"
  shows "unat base + 249 \<le> unat (stack_top base n)" "unat (stack_top base n) \<le> unat base + 4 * unat n"
    "unat (stack_top base n - 64) = unat (stack_top base n) - 64" "unat (stack_top base n - 64) mod 8 = 0"
    "unat (base + 4 * n) = unat base + 4 * unat n"
proof -
  have e: "unat (base + 4 * n) = unat base + 4 * unat n" using assms(1) by (simp add: unat_word_ariths)
  have t: "unat (stack_top base n) = (unat base + 4 * unat n) - (unat base + 4 * unat n) mod 8"
    by (simp only: stack_top_def align_down e)
  have "(unat base + 4 * unat n) mod 8 < 8" by simp
  then show lo: "unat base + 249 \<le> unat (stack_top base n)" and "unat (stack_top base n) \<le> unat base + 4 * unat n"
    using t assms(2) by linarith+
  have "(64 :: u32) \<le> stack_top base n" using lo by (simp add: word_le_nat_alt)
  then show s: "unat (stack_top base n - 64) = unat (stack_top base n) - 64" by (simp add: unat_sub)
  have "unat (stack_top base n) mod 8 = 0" by (simp only: t minus_mod_eq_mult_div mod_mult_self1_is_0)
  with lo show "unat (stack_top base n - 64) mod 8 = 0" unfolding s by presburger
  show "unat (base + 4 * n) = unat base + 4 * unat n" by (rule e)
qed

lemma prepare_frame:
  assumes "unat base + 4 * unat n < 2 ^ 32" "64 \<le> unat n"
  shows "cm_prepare_task_stack L B i tramp base n k = set_sp B i (stack_top base n - 64)
    (k\<lparr>mem := store_words (first_frame L) (stack_top base n - 64) (mem k)\<rparr>)"
proof -
  let ?ws = "[0x01000000, sym_trampoline L, 0xFFFFFFFD, 0, 0, 0, 0, 0, 0, 0, 0, 0, 0, 0, 0, 0]"
  let ?t = "stack_top base n"
  note b = stack_top_bounds [OF assms]
  have push: "push_words ?ws (?t, k) = (?t - 64, k\<lparr>mem := store_words (rev ?ws) (?t - 64) (mem k)\<rparr>)"
    using push_words_fst [of ?ws ?t k] push_words_store [of ?ws ?t k] by (simp add: prod_eq_iff)
  have rev: "rev ?ws = first_frame L" by (simp add: first_frame_def numeral_eq_Suc)
  have g: "\<not> ?t \<le> base" "\<not> ?t > base + 4 * n" "\<not> ?t - 64 < base"
    using b by (simp_all add: word_le_nat_alt word_less_nat_alt)
  show ?thesis
    using g push unfolding cm_prepare_task_stack_def rev [symmetric] stack_top_def by (simp add: Let_def)
qed

section \<open>The context switch\<close>

lemma cm_run_add: "cm_run B (m + n) s = cm_run B n (cm_run B m s)"
  by (induction m arbitrary: s) simp_all

lemma cm_run_returned: "pc (fst s) = Returned w \<Longrightarrow> cm_run B n s = s"
  by (induction n) (simp_all add: cm_step_def)

text \<open>The state in which the handler calls \<open>hrt__schedule\<close>: interrupts off, r4-r11 saved below the
  process stack pointer.\<close>

definition switched_out :: "cortexm \<Rightarrow> cortexm" where
  "switched_out k = k\<lparr>pendsv_set := False, primask := True,
     mem := store_words (r4_r11 k) (psp k - 32) (mem k)\<rparr>"

definition switched_in :: "u32 \<Rightarrow> cortexm \<Rightarrow> cortexm" where
  "switched_in s k = k\<lparr>r4_r11 := load_words (mem k) s 8, psp := s + 32, primask := False\<rparr>"

lemma PendSV_switches:
  assumes "psp k \<noteq> 0" "hrt__schedule B (psp k - 32) (switched_out k) = (s, k')" "s \<noteq> 0" "12 \<le> fuel"
  shows "PendSV_Handler B fuel exc g k = Some (0xFFFFFFFD, switched_in s k')"
proof -
  obtain m where m: "fuel = 12 + m" using assms(4) le_Suc_ex by blast
  have "cm_run B 12 (PendSV_entry exc g k) =
      (g\<lparr>pc := Returned 0xFFFFFFFD, r0 := s + 32, r1 := 0xFFFFFFFD, lr := ExcReturn 0xFFFFFFFD\<rparr>, switched_in s k')"
    using assms(1-3)
    by (simp add: eval_nat_numeral cm_step_def pendsv_code_def PendSV_entry_def switched_out_def switched_in_def)
  then show ?thesis by (simp add: PendSV_Handler_def m cm_run_add cm_run_returned)
qed

lemma PendSV_first_switch:
  assumes "psp k = 0" "hrt__schedule B 0 (k\<lparr>pendsv_set := False, primask := True\<rparr>) = (s, k')" "s \<noteq> 0" "12 \<le> fuel"
  shows "PendSV_Handler B fuel exc g k = Some (0xFFFFFFFD, switched_in s k')"
proof -
  obtain m where m: "fuel = 12 + m" using assms(4) le_Suc_ex by blast
  have "cm_run B 12 (PendSV_entry exc g k) =
      (g\<lparr>pc := Returned 0xFFFFFFFD, r0 := s + 32, r1 := 0xFFFFFFFD, lr := ExcReturn 0xFFFFFFFD\<rparr>, switched_in s k')"
    using assms(1-3)
    by (simp add: eval_nat_numeral cm_step_def pendsv_code_def PendSV_entry_def switched_in_def)
  then show ?thesis by (simp add: PendSV_Handler_def m cm_run_add cm_run_returned)
qed

text \<open>When \<open>hrt__schedule\<close> returns 0 the handler branches to \<open>resume\<close> with the link register that
  \<open>bl\<close> left, so \<open>bx lr\<close> leads back behind the call, for ever.\<close>

definition spinning :: "cm_regs \<Rightarrow> bool" where
  "spinning g \<longleftrightarrow> r0 g = 0 \<and> (\<exists>l \<in> {5, 14}. lr g = ReturnTo l \<and> pc g \<in> {At l, At 21, At 22})"

lemma spinning_run: "spinning (fst s) \<Longrightarrow> spinning (fst (cm_run B n s))"
proof (induction n arbitrary: s)
  case (Suc n)
  obtain g k where s: "s = (g, k)" by (cases s)
  have "spinning (fst (cm_step B s))"
    using Suc.prems by (auto simp: s spinning_def cm_step_def pendsv_code_def eval_nat_numeral)
  then show ?case using Suc.IH by simp
qed simp

lemma PendSV_stuck:
  assumes "psp k \<noteq> 0" "fst (hrt__schedule B (psp k - 32) (switched_out k)) = 0"
  shows "PendSV_Handler B fuel exc g k = None"
proof -
  obtain k' where sc: "hrt__schedule B (psp k - 32) (switched_out k) = (0, k')"
    using assms(2) by (metis prod.collapse)
  have five: "spinning (fst (cm_run B 5 (PendSV_entry exc g k)))"
    using assms(1) sc
    by (simp add: eval_nat_numeral cm_step_def pendsv_code_def PendSV_entry_def switched_out_def spinning_def)
  have early: "pc (fst (cm_run B n (PendSV_entry exc g k))) = At n" if "n < 5" for n
    using that assms(1)
    by (auto simp: less_Suc_eq eval_nat_numeral cm_step_def pendsv_code_def PendSV_entry_def split_beta)
  have "\<exists>n. pc (fst (cm_run B fuel (PendSV_entry exc g k))) = At n"
  proof (cases "fuel < 5")
    case False
    then obtain m where "fuel = 5 + m" using le_Suc_ex not_less by blast
    then have "spinning (fst (cm_run B fuel (PendSV_entry exc g k)))"
      using spinning_run [OF five, of B m] by (simp add: cm_run_add)
    then show ?thesis by (auto simp: spinning_def)
  qed (use early in auto)
  then show ?thesis by (auto simp: PendSV_Handler_def split: prod.split)
qed

lemma more_schedule: "kernel.more (snd (hrt__schedule B s k)) = kernel.more k"
proof -
  have g: "kernel.more (snd (get_sp B i k)) = kernel.more k" for i k by (simp add: get_sp_def Let_def)
  have t: "kernel.more (set_sp B i s k) = kernel.more k" for i s k by (simp add: set_sp_def Let_def)
  have m: "kernel.more (hrt_error e k) = kernel.more k" for e k by simp
  show ?thesis by (simp add: hrt__schedule_def Let_def split_beta g t)
qed

lemma cm_more:
  assumes "kernel.more (a :: cortexm) = kernel.more b"
  shows "mem a = mem b" "psp a = psp b" "r4_r11 a = r4_r11 b" "basepri a = basepri b" "primask a = primask b"
    "pendsv_set a = pendsv_set b"
  using assms by (cases a; cases b; simp)+

lemma switched_out_core: "core (switched_out k) = core k"
  by (simp add: switched_out_def kernel.truncate_def)

lemma switched_in_core: "core (switched_in s k) = core k"
  by (simp add: switched_in_def kernel.truncate_def)

lemma preempted_rq_core:
  assumes "core a = core b"
  shows "preempted_rq B a = preempted_rq B b"
  by (simp add: preempted_rq_def Let_def core_fields(1,2) [OF assms] rq_list_core [OF sched_core_of_core [OF assms]])

text \<open>One switch, from the interrupted task to the next: the whole handler, with \<open>hrt__schedule\<close>.\<close>

lemma PendSV_effect:
  assumes inv: "kinv B {c} k" "g_current k = int c" "c < HARDRT_MAX_TASKS B"
    and ps: "psp k \<noteq> 0" "psp k \<noteq> 32"
  defines "n \<equiv> nat (pick_id B (fst (spec_pick (preempted_rq B k))))"
  defines "ts \<equiv> (g_tcbs k)[c := (g_tcbs k ! c)\<lparr>sp := psp k - 32\<rparr>]"
  assumes nz: "sp (ts ! n) \<noteq> 0"
  obtains k' where "PendSV_Handler B 12 exc g k = Some (0xFFFFFFFD, k')"
    "g_current k' = int n" "kinv B {n} k'" "abs_rq B k' = snd (spec_pick (preempted_rq B k))" "g_tcbs k' = ts"
    "mem k' = store_words (r4_r11 k) (psp k - 32) (mem k)"
    "psp k' = sp (ts ! n) + 32" "r4_r11 k' = load_words (mem k') (sp (ts ! n)) 8"
    "\<not> primask k'" "g_error k' = g_error k" "g_fault k' = g_fault k" "n < HARDRT_MAX_TASKS B"
proof -
  define k0 where "k0 = switched_out k"
  have c0: "core k0 = core k" by (simp add: k0_def switched_out_core)
  note f = core_fields [OF c0]
  have s: "psp k - 32 \<noteq> 0" using ps(2) by simp
  have i0: "kinv B {c} k0" "g_current k0 = int c" using inv(1,2) kinv_same_core [OF c0] f(2) by simp_all
  note sw = schedule_switch [OF i0 inv(3) s, unfolded preempted_rq_core [OF c0] f(1,9,11)]
  let ?i = "pick_id B (fst (spec_pick (preempted_rq B k)))"
  obtain s' k1 where sc: "hrt__schedule B (psp k - 32) k0 = (s', k1)" by fastforce
  note sw = sw [unfolded sc fst_conv snd_conv]
  have i: "?i = int n" "n < HARDRT_MAX_TASKS B" using sw(8,9) by (simp_all add: n_def)
  have ts: "g_tcbs k1 = ts" using sw(4) by (simp add: ts_def)
  have s': "s' = sp (ts ! n)" using sw(5) i(1) by (simp add: ts)
  have m: "kernel.more k1 = kernel.more k0" using more_schedule [of B "psp k - 32" k0] sc by simp
  have P: "PendSV_Handler B 12 exc g k = Some (0xFFFFFFFD, switched_in s' k1)"
    using PendSV_switches [OF ps(1) sc [unfolded k0_def] nz [folded s'], of 12] by simp
  note q = core_fields [OF switched_in_core [of s' k1]]
  note qs = sched_core_of_core [OF switched_in_core [of s' k1]]
  show ?thesis
  proof (rule that [OF P])
    show "g_current (switched_in s' k1) = int n" using q(2) sw(1) i(1) by simp
    show "kinv B {n} (switched_in s' k1)" using kinv_core [OF qs] sw(2) i(1) by simp
    show "abs_rq B (switched_in s' k1) = snd (spec_pick (preempted_rq B k))"
      using rq_list_core [OF qs, of B] sw(3) by (simp add: abs_rq_def)
    show "g_tcbs (switched_in s' k1) = ts" using q(1) ts by simp
    show "mem (switched_in s' k1) = store_words (r4_r11 k) (psp k - 32) (mem k)"
      using cm_more(1) [OF m] by (simp add: switched_in_def k0_def switched_out_def)
    show "g_error (switched_in s' k1) = g_error k" "g_fault (switched_in s' k1) = g_fault k"
      using q(9,11) sw(6,7) by simp_all
    show "n < HARDRT_MAX_TASKS B" by (rule i(2))
  qed (simp_all add: switched_in_def s')
qed

text \<open>The registers a task had when it was switched out are the ones it gets back, as long as the
  eight words below its stack pointer are left alone in between.\<close>

lemma context_restored:
  assumes "length (r4_r11 k) = 8"
    "\<And>j. j < 8 \<Longrightarrow> m (psp k - 32 + 4 * word_of_nat j) = mem (switched_out k) (psp k - 32 + 4 * word_of_nat j)"
  shows "load_words m (psp k - 32) 8 = r4_r11 k" "psp k - 32 + 32 = psp k"
proof -
  have "load_words m (psp k - 32) 8 = load_words (store_words (r4_r11 k) (psp k - 32) (mem k)) (psp k - 32) 8"
    using assms(2) by (simp add: load_words_def switched_out_def)
  also have "\<dots> = r4_r11 k" using load_store_words [of "r4_r11 k" "psp k - 32" "mem k"] assms(1) by simp
  finally show "load_words m (psp k - 32) 8 = r4_r11 k" .
qed simp

text \<open>The first switch into a prepared task: r4-r11 are 0, and the hardware pops a frame that
  continues at the trampoline in Thumb state with the stack at its aligned top.\<close>

lemma load_words_split: "load_words m a (i + j) = load_words m a i @ load_words m (a + 4 * word_of_nat i) j"
  by (rule nth_equalityI) (auto simp: load_words_def nth_append algebra_simps simp flip: of_nat_add)

lemma first_dispatch:
  assumes "load_words (mem k) s 16 = first_frame L"
  shows "r4_r11 (switched_in s k) = replicate 8 0"
    "hw_unstack (switched_in s k) =
       ([0, 0, 0, 0, 0, 0xFFFFFFFD, sym_trampoline L, 0x01000000], (switched_in s k)\<lparr>psp := s + 64\<rparr>)"
proof -
  have sp: "load_words (mem k) s 8 @ load_words (mem k) (s + 32) 8 = first_frame L"
    using assms load_words_split [of "mem k" s 8 8] by simp
  have ff: "first_frame L = replicate 8 0 @ [0, 0, 0, 0, 0, 0xFFFFFFFD, sym_trampoline L, 0x01000000]"
    by (simp add: first_frame_def numeral_eq_Suc)
  have lo: "load_words (mem k) s 8 = replicate 8 0"
    and hi: "load_words (mem k) (s + 32) 8 = [0, 0, 0, 0, 0, 0xFFFFFFFD, sym_trampoline L, 0x01000000]"
    using sp unfolding ff by (simp_all add: append_eq_append_conv)
  show "r4_r11 (switched_in s k) = replicate 8 0" using lo by (simp add: switched_in_def)
  show "hw_unstack (switched_in s k) =
       ([0, 0, 0, 0, 0, 0xFFFFFFFD, sym_trampoline L, 0x01000000], (switched_in s k)\<lparr>psp := s + 64\<rparr>)"
    using hi by (simp add: hw_unstack_def switched_in_def add.assoc)
qed

section \<open>Yielding on a port that preempts\<close>

text \<open>\<open>hrt_yield\<close> queues the caller and \<open>hrt__schedule\<close>, which the switch then runs, queues it
  again. With nothing else ready the caller goes on, but one stale entry stays behind in its
  queue; the next \<open>hrt_sleep\<close> marks the task asleep, and the switch picks the stale entry.\<close>

lemma kshape_write: "kshape B (k\<lparr>g_tcbs := (g_tcbs k)[i := t]\<rparr>) = kshape B k"
  by (simp add: kshape_def)

lemma kshape_core: "core a = core b \<Longrightarrow> kshape B a = kshape B b"
  using core_fields(1,10) [of a b] by (simp add: kshape_def)

text \<open>A running task that is in its ready queue already is queued once more by the switch, which then picks it.\<close>

lemma schedule_requeues_queued:
  assumes "kshape B k" "g_current k = int c" "c < HARDRT_MAX_TASKS B" "1 < HARDRT_MAX_TASKS B"
    "state (g_tcbs k ! c) = HRT_READY" "unat (prio (g_tcbs k ! c)) < HARDRT_MAX_PRIO B"
    "\<forall>r < HARDRT_MAX_PRIO B. rq_list B k r = (if r = unat (prio (g_tcbs k ! c)) then [c] else [])" "s \<noteq> 0"
  defines "k' \<equiv> snd (hrt__schedule B s k)"
  shows "g_current k' = int c" "kshape B k'" "g_tcbs k' = (g_tcbs k)[c := (g_tcbs k ! c)\<lparr>sp := s\<rparr>]"
    "rq_list B k' r = rq_list B k r"
proof -
  let ?p = "unat (prio (g_tcbs k ! c))"
  let ?k1 = "k\<lparr>g_tcbs := (g_tcbs k)[c := (g_tcbs k ! c)\<lparr>sp := s\<rparr>]\<rparr>"
  have one: "rq_list B k ?p = [c]" using assms(6,7) by simp
  have k1: "kshape B ?k1" "length (rq_list B ?k1 ?p) < HARDRT_MAX_TASKS B"
    using assms(1,4) one by (simp_all add: kshape_write)
  note push = rq_push_room [OF k1(1) assms(6,3) k1(2)]
  have rq: "requeued B c s k = rq_push B (prio (g_tcbs k ! c)) (int c) ?k1" using assms(5) by (simp add: requeued_def Let_def)
  have "rq_list B (requeued B c s k) q = []" if "q < ?p" for q using push(2) [of q] that assms(6,7) by (simp add: rq)
  moreover have "rq_list B (requeued B c s k) ?p = [c, c]" using push(2) [of ?p] one by (simp add: rq)
  moreover have "kshape B (requeued B c s k)" using push(1) by (simp add: rq)
  ultimately have f: "g_current k' = int c" "kshape B k'" "g_tcbs k' = (g_tcbs k)[c := (g_tcbs k ! c)\<lparr>sp := s\<rparr>]"
    "\<And>q. rq_list B k' q = (if q = ?p then [c] else rq_list B (requeued B c s k) q)"
    using schedule_found [OF assms(1,2,3,8) _ assms(6,3), of "[c]"] by (simp_all add: k'_def)
  show "g_current k' = int c" "kshape B k'" "g_tcbs k' = (g_tcbs k)[c := (g_tcbs k ! c)\<lparr>sp := s\<rparr>]" by (rule f)+
  show "rq_list B k' r = rq_list B k r" using f(4) push(2) [of r] one by (simp add: rq)
qed

lemma cm_yield_stale:
  assumes "kinv (cm_build L n p dbg) {c} k" "g_current k = int c" "c < n" "1 < n" "state (g_tcbs k ! c) = HRT_READY"
    "\<forall>r < p. rq_list (cm_build L n p dbg) k r = []" "s \<noteq> 0"
  defines "B \<equiv> cm_build L n p dbg"
  defines "k' \<equiv> snd (hrt__schedule B s (snd (hrt_yield B k)))"
  shows "g_current k' = int c" "kshape B k'" "state (g_tcbs k' ! c) = HRT_READY"
    "rq_list B k' r = (if r = unat (prio (g_tcbs k ! c)) then [c] else rq_list B k r)"
    "prio (g_tcbs k' ! c) = prio (g_tcbs k ! c)"
proof -
  let ?k = "snd (hrt_yield B k)" and ?p = "unat (prio (g_tcbs k ! c))"
  have cN: "c < HARDRT_MAX_TASKS (cm_build L n p dbg)" using assms(3) by simp
  note y = cm.yield_running [OF assms(1,2) cN assms(5), folded B_def]
  note sz = kwf_sizes [OF kinv_kwf [OF assms(1)]]
  have sh: "kshape B ?k" using kwf_shape [OF kinv_kwf [OF y(1)]] .
  have p: "?p < p" using kwf_prio [OF kinv_kwf [OF assms(1)] cN] assms(5) by simp
  have t: "state (g_tcbs ?k ! c) = HRT_READY" "prio (g_tcbs ?k ! c) = prio (g_tcbs k ! c)"
    using y(2) assms(3,5) sz(2) by simp_all
  have cB: "c < HARDRT_MAX_TASKS B" "?p < HARDRT_MAX_PRIO B" using assms(3) p by (simp_all add: B_def)
  have rl: "\<forall>r < HARDRT_MAX_PRIO B. rq_list B ?k r = (if r = unat (prio (g_tcbs ?k ! c)) then [c] else [])"
    using y(3) assms(6) [folded B_def] t(2) by (simp add: B_def)
  have cur: "g_current ?k = int c" using y(6) assms(2) by simp
  have n: "1 < HARDRT_MAX_TASKS B" using assms(4) by (simp add: B_def)
  note f = schedule_requeues_queued [OF sh cur cB(1) n t(1) cB(2) [folded t(2)] rl assms(7), folded k'_def]
  show "g_current k' = int c" "kshape B k'" by (rule f)+
  show "state (g_tcbs k' ! c) = HRT_READY" "prio (g_tcbs k' ! c) = prio (g_tcbs k ! c)"
    using f(3) t y(2) assms(3) sz(2) by simp_all
  show "rq_list B k' r = (if r = ?p then [c] else rq_list B k r)"
    using f(4) y(3) [of r] assms(6) [folded B_def] p by auto
qed

lemma cm_stale_sleep:
  fixes ms :: u32
  assumes "kshape (cm_build L n p dbg) k" "g_current k = int c" "c < n" "r < p"
    "rq_list (cm_build L n p dbg) k r = c # js" "\<forall>q < r. rq_list (cm_build L n p dbg) k q = []" "s \<noteq> 0"
  defines "B \<equiv> cm_build L n p dbg"
  defines "k' \<equiv> snd (hrt__schedule B s (snd (hrt_sleep B ms k)))"
  shows "g_current k' = int c" "state (g_tcbs k' ! c) = HRT_SLEEP"
proof -
  let ?k = "snd (hrt_sleep B ms k)"
  let ?t = "(g_tcbs k ! c)\<lparr>wake_tick := g_tick k + hrt__ms_to_ticks ms (g_tick_hz k), state := HRT_SLEEP\<rparr>"
  have sz: "length (g_tcbs k) = n" using kshapeD(2) [OF assms(1)] by simp
  have eq: "?k = snd (cm_yield_to_scheduler (cm_pend_context_switch (k\<lparr>g_tcbs := (g_tcbs k)[c := ?t]\<rparr>)))"
    using assms(2,3) sz by (simp add: hrt_sleep_def Let_def B_def)
  have co: "core ?k = core (k\<lparr>g_tcbs := (g_tcbs k)[c := ?t]\<rparr>)" by (simp add: eq cm_hook_core)
  note f = core_fields [OF co]
  have rl: "rq_list B ?k = rq_list B k" using rq_list_cong [OF f(10), of B] by simp
  have sh: "kshape B ?k" using kshape_core [OF co, of B] assms(1) [folded B_def] by (simp add: kshape_write)
  have st: "state (g_tcbs ?k ! c) = HRT_SLEEP" "g_current ?k = int c" using f(1,2) assms(2,3) sz by simp_all
  have rq: "requeued B c s ?k = ?k\<lparr>g_tcbs := (g_tcbs ?k)[c := (g_tcbs ?k ! c)\<lparr>sp := s\<rparr>]\<rparr>"
    using st(1) by (simp add: requeued_def Let_def)
  have *: "kshape B (requeued B c s ?k)" "rq_list B (requeued B c s ?k) r = c # js"
    "\<And>q. q < r \<Longrightarrow> rq_list B (requeued B c s ?k) q = []"
    using sh rl assms(5,6) [folded B_def] by (simp_all add: rq kshape_write)
  have b: "c < HARDRT_MAX_TASKS B" "r < HARDRT_MAX_PRIO B" using assms(3,4) by (simp_all add: B_def)
  note sf = schedule_found [OF sh st(2) b(1) assms(7) *(1) b(2,1) *(2,3)]
  show "g_current k' = int c" using sf(1) by (simp add: k'_def)
  show "state (g_tcbs k' ! c) = HRT_SLEEP" using sf(3) st(1) f(1) assms(3) sz by (simp add: k'_def)
qed

end
