(* ===== verification/HRT_Demo.thy ===== *)
theory HRT_Demo
  imports HRT_Port_Null HRT_Port_Posix HRT_Port_CortexM
begin

text \<open>
  Small concrete systems the properties are exercised on: builds with three slots (the last one
  is the idle slot) and two priorities, and kernels made of a list of control blocks and the
  content of the ready queues.
\<close>

definition demo_tcb :: "hrt_state \<Rightarrow> u8 \<Rightarrow> hrt_tcb" where
  "demo_tcb st p = zero_tcb\<lparr>sp := 0x20001000, state := st, prio := p, timeslice_cfg := 2, slice_left := 2\<rparr>"

definition demo_rq :: "nat list \<Rightarrow> prio_q" where
  "demo_rq ids = \<lparr>rq_q = map word_of_nat ids @ replicate (3 - length ids) 0, rq_head = 0,
     rq_tail = word_of_nat (length ids mod 3), rq_count = word_of_nat (length ids)\<rparr>"

definition demo_kernel :: "hrt_tcb list \<Rightarrow> nat list list \<Rightarrow> int \<Rightarrow> kernel" where
  "demo_kernel ts qs cur = \<lparr>g_tcbs = ts, g_current = cur, g_tick = 0, g_tick_hz = 1000,
     g_policy = HRT_SCHED_PRIORITY_RR, g_default_slice = 5, g_core_hz = 0, g_tick_src = HRT_TICK_SYSTICK,
     g_error = NONE, g_rq = map demo_rq qs, g_fault = False\<rparr>"

definition demo_ctx :: port_ctx where
  "demo_ctx = \<lparr>ctx = \<lparr>ss_sp = 0x1000, ss_size = 1024, uc_link = True, uc_blocked = False, uc_resume = AtTrampoline\<rparr>,
     stk_ptr = 0x1000, stk_bytes = 1024, valid = True\<rparr>"

definition demo_posix :: "hrt_tcb list \<Rightarrow> nat list list \<Rightarrow> int \<Rightarrow> posix" where
  "demo_posix ts qs cur = kernel.extend (demo_kernel ts qs cur)
     (posix.fields 0 [demo_ctx, demo_ctx, demo_ctx] True False False True False 0 False True 1000
        (if cur < 0 then LoopTop else InTask (nat cur)))"

definition demo_link :: cm_link where
  "demo_link = \<lparr>ram_start = 0x20000000, ram_end = 0x20020000, SystemCoreClock = 64000000,
     g_idle_stack = 0x20000100, sym_idle_task = 0x8000101, sym_trampoline = 0x8000201\<rparr>"

definition demo_cm :: "hrt_tcb list \<Rightarrow> nat list list \<Rightarrow> int \<Rightarrow> cortexm" where
  "demo_cm ts qs cur = kernel.extend (demo_kernel ts qs cur)
     (cortexm.fields 0 0 zero_tcb (\<lambda>_. 0) 0 False 0x20002000 0x20010000 [1, 2, 3, 4, 5, 6, 7, 8] False 0 0 0 0xF0 0xE0
        \<lparr>f_r0 = 0, f_r1 = 0, f_r2 = 0, f_r3 = 0, f_r12 = 0, f_lr = 0, f_pc = 0, f_psr = 0, f_cfsr = 0, f_hfsr = 0,
         f_bfar = 0, f_afsr = 0, f_psp = 0, f_msp = 0\<rparr>)"

definition PB :: "posix build" where "PB = posix_build 3 2 True 0x100"

definition CB :: "cortexm build" where "CB = cm_build demo_link 3 2 True"

abbreviation (input) "ready1 \<equiv> demo_tcb HRT_READY 1"
abbreviation (input) "asleep1 \<equiv> (demo_tcb HRT_SLEEP 1)\<lparr>wake_tick := 2\<rparr>"
abbreviation (input) "blocked1 \<equiv> demo_tcb HRT_BLOCKED 1"
abbreviation (input) "free0 \<equiv> demo_tcb HRT_UNUSED 0"

text \<open>Task 0 runs while task 1 is ready, asleep or blocked.\<close>

definition P_ready :: posix where "P_ready = demo_posix [ready1, ready1, free0] [[], [1]] 0"
definition P_asleep :: posix where "P_asleep = demo_posix [ready1, asleep1, free0] [[], []] 0"
definition P_blocked :: posix where "P_blocked = demo_posix [ready1, blocked1, free0] [[], []] 0"
definition P_sched :: posix where "P_sched = (demo_posix [ready1, ready1, free0] [[], [1, 0]] (-1))\<lparr>g_switch_pending := True\<rparr>"
definition P_one :: posix where "P_one = demo_posix [ready1, free0, free0] [[], []] 0"
definition C_ready :: cortexm where "C_ready = demo_cm [ready1, ready1, free0] [[], [1]] 0"
definition C_blocked :: cortexm where "C_blocked = demo_cm [ready1, blocked1, free0] [[], []] 0"
definition C_one :: cortexm where "C_one = demo_cm [ready1, free0, free0] [[], []] 0"

lemma demo_kinv:
  "kinv PB {0} P_ready" "kinv PB {0} P_asleep" "kinv PB {0} P_blocked" "kinv PB {} P_sched" "kinv PB {0} P_one"
  "kinv CB {0} C_ready" "kinv CB {0} C_blocked" "kinv CB {0} C_one"
  by code_simp+

end
