(* ===== verification/HRT_Fairness.thy ===== *)
theory HRT_Fairness
  imports HRT_Demo
begin

text \<open>
  Round robin among tasks of equal priority on the POSIX port: a turn is the call of \<open>hrt_yield\<close> by
  the running task followed by one round of the loop of \<open>hrt_port_enter_scheduler\<close>. Turns rotate the
  list of the running task and the queue behind it, so that every task of the list runs again after
  as many turns as the list is long.
\<close>

definition posix_turn :: "bool \<Rightarrow> posix build \<Rightarrow> posix \<Rightarrow> posix" where
  "posix_turn hooks B k = posix_sched_pass hooks B (posix_sched_back B (snd (hrt_yield B k)))"

definition rr_line :: "bool \<Rightarrow> posix build \<Rightarrow> nat \<Rightarrow> nat list \<Rightarrow> posix \<Rightarrow> bool" where
  "rr_line hooks B r ys k \<longleftrightarrow> ys \<noteq> [] \<and> r < HARDRT_MAX_PRIO B \<and> \<not> (hooks \<and> g_test_stop k) \<and>
     kinv B {hd ys} k \<and> g_current k = int (hd ys) \<and> rq_list B k r = tl ys \<and>
     (\<forall>q < r. rq_list B k q = []) \<and>
     (\<forall>i \<in> set ys. Suc i < HARDRT_MAX_TASKS B \<and> valid (g_ctxs k ! i) \<and>
        state (g_tcbs k ! i) = HRT_READY \<and> unat (prio (g_tcbs k ! i)) = r)"

lemma preempted_rq_line:
  assumes "g_current k = int c" "state (g_tcbs k ! c) = HRT_READY" "unat (prio (g_tcbs k ! c)) = r" "r < HARDRT_MAX_PRIO B"
  shows "preempted_rq B k = (abs_rq B k)[r := rq_list B k r @ [c]]"
  using assms by (auto simp: preempted_rq_def abs_rq_def Let_def intro!: nth_equalityI)

lemma rr_turn:
  assumes "rr_line hooks (posix_build n p dbg tramp) r ys k"
  shows "rr_line hooks (posix_build n p dbg tramp) r (rotate1 ys) (posix_turn hooks (posix_build n p dbg tramp) k)"
proof -
  define B where "B = posix_build n p dbg tramp"
  obtain c xs where ys: "ys = c # xs" using assms by (cases ys) (auto simp: rr_line_def)
  define i js where "i = hd (xs @ [c])" and "js = tl (xs @ [c])"
  have ij: "xs @ [c] = i # js" by (cases xs) (simp_all add: i_def js_def)
  have L: "kinv B {c} k" "g_current k = int c" "rq_list B k r = xs" "\<And>q. q < r \<Longrightarrow> rq_list B k q = []" "r < p"
    "\<not> (hooks \<and> g_test_stop k)" and T: "\<And>j. j \<in> set (c # xs) \<Longrightarrow> Suc j < n \<and> valid (g_ctxs k ! j) \<and>
        state (g_tcbs k ! j) = HRT_READY \<and> unat (prio (g_tcbs k ! j)) = r"
    using assms by (auto simp: rr_line_def ys B_def)
  have c: "Suc c < n" "state (g_tcbs k ! c) = HRT_READY" "valid (g_ctxs k ! c)" "unat (prio (g_tcbs k ! c)) = r"
    using T [of c] by simp_all
  have i: "i \<in> set (c # xs)" "set (c # xs) = set (i # js)" using ij by (metis list.set_intros(1) rotate1.simps(2) set_rotate1)+
  have len: "length (abs_rq B k) = p" by (simp add: abs_rq_def B_def)
  have pick: "spec_pick (preempted_rq B k) = (Some i, (abs_rq B k)[r := js])"
    using spec_pick_some [of r "(abs_rq B k)[r := i # js]" i js] L(3-5) len c(2,4) L(2)
    by (simp add: preempted_rq_line B_def ij abs_rq_def flip: B_def)
  note y = posix_yield_roundtrip [OF L(1) [unfolded B_def] L(2) c(1,2,3) L(6) pick [unfolded B_def],
      folded B_def posix_turn_def]
  have in': "Suc i < n" using T i by auto
  note y = y [OF in']
  have rq: "rq_list B (posix_turn hooks B k) q = (if q = r then js else rq_list B k q)" if "q < p" for q
    using arg_cong [OF y(4), of "\<lambda>l. l ! q"] that L(5) by (auto simp: abs_rq_def B_def nth_list_update)
  have t: "state (g_tcbs (posix_turn hooks B k) ! j) = state (g_tcbs k ! j)"
    "prio (g_tcbs (posix_turn hooks B k) ! j) = prio (g_tcbs k ! j)" for j
    using y(5) by (auto simp: nth_update_if)
  have T': "\<forall>j \<in> set (i # js). Suc j < n \<and> valid (g_ctxs (posix_turn hooks B k) ! j) \<and>
      state (g_tcbs (posix_turn hooks B k) ! j) = HRT_READY \<and> unat (prio (g_tcbs (posix_turn hooks B k) ! j)) = r"
    using T unfolding i(2) t y(6) by blast
  have "HARDRT_MAX_TASKS B = n" "HARDRT_MAX_PRIO B = p" by (simp_all add: B_def)
  then have "rr_line hooks B r (i # js) (posix_turn hooks B k)"
    unfolding rr_line_def using y(2,3,7) rq L(4-6) T' by simp
  then show ?thesis using ij by (simp add: ys B_def)
qed

lemma rr_turns:
  assumes "rr_line hooks (posix_build n p dbg tramp) r ys k"
  shows "rr_line hooks (posix_build n p dbg tramp) r (rotate j ys) ((posix_turn hooks (posix_build n p dbg tramp) ^^ j) k)"
  using assms by (induction j) (simp_all add: rr_turn)

lemma rr_current:
  assumes "rr_line hooks B r ys k"
  shows "g_current k = int (hd ys)" "kinv B {hd ys} k"
  using assms by (simp_all add: rr_line_def)

end
