(* ===== verification/HRT_Kernel_Props.thy ===== *)
theory HRT_Kernel_Props
  imports HRT_Fairness
begin

text \<open>
  Properties of the core and the tick handler (\<open>hardrt_core.c\<close>, \<open>hardrt_sched.c\<close>). Where an
  operation calls port hooks the statement is about the POSIX build; the proof is the fact of the
  port interface \<open>hrt_port\<close>, which all three ports interpret.
\<close>

text \<open>C1: The scheduler's choice is the specified one. \<open>hrt__pick_next_ready\<close> returns the first task of
  the first non-empty priority level, or the idle task when every level is empty, removes just that
  task from the ready queues, keeps them well-formed and reports no error.\<close>

theorem pick_refines_spec:
  assumes "kwf B k"
  shows "fst (hrt__pick_next_ready B k) = pick_id B (fst (spec_pick (abs_rq B k))) \<and>
    abs_rq B (snd (hrt__pick_next_ready B k)) = snd (spec_pick (abs_rq B k)) \<and>
    kwf B (snd (hrt__pick_next_ready B k)) \<and>
    g_error (snd (hrt__pick_next_ready B k)) = g_error k"
  using pick_spec [OF assms] by simp

theorem pick_refines_spec_witness:
  "kwf PB P_ready \<and> fst (hrt__pick_next_ready PB P_ready) = 1"
proof -
  have h: "kwf PB P_ready" using demo_kinv(1) by (rule kinv_kwf)
  moreover have "pick_id PB (fst (spec_pick (abs_rq PB P_ready))) = 1" by code_simp
  ultimately show ?thesis using pick_refines_spec [OF h] by simp
qed

text \<open>A ready queue behaves as a bounded first-in first-out queue over any sequence of pushes and
  pops: the ring of 8-bit indices gives the same results and the same content as a list.\<close>

theorem ready_queue_is_fifo:
  assumes "rq_inv B p k" "\<forall>i. Push i \<in> set ops \<longrightarrow> i < HARDRT_MAX_TASKS B"
  shows "fst (run_ops (\<lambda>i. rq_push B p (int i)) (rq_pop B p) ops k) =
      fst (spec_ops (-1) int (HARDRT_MAX_TASKS B) ops (rq_list B k (unat p))) \<and>
    rq_list B (snd (run_ops (\<lambda>i. rq_push B p (int i)) (rq_pop B p) ops k)) (unat p) =
      snd (spec_ops (-1) int (HARDRT_MAX_TASKS B) ops (rq_list B k (unat p)))"
  using rq.run_ops_refines [OF assms(1), of ops] assms(2) by auto

theorem ready_queue_is_fifo_witness:
  "rq_inv PB 1 P_one \<and>
   fst (run_ops (\<lambda>i. rq_push PB 1 (int i)) (rq_pop PB 1) [Push 1, Push 0, Pop, Push 2, Pop, Pop, Pop] P_one) =
     [1, 0, 2, -1]"
proof -
  let ?ops = "[Push 1, Push 0, Pop, Push 2, Pop, Pop, Pop]"
  have h: "rq_inv PB 1 P_one" by code_simp
  have ok: "\<forall>i. Push i \<in> set ?ops \<longrightarrow> i < HARDRT_MAX_TASKS PB" by (auto simp: PB_def)
  have l: "rq_list PB P_one (unat (1 :: u8)) = []" and n: "HARDRT_MAX_TASKS PB = 3" by code_simp+
  have s: "fst (spec_ops (-1) int 3 ?ops []) = [1, 0, 2, -1]" by simp
  show ?thesis using h ready_queue_is_fifo [OF h ok, THEN conjunct1] unfolding l n s by (rule conjI)
qed

text \<open>C20: Whatever the globals held before, \<open>hrt_init\<close> returns 0 and establishes the kernel invariant: every
  slot is unused, every ready queue is empty, no task is current, the tick is 0, and the tick rate and
  the default slice are not zero.\<close>

theorem init_establishes_invariant:
  fixes cfg :: "hrt_config option" and k :: posix
  assumes "valid_build (posix_build n p dbg tramp)"
  defines "k' \<equiv> snd (hrt_init (posix_build n p dbg tramp) cfg k)"
  shows "fst (hrt_init (posix_build n p dbg tramp) cfg k) = 0 \<and> kinv (posix_build n p dbg tramp) {} k' \<and>
    abs_rq (posix_build n p dbg tramp) k' = replicate p [] \<and>
    (\<forall>i < n. state (g_tcbs k' ! i) = HRT_UNUSED) \<and> g_current k' = -1 \<and> g_tick k' = 0 \<and>
    g_tick_hz k' \<noteq> 0 \<and> g_default_slice k' \<noteq> 0 \<and> g_fault k' = g_fault k"
proof -
  note i = posix.init_establishes [where cfg = cfg and k = k, OF assms(1)]
  have "abs_rq (posix_build n p dbg tramp) k' = replicate p []"
    using i(2) by (auto simp: abs_rq_def k'_def intro!: nth_equalityI)
  with i show ?thesis by (simp add: k'_def)
qed

theorem init_establishes_invariant_witness:
  "valid_build PB \<and> kinv PB {} (snd (hrt_init PB None P_ready)) \<and>
   abs_rq PB (snd (hrt_init PB None P_ready)) = [[], []]"
proof -
  have v: "valid_build PB" by code_simp
  show ?thesis
    using v init_establishes_invariant [of 3 2 True "0x100" None P_ready, folded PB_def, OF v]
    by (simp add: numeral_2_eq_2)
qed

text \<open>C26: \<open>hrt_create_task\<close> with valid arguments takes the first unused slot, returns its index, fills the
  control block from the arguments and the attributes (or their defaults), appends the task to the
  ready queue of its priority, changes no other task but for saved stack pointers, and keeps the
  invariant.\<close>

theorem create_task_correct:
  fixes a :: uintptr
  assumes "kinv (posix_build n p dbg tramp) R k" "fn \<noteq> 0" "stack \<noteq> 0" "64 \<le> words"
    "first_unused (posix_build n p dbg tramp) k = Some i" "unat (attr_prio attr) < p"
  defines "k' \<equiv> snd (hrt_create_task (posix_build n p dbg tramp) fn a stack words attr k)"
  shows "fst (hrt_create_task (posix_build n p dbg tramp) fn a stack words attr k) = int i \<and>
    kinv (posix_build n p dbg tramp) (R - {i}) k' \<and>
    (g_tcbs k' ! i)\<lparr>sp := 0\<rparr> = task_tcb fn a stack words (attr_prio attr) (attr_slice k attr) \<and>
    (\<forall>r. rq_list (posix_build n p dbg tramp) k' r =
       rq_list (posix_build n p dbg tramp) k r @ (if r = unat (attr_prio attr) then [i] else [])) \<and>
    (\<forall>j < n. j \<noteq> i \<longrightarrow> (g_tcbs k' ! j)\<lparr>sp := 0\<rparr> = (g_tcbs k ! j)\<lparr>sp := 0\<rparr>) \<and> g_fault k' = g_fault k"
proof -
  note c = posix.create_task_ready [where a = a, OF assms(1-5), unfolded posix_build_fields, OF assms(6), folded k'_def]
  show ?thesis using c(1-6) by blast
qed

theorem create_task_correct_witness:
  "fst (hrt_create_task PB 0x400 7 0x2000 128 None P_one) = 1 \<and>
   rq_list PB (snd (hrt_create_task PB 0x400 7 0x2000 128 None P_one)) 1 = [1]"
proof -
  have u: "first_unused PB P_one = Some 1" and pr: "unat (attr_prio None) < 2" and
    e: "rq_list PB P_one 1 = []" "unat (attr_prio None) = 1" by code_simp+
  note c = create_task_correct [of 3 2 True "0x100" "{0}" P_one "0x400" "0x2000" 128 1 None 7, folded PB_def,
    OF demo_kinv(5) _ _ _ u pr, simplified]
  show ?thesis using c e by simp
qed

text \<open>A rejected \<open>hrt_create_task\<close> has no effect but the error code: a null function or stack or fewer
  than 64 words gives \<open>ERR_INVALID_TASK\<close>, and no unused slot gives \<open>ERR_INVALID_ID\<close>; both return -1.\<close>

theorem create_task_errors:
  "(fn = 0 \<or> stack = 0 \<or> words < 64 \<longrightarrow>
      hrt_create_task B fn a stack words attr k = (-1, hrt_error ERR_INVALID_TASK k)) \<and>
   (fn \<noteq> 0 \<and> stack \<noteq> 0 \<and> 64 \<le> words \<and> (\<forall>i < HARDRT_MAX_TASKS B. state (g_tcbs k ! i) \<noteq> HRT_UNUSED) \<longrightarrow>
      hrt_create_task B fn a stack words attr k = (-1, hrt_error ERR_INVALID_ID k))"
  using create_task_bad_args [of fn stack words B a attr k] create_task_no_slot [of fn stack words B k a attr]
  by (auto simp: first_unused_None)

theorem create_task_errors_witness:
  "hrt_create_task PB 0x400 0 0x2000 63 None P_one = (-1, hrt_error ERR_INVALID_TASK P_one) \<and>
   hrt_create_task PB 0x400 0 0x2000 64 None (P_one\<lparr>g_tcbs := [ready1, ready1, ready1]\<rparr>) =
     (-1, hrt_error ERR_INVALID_ID (P_one\<lparr>g_tcbs := [ready1, ready1, ready1]\<rparr>))"
proof -
  let ?k = "P_one\<lparr>g_tcbs := [ready1, ready1, ready1]\<rparr>"
  have "\<forall>i < HARDRT_MAX_TASKS PB. state (g_tcbs ?k ! i) \<noteq> HRT_UNUSED"
    by (simp add: PB_def demo_tcb_def less_Suc_eq numeral_3_eq_3)
  then show ?thesis
    using create_task_errors [of "0x400" "0x2000" 63 PB 0 None P_one] create_task_errors [of "0x400" "0x2000" 64 PB 0 None ?k]
    by simp
qed





text \<open>The wake comparison is a signed 32-bit difference, so a request of more than 2^31 ticks is taken for
  one in the past: the first tick after \<open>hrt_sleep\<close> makes the task ready again.\<close>

theorem sleep_too_long:
  fixes ms :: u32
  assumes "kinv (posix_build n p dbg tramp) {c} k" "g_current k = int c" "c < n"
    "state (g_tcbs k ! c) \<noteq> HRT_UNUSED" "2 ^ 31 < unat (hrt__ms_to_ticks ms (g_tick_hz k))"
  defines "B \<equiv> posix_build n p dbg tramp"
  shows "state (g_tcbs (hrt__tick_isr B (snd (hrt_sleep B ms k))) ! c) = HRT_READY"
  using posix.sleep_ticks(4) [OF assms(1,2), unfolded posix_build_fields, OF assms(3-5)] unfolding B_def .

theorem sleep_too_long_witness:
  "unat (hrt__ms_to_ticks 0x80000001 (g_tick_hz P_one)) = 2 ^ 31 + 1 \<and>
   state (g_tcbs (hrt__tick_isr PB (snd (hrt_sleep PB 0x80000001 P_one))) ! 0) = HRT_READY"
proof -
  have h: "g_current P_one = int 0" "state (g_tcbs P_one ! 0) \<noteq> HRT_UNUSED" "g_tick_hz P_one = 1000" by code_simp+
  have t: "unat (hrt__ms_to_ticks 0x80000001 (g_tick_hz P_one)) = 2 ^ 31 + 1" by (simp add: ms_to_ticks_value h(3))
  then have "(0 :: nat) < 3" "2 ^ 31 < unat (hrt__ms_to_ticks 0x80000001 (g_tick_hz P_one))" by simp_all
  note s = sleep_too_long [of 3 2 True "0x100" 0 P_one "0x80000001", folded PB_def, OF demo_kinv(5) h(1) this(1) h(2) this(2)]
  show ?thesis using s t by blast
qed

text \<open>C30: The conversion from milliseconds to ticks rounds up and never gives 0: the result is the least number
  of ticks that lasts at least \<open>ms\<close> milliseconds, or the largest 32-bit number when that does not fit.\<close>

theorem ms_to_ticks_least:
  "0 < unat (hrt__ms_to_ticks ms hz) \<and>
   (ms \<noteq> 0 \<and> hz \<noteq> 0 \<longrightarrow>
      (if unat ms * unat hz \<le> 1000 * (2 ^ 32 - 1)
       then unat ms * unat hz \<le> 1000 * unat (hrt__ms_to_ticks ms hz) \<and>
            1000 * (unat (hrt__ms_to_ticks ms hz) - 1) < unat ms * unat hz
       else unat (hrt__ms_to_ticks ms hz) = 2 ^ 32 - 1))"
proof -
  have nz: "unat ms * unat hz \<noteq> 0" if "ms \<noteq> 0" "hz \<noteq> 0" using that by (simp add: unat_eq_0)
  show ?thesis using nz ms_to_ticks_pos [of ms hz] unfolding ms_to_ticks_value by (auto simp: min_def)
qed

theorem ms_to_ticks_least_witness:
  "unat (hrt__ms_to_ticks 7 250) = 2"
proof -
  have m: "unat (7 :: u32) * unat (250 :: u32) = 1750" by simp
  have "unat (hrt__ms_to_ticks 7 250) \<le> 2" "2 \<le> unat (hrt__ms_to_ticks 7 250)"
    using ms_to_ticks_least [of 7 250] unfolding m by (simp; linarith)+
  then show ?thesis by simp
qed

text \<open>Ticks and milliseconds agree: when the tick counter shows the ticks of \<open>ms\<close>, \<open>hrt_now_ms\<close> shows at
  least \<open>ms\<close> and less than \<open>ms\<close> plus one tick period (in whole milliseconds).\<close>

theorem now_ms_after_ticks:
  assumes "g_tick_hz k = hz" "hz \<noteq> 0" "ms \<noteq> 0" "g_tick k = hrt__ms_to_ticks ms hz"
    "unat ms * unat hz \<le> 1000 * (2 ^ 32 - 1)" "unat ms + 1000 < 2 ^ 32"
  shows "unat ms \<le> unat (hrt_now_ms k) \<and> unat (hrt_now_ms k) \<le> unat ms + 999 div unat hz"
proof -
  define t where "t = (unat ms * unat hz + 999) div 1000"
  have ceil: "x \<le> (x + 999) div 1000 * 1000 \<and> (x + 999) div 1000 * 1000 \<le> x + 999" for x :: nat
    using div_mult_mod_eq [of "x + 999" 1000] mod_less_divisor [of 1000 "x + 999"] by linarith
  have pos: "0 < unat hz" using assms(2) by (simp add: unat_gt_0)
  have "t \<le> (1000 * (2 ^ 32 - 1) + 999) div 1000"
    unfolding t_def using assms(5) by (intro div_le_mono) simp
  then have tick: "unat (g_tick k) = t"
    using assms(2-4) by (simp add: ms_to_ticks_value flip: t_def)
  have lo: "unat ms * unat hz \<le> t * 1000" and hi: "t * 1000 \<le> unat ms * unat hz + 999"
    using ceil unfolding t_def by blast+
  have a: "unat ms \<le> t * 1000 div unat hz"
    using div_le_mono [OF lo, of "unat hz"] pos by simp
  have b: "t * 1000 div unat hz \<le> unat ms + 999 div unat hz"
    using div_le_mono [OF hi, of "unat hz"] div_mult_self3 [of "unat hz" "unat ms" 999] pos by linarith
  have "999 div unat hz \<le> 999" by simp
  with b assms(6) have "t * 1000 div unat hz < 2 ^ 32" by linarith
  then have "unat (hrt_now_ms k) = t * 1000 div unat hz"
    using assms(1,2) tick by (simp add: now_ms_value)
  with a b show ?thesis by simp
qed

theorem now_ms_after_ticks_witness:
  "unat (hrt_now_ms (P_one\<lparr>g_tick := hrt__ms_to_ticks 7 1000\<rparr>)) = 7"
proof -
  let ?k = "P_one\<lparr>g_tick := hrt__ms_to_ticks 7 1000\<rparr>"
  have h: "g_tick_hz ?k = 1000" by code_simp
  show ?thesis using now_ms_after_ticks [OF h, of 7] by simp
qed

text \<open>The calls of a running task keep the kernel invariant and never touch memory outside the task
  table: \<open>hrt_yield\<close> appends the task to the queue of its priority with a fresh slice, \<open>hrt_sleep\<close> leaves
  it asleep and in no queue, and \<open>hrt_task_delete\<close> frees its slot.\<close>

theorem task_calls_keep_invariant:
  fixes ms :: u32
  assumes "kinv (posix_build n p dbg tramp) {c} k" "g_current k = int c" "Suc c < n" "state (g_tcbs k ! c) = HRT_READY"
  defines "B \<equiv> posix_build n p dbg tramp"
  defines "y \<equiv> snd (hrt_yield B k)"
  defines "s \<equiv> snd (hrt_sleep B ms k)"
  defines "d \<equiv> snd (hrt_task_delete B k)"
  shows "(kinv B {} y \<and> g_error y = g_error k \<and> g_fault y = g_fault k \<and>
      (\<forall>r. rq_list B y r = rq_list B k r @ (if r = unat (prio (g_tcbs k ! c)) then [c] else []))) \<and>
    (kinv B {} s \<and> g_error s = g_error k \<and> g_fault s = g_fault k \<and> rq_list B s = rq_list B k \<and>
      state (g_tcbs s ! c) = HRT_SLEEP) \<and>
    (kinv B {} d \<and> g_error d = g_error k \<and> g_fault d = g_fault k \<and> rq_list B d = rq_list B k \<and>
      state (g_tcbs d ! c) = HRT_UNUSED)"
proof -
  have h: "kinv B {c} k" "c < HARDRT_MAX_TASKS B" "int c \<noteq> HRT_IDLE_ID B" "state (g_tcbs k ! c) \<noteq> HRT_UNUSED"
    using assms(1,3,4) by (simp_all add: B_def HRT_IDLE_ID_def)
  have len: "c < length (g_tcbs k)" using kwf_sizes(2) [OF kinv_kwf [OF h(1)]] h(2) by simp
  note Y = posix.yield_running [OF h(1) [unfolded B_def] assms(2) h(2) [unfolded B_def] assms(4), folded B_def, folded y_def]
  note S = posix.sleep_running [OF h(1) [unfolded B_def] assms(2) h(2,4) [unfolded B_def], of ms, folded B_def, folded s_def]
  note D = posix.delete_running [OF h(1) [unfolded B_def] assms(2) h(2,3) [unfolded B_def], folded B_def, folded d_def]
  show ?thesis using Y(1,3-5) S(1-5) D len by simp
qed

theorem task_calls_keep_invariant_witness:
  "rq_list PB (snd (hrt_yield PB P_ready)) 1 = [1, 0] \<and> state (g_tcbs (snd (hrt_task_delete PB P_ready)) ! 0) = HRT_UNUSED"
proof -
  have h: "g_current P_ready = int 0" "state (g_tcbs P_ready ! 0) = HRT_READY" "rq_list PB P_ready 1 = [1]"
    "unat (prio (g_tcbs P_ready ! 0)) = 1" by code_simp+
  have "Suc 0 < (3 :: nat)" by simp
  note t = task_calls_keep_invariant [of 3 2 True "0x100" 0 P_ready, folded PB_def, OF demo_kinv(1) h(1) this h(2)]
  show ?thesis using t h(3,4) by simp
qed

text \<open>C9: Round robin starves no one. Let \<open>ys\<close> be the running task followed by the ready queue of its
  priority, all higher levels empty. If each task that gets the processor yields, every task of \<open>ys\<close> runs
  within \<open>length ys\<close> turns, in the order of the queue.\<close>

theorem round_robin_serves_all:
  assumes "rr_line hooks (posix_build n p dbg tramp) r ys k" "i < length ys"
  shows "g_current ((posix_turn hooks (posix_build n p dbg tramp) ^^ i) k) = int (ys ! i) \<and>
    kinv (posix_build n p dbg tramp) {ys ! i} ((posix_turn hooks (posix_build n p dbg tramp) ^^ i) k)"
proof -
  have "hd (rotate i ys) = ys ! i" using assms(2) by (cases ys) (simp_all add: hd_rotate_conv_nth)
  then show ?thesis using rr_current [OF rr_turns [OF assms(1), of i]] by simp
qed

theorem round_robin_serves_all_witness:
  "rr_line True PB 1 [0, 1] P_ready \<and> g_current ((posix_turn True PB ^^ 1) P_ready) = 1"
proof -
  have h: "rr_line True PB 1 [0, 1] P_ready" by code_simp
  show ?thesis using h round_robin_serves_all [OF h [unfolded PB_def], of 1] by (simp flip: PB_def)
qed

text \<open>C33: \<open>hrt_create_task\<close> does not check the priority: with one outside the configured range it returns a
  valid task id and marks the task ready, but the task is in no ready queue and so can never run; only
  the error code tells.\<close>

theorem create_task_bad_priority:
  fixes a :: uintptr
  assumes "kinv (posix_build n p dbg tramp) R k" "fn \<noteq> 0" "stack \<noteq> 0" "64 \<le> words"
    "first_unused (posix_build n p dbg tramp) k = Some i" "p \<le> unat (attr_prio attr)"
  defines "k' \<equiv> snd (hrt_create_task (posix_build n p dbg tramp) fn a stack words attr k)"
  shows "fst (hrt_create_task (posix_build n p dbg tramp) fn a stack words attr k) = int i \<and>
    state (g_tcbs k' ! i) = HRT_READY \<and> \<not> queued (posix_build n p dbg tramp) k' i \<and> g_error k' = ERR_INVALID_PRIO"
  using posix.create_task_bad_prio [where a = a, OF assms(1-5), unfolded posix_build_fields, OF assms(6)]
  unfolding k'_def by blast

theorem create_task_bad_priority_witness:
  "fst (hrt_create_task PB 0x400 0 0x2000 128 (Some \<lparr>priority = 5, timeslice = 0\<rparr>) P_one) = 1 \<and>
   \<not> queued PB (snd (hrt_create_task PB 0x400 0 0x2000 128 (Some \<lparr>priority = 5, timeslice = 0\<rparr>) P_one)) 1"
proof -
  have u: "first_unused PB P_one = Some 1" "2 \<le> unat (attr_prio (Some \<lparr>priority = 5, timeslice = 0\<rparr>))" by code_simp+
  show ?thesis
    using create_task_bad_priority [of 3 2 True "0x100" "{0}" P_one "0x400" "0x2000" 128 1, folded PB_def,
        OF demo_kinv(5) _ _ _ u, of 0] by simp
qed

end
