(* ===== verification/HRT_Sync_Props.thy ===== *)
theory HRT_Sync_Props
  imports HRT_Demo
begin

text \<open>
  Properties of the semaphore, the mutex and the message queue. The calls of tasks are stated for the
  POSIX build, the calls of interrupt handlers for the Cortex-M build; the proofs are the facts of the
  port interface \<open>hrt_port\<close>, which both builds interpret.
\<close>

section \<open>Example objects\<close>

definition demo_sem :: "u8 \<Rightarrow> u8 \<Rightarrow> nat list \<Rightarrow> hrt_sem" where
  "demo_sem n mx ws = \<lparr>sem_count = n, sem_max_count = mx, sem_q = map word_of_nat ws @ replicate (3 - length ws) 0,
     sem_head = 0, sem_tail = word_of_nat (length ws mod 3), sem_count_wait = word_of_nat (length ws)\<rparr>"

definition demo_mutex :: "nat option \<Rightarrow> nat list \<Rightarrow> hrt_mutex" where
  "demo_mutex x ws = \<lparr>locked = (if x = None then 0 else 1), owner = (case x of None \<Rightarrow> -1 | Some i \<Rightarrow> word_of_nat i),
     mtx_q = map word_of_nat ws @ replicate (3 - length ws) 0, mtx_head = 0,
     mtx_tail = word_of_nat (length ws mod 3), mtx_count_wait = word_of_nat (length ws)\<rparr>"

text \<open>A queue of capacity 2 for messages of two bytes.\<close>

definition demo_queue :: "u8 list list \<Rightarrow> nat list \<Rightarrow> nat list \<Rightarrow> hrt_queue" where
  "demo_queue ms rs ts = \<lparr>buf = concat ms @ replicate (4 - 2 * length ms) 0, item_size = 2, capacity = 2,
     q_head = 0, q_tail = word_of_nat (length ms mod 2), q_count = word_of_nat (length ms),
     rx_q = map word_of_nat rs @ replicate (3 - length rs) 0, rx_head = 0,
     rx_tail = word_of_nat (length rs mod 3), rx_wait = word_of_nat (length rs),
     tx_q = map word_of_nat ts @ replicate (3 - length ts) 0, tx_head = 0,
     tx_tail = word_of_nat (length ts mod 3), tx_wait = word_of_nat (length ts)\<rparr>"

section \<open>Semaphore\<close>

text \<open>Initialisation gives a well-formed semaphore: the maximum is at least 1 (0 counts as 1), the token
  count is the initial value cut off at the maximum, and nobody waits.\<close>

theorem sem_init_counting_bounds:
  fixes v :: u32 and m :: u8
  assumes "valid_build B" "length (sem_q s) = HARDRT_MAX_TASKS B"
  defines "s' \<equiv> hrt_sem_init_counting v m s"
  shows "sem_wf B s' k \<and> sem_waiters B s' = [] \<and> unat (sem_max_count s') = max 1 (unat m) \<and>
    unat (sem_count s') = min (unat v) (max 1 (unat m))"
proof -
  have m: "m \<noteq> 0 \<Longrightarrow> 1 \<le> unat m" "unat m < 256" "unat (ucast m :: u32) = unat m"
    using unsigned_less [of m] unat_gt_0 [of m] by (auto simp: unat_ucast_up)
  then have "unat (ucast (ucast m :: u32) :: u8) = unat m" by (simp add: unat_ucast_mod)
  moreover have "unat (ucast v :: u8) = unat v" if "unat v < 256" using that by (simp add: unat_ucast_mod)
  ultimately have "unat (sem_max_count s') = max 1 (unat m)" "unat (sem_count s') = min (unat v) (max 1 (unat m))"
    using m by (auto simp: s'_def hrt_sem_init_counting_def Let_def word_less_nat_alt max_def min_def)
  then show ?thesis using sem_init_wf(3,4) [OF assms(1,2)] by (simp add: s'_def)
qed

theorem sem_init_counting_bounds_witness:
  "sem_wf PB (hrt_sem_init_counting 9 5 (demo_sem 3 1 [1])) P_one \<and>
   unat (sem_count (hrt_sem_init_counting 9 5 (demo_sem 3 1 [1]))) = 5"
proof -
  have h: "valid_build PB" "length (sem_q (demo_sem 3 1 [1])) = HARDRT_MAX_TASKS PB" by code_simp+
  show ?thesis using sem_init_counting_bounds [OF h, of 9 5 P_one] by simp
qed

text \<open>C12: \<open>hrt_sem_take\<close> implements the specified take. With a token it takes one and returns 0 at once;
  without one the caller joins the end of the wait queue, becomes blocked and leaves for the scheduler.
  Either way the semaphore and the kernel stay well-formed and no error is reported.\<close>

theorem sem_take_correct:
  assumes "kinv (posix_build n p dbg tramp) {c} k" "g_current k = int c" "c < n"
    "state (g_tcbs k ! c) = HRT_READY" "sem_wf (posix_build n p dbg tramp) s k"
  defines "B \<equiv> posix_build n p dbg tramp"
  defines "a \<equiv> spec_take c (sem_abs B s)" and "r \<equiv> hrt_sem_take B s k"
  shows "sem_abs B (fst (snd r)) = snd a \<and> sem_wf B (fst (snd r)) (snd (snd r)) \<and>
    kinv B (if fst a then {c} else {}) (snd (snd r)) \<and>
    (fst a \<longrightarrow> fst r = Ret 0 \<and> core (snd (snd r)) = core k) \<and>
    (\<not> fst a \<longrightarrow> state (g_tcbs (snd (snd r)) ! c) = HRT_BLOCKED \<and> rq_list B (snd (snd r)) = rq_list B k \<and>
       g_error (snd (snd r)) = g_error k \<and> g_fault (snd (snd r)) = g_fault k)"
proof -
  have cn: "c < HARDRT_MAX_TASKS (posix_build n p dbg tramp)" using assms(3) by simp
  have len: "c < length (g_tcbs k)" using kwf_sizes(2) [OF kinv_kwf [OF assms(1)]] assms(3) by simp
  have f: "fst a \<longleftrightarrow> sem_count s \<noteq> 0" by (simp add: a_def spec_take_def sem_abs_def unat_gt_0)
  note R = posix.sem_take_refines [OF assms(1,2) cn assms(4,5), folded B_def, folded a_def r_def]
  have tok: "fst r = Ret 0" "core (snd (snd r)) = core k" if "fst a"
    using posix.sem_take_token [where s = s and k = k and n = n and p = p and dbg = dbg and tramp = tramp, folded B_def] that f
    by (simp_all add: r_def B_def posix_hook_core)
  have blk: "state (g_tcbs (snd (snd r)) ! c) = HRT_BLOCKED" "rq_list B (snd (snd r)) = rq_list B k"
    "g_error (snd (snd r)) = g_error k" "g_fault (snd (snd r)) = g_fault k" if "\<not> fst a"
    using posix.sem_take_blocks(4-7) [OF assms(1,2) cn assms(4,5), folded B_def, folded r_def] that f len by simp_all
  show ?thesis using R tok blk by blast
qed

theorem sem_take_correct_witness:
  "sem_abs PB (fst (snd (hrt_sem_take PB (demo_sem 0 1 []) P_one))) = (0, [0]) \<and>
   state (g_tcbs (snd (snd (hrt_sem_take PB (demo_sem 0 1 []) P_one))) ! 0) = HRT_BLOCKED"
proof -
  have h: "g_current P_one = int 0" "state (g_tcbs P_one ! 0) = HRT_READY" "sem_wf PB (demo_sem 0 1 []) P_one"
    "spec_take 0 (sem_abs PB (demo_sem 0 1 [])) = (False, 0, [0])" by code_simp+
  show ?thesis
    using sem_take_correct [of 3 2 True "0x100" 0 P_one, folded PB_def, OF demo_kinv(5) h(1) _ h(2,3)] h(4) by simp
qed

text \<open>C13: \<open>hrt_sem_give\<close> called by a task implements the specified give. If a task waits, the oldest waiter
  becomes ready and is queued, no token is stored, and the giver yields behind it; otherwise one token is
  stored, up to the maximum, and the call returns 0.\<close>

theorem sem_give_correct:
  assumes "kinv (posix_build n p dbg tramp) {c} k" "g_current k = int c" "c < n"
    "state (g_tcbs k ! c) = HRT_READY" "sem_wf (posix_build n p dbg tramp) s k"
  defines "B \<equiv> posix_build n p dbg tramp"
  defines "a \<equiv> spec_give (unat (sem_max_count s)) (sem_abs B s)" and "r \<equiv> hrt_sem_give B s k"
  shows "sem_abs B (fst (snd r)) = snd a \<and> sem_wf B (fst (snd r)) (snd (snd r)) \<and>
    kinv B (if fst a = None then {c} else {}) (snd (snd r)) \<and> g_error (snd (snd r)) = g_error k \<and>
    (fst a = None \<longrightarrow> fst r = Ret 0) \<and>
    (\<forall>w. fst a = Some w \<longrightarrow> (\<forall>l. rq_list B (snd (snd r)) l = rq_list B k l @
       (if l = unat (prio (g_tcbs k ! w)) then [w] else []) @ (if l = unat (prio (g_tcbs k ! c)) then [c] else [])))"
proof -
  have cn: "c < HARDRT_MAX_TASKS (posix_build n p dbg tramp)" using assms(3) by simp
  show ?thesis
  proof (cases "sem_waiters B s")
    case Nil
    obtain s' where s': "r = (Ret 0, s', port_crit_exit B (port_crit_enter B k))"
      "sem_abs B s' = (min (unat (sem_max_count s)) (unat (sem_count s) + 1), [])" "sem_wf B s' k"
      using posix.sem_give_banks [OF assms(5)] Nil unfolding r_def B_def by metis
    have a: "a = (None, min (unat (sem_max_count s)) (unat (sem_count s) + 1), [])"
      by (simp add: a_def spec_give_def sem_abs_def Nil)
    show ?thesis using s'(2,3) assms(1) unfolding s'(1) a B_def by (simp del: posix_build_hooks)
  next
    case (Cons w ws)
    note W = posix.sem_give_wakes [OF assms(1,2) cn assms(4,5) Cons [unfolded B_def], folded B_def, folded r_def]
    have a: "a = (Some w, unat (sem_count s), ws)" by (simp add: a_def spec_give_def sem_abs_def Cons)
    show ?thesis using W(1-5) unfolding a by simp
  qed
qed

theorem sem_give_correct_witness:
  "sem_abs PB (fst (snd (hrt_sem_give PB (demo_sem 0 1 [1]) P_blocked))) = (0, []) \<and>
   rq_list PB (snd (snd (hrt_sem_give PB (demo_sem 0 1 [1]) P_blocked))) 1 = [1, 0]"
proof -
  have h: "g_current P_blocked = int 0" "state (g_tcbs P_blocked ! 0) = HRT_READY" "sem_wf PB (demo_sem 0 1 [1]) P_blocked"
    "spec_give (unat (sem_max_count (demo_sem 0 1 [1]))) (sem_abs PB (demo_sem 0 1 [1])) = (Some 1, 0, [])"
    "rq_list PB P_blocked 1 = []" "unat (prio (g_tcbs P_blocked ! 0)) = 1" "unat (prio (g_tcbs P_blocked ! 1)) = 1"
    by code_simp+
  show ?thesis
    using sem_give_correct [of 3 2 True "0x100" 0 P_blocked, folded PB_def, OF demo_kinv(3) h(1) _ h(2,3)] h(4-7) by simp
qed



section \<open>Mutex\<close>

text \<open>C10: \<open>hrt_mutex_lock\<close> implements the specified lock: a free mutex becomes the caller's and the call returns
  0; a second lock by the owner returns -1 and changes nothing; otherwise the caller joins the end of the
  wait queue and blocks, and the owner stays the same. At no time has the mutex two owners.\<close>

theorem mutex_lock_correct:
  assumes "kinv (posix_build n p dbg tramp) {c} k" "g_current k = int c" "c < n"
    "state (g_tcbs k ! c) = HRT_READY" "mutex_wf (posix_build n p dbg tramp) m k"
  defines "B \<equiv> posix_build n p dbg tramp"
  defines "a \<equiv> spec_lock c (mutex_abs B m)" and "r \<equiv> hrt_mutex_lock B m k"
  shows "mutex_abs B (fst (snd r)) = snd a \<and> mutex_wf B (fst (snd r)) (snd (snd r)) \<and>
    kinv B (if fst a = Queued then {} else {c}) (snd (snd r)) \<and>
    (fst a = Acquired \<longrightarrow> fst r = Ret 0) \<and> (fst a = Refused \<longleftrightarrow> fst r = Ret (-1)) \<and>
    (fst a = Queued \<longrightarrow> state (g_tcbs (snd (snd r)) ! c) = HRT_BLOCKED)"
proof -
  have cn: "c < HARDRT_MAX_TASKS (posix_build n p dbg tramp)" using assms(3) by simp
  show ?thesis using posix.mutex_lock_refines [OF assms(1,2) cn assms(4,5)] unfolding r_def a_def B_def by blast
qed

theorem mutex_lock_correct_witness:
  "mutex_abs PB (fst (snd (hrt_mutex_lock PB (demo_mutex (Some 1) []) P_ready))) = (Some 1, [0]) \<and>
   state (g_tcbs (snd (snd (hrt_mutex_lock PB (demo_mutex (Some 1) []) P_ready))) ! 0) = HRT_BLOCKED"
proof -
  have h: "g_current P_ready = int 0" "state (g_tcbs P_ready ! 0) = HRT_READY" "mutex_wf PB (demo_mutex (Some 1) []) P_ready"
    "spec_lock 0 (mutex_abs PB (demo_mutex (Some 1) [])) = (Queued, Some 1, [0])" by code_simp+
  show ?thesis
    using mutex_lock_correct [of 3 2 True "0x100" 0 P_ready, folded PB_def, OF demo_kinv(1) h(1) _ h(2,3)] h(4) by simp
qed

text \<open>C11: \<open>hrt_mutex_unlock\<close> implements the specified unlock. A caller that is not the owner gets -1 and the error
  \<open>ERR_MUTEX_OWNER\<close>, and the mutex is unchanged. The owner's unlock frees a mutex nobody waits for; else it
  hands the mutex directly to the oldest waiter, which becomes ready and is queued before the caller, so
  no third task can take it in between.\<close>

theorem mutex_unlock_correct:
  assumes "kinv (posix_build n p dbg tramp) {c} k" "g_current k = int c" "c < n"
    "state (g_tcbs k ! c) = HRT_READY" "mutex_wf (posix_build n p dbg tramp) m k"
  defines "B \<equiv> posix_build n p dbg tramp"
  defines "a \<equiv> spec_unlock c (mutex_abs B m)" and "r \<equiv> hrt_mutex_unlock B m k"
  shows "mutex_abs B (fst (snd r)) = snd a \<and> mutex_wf B (fst (snd r)) (snd (snd r)) \<and>
    kinv B (if fst a \<and> fst (snd a) \<noteq> None then {} else {c}) (snd (snd r)) \<and>
    (\<not> fst a \<longrightarrow> r = (Ret (-1), m, hrt_error ERR_MUTEX_OWNER (posix_crit_exit (posix_crit_enter k)))) \<and>
    (\<forall>w. fst a \<and> fst (snd a) = Some w \<longrightarrow> state (g_tcbs (snd (snd r)) ! w) = HRT_READY \<and>
       (\<forall>l. rq_list B (snd (snd r)) l = rq_list B k l @ (if l = unat (prio (g_tcbs k ! w)) then [w] else []) @
          (if l = unat (prio (g_tcbs k ! c)) then [c] else [])))"
proof -
  have cn: "c < HARDRT_MAX_TASKS (posix_build n p dbg tramp)" using assms(3) by simp
  note R = posix.mutex_unlock_refines(1-3) [OF assms(1,2) cn assms(4,5), folded B_def, folded a_def r_def]
  have own: "fst a \<longleftrightarrow> mutex_owner m = Some c"
    by (simp add: a_def spec_unlock_def mutex_abs_def split: list.split)
  have no: "r = (Ret (-1), m, hrt_error ERR_MUTEX_OWNER (posix_crit_exit (posix_crit_enter k)))" if "\<not> fst a"
    using posix.mutex_unlock_refused [OF assms(2) cn assms(5)] that own by (simp add: r_def B_def)
  have yes: "state (g_tcbs (snd (snd r)) ! w) = HRT_READY"
    "rq_list B (snd (snd r)) l = rq_list B k l @ (if l = unat (prio (g_tcbs k ! w)) then [w] else []) @
       (if l = unat (prio (g_tcbs k ! c)) then [c] else [])" if h: "fst a" "fst (snd a) = Some w" for w l
  proof -
    obtain ws where ws: "mutex_waiters B m = w # ws"
      using h own by (cases "mutex_waiters B m") (auto simp: a_def spec_unlock_def mutex_abs_def)
    show "state (g_tcbs (snd (snd r)) ! w) = HRT_READY"
      "rq_list B (snd (snd r)) l = rq_list B k l @ (if l = unat (prio (g_tcbs k ! w)) then [w] else []) @
         (if l = unat (prio (g_tcbs k ! c)) then [c] else [])"
      using posix.mutex_unlock_handoff(4,5) [OF assms(1,2) cn assms(4,5) _ ws [unfolded B_def]] h(1) own
      unfolding r_def B_def by blast+
  qed
  show ?thesis using R no yes by blast
qed

theorem mutex_unlock_correct_witness:
  "mutex_abs PB (fst (snd (hrt_mutex_unlock PB (demo_mutex (Some 0) [1]) P_blocked))) = (Some 1, []) \<and>
   rq_list PB (snd (snd (hrt_mutex_unlock PB (demo_mutex (Some 0) [1]) P_blocked))) 1 = [1, 0]"
proof -
  have h: "g_current P_blocked = int 0" "state (g_tcbs P_blocked ! 0) = HRT_READY"
    "mutex_wf PB (demo_mutex (Some 0) [1]) P_blocked"
    "spec_unlock 0 (mutex_abs PB (demo_mutex (Some 0) [1])) = (True, Some 1, [])"
    "rq_list PB P_blocked 1 = []" "unat (prio (g_tcbs P_blocked ! 0)) = 1" "unat (prio (g_tcbs P_blocked ! 1)) = 1"
    by code_simp+
  show ?thesis
    using mutex_unlock_correct [of 3 2 True "0x100" 0 P_blocked, folded PB_def, OF demo_kinv(3) h(1) _ h(2,3)] h(4-7) by simp
qed

text \<open>Outside a task (before the scheduler starts, or with a current id out of range) the three mutex calls
  return -1, report \<open>ERR_MUTEX_BAD_CTX\<close> and change neither the mutex nor anything else.\<close>

theorem mutex_bad_context:
  assumes "g_current k < 0 \<or> g_current k \<ge> int (HARDRT_MAX_TASKS B)"
  shows "hrt_mutex_try_lock B m k = (-1, m, hrt_error ERR_MUTEX_BAD_CTX k) \<and>
    hrt_mutex_lock B m k = (Ret (-1), m, hrt_error ERR_MUTEX_BAD_CTX k) \<and>
    hrt_mutex_unlock B m k = (Ret (-1), m, hrt_error ERR_MUTEX_BAD_CTX k)"
  using assms
  by (auto simp: hrt_mutex_try_lock_def hrt_mutex_lock_def hrt_mutex_unlock_def hrt__get_current_def Let_def)

theorem mutex_bad_context_witness:
  "hrt_mutex_lock PB (demo_mutex None []) P_sched = (Ret (-1), demo_mutex None [], hrt_error ERR_MUTEX_BAD_CTX P_sched)"
proof -
  have h: "g_current P_sched < 0" by code_simp
  show ?thesis using mutex_bad_context [OF disjI1 [OF h]] by simp
qed

section \<open>Message queue\<close>

text \<open>C15: The byte buffer is a first-in first-out queue of messages: any sequence of enqueue and dequeue steps
  gives the results and the content of a list of at most \<open>capacity\<close> messages. In particular no message is
  lost, duplicated, reordered or mixed with another, also when the indices wrap around.\<close>

theorem queue_buffer_is_fifo:
  assumes "msg_ring q" "\<forall>x. Push x \<in> set ops \<longrightarrow> length x = unat (item_size q)"
  shows "fst (run_ops (\<lambda>x q. snd (enqueue_cs q x)) dequeue_msg ops q) =
      fst (spec_ops None Some (unat (capacity q)) ops (queue_msgs q)) \<and>
    queue_msgs (snd (run_ops (\<lambda>x q. snd (enqueue_cs q x)) dequeue_msg ops q)) =
      snd (spec_ops None Some (unat (capacity q)) ops (queue_msgs q))"
  using msgs.run_ops_refines [of q "item_size q" "capacity q" ops] assms by auto

lemma demo_buf: "length (buf (demo_queue [[1, 2]] [] [])) < 2 ^ 32" "length (buf (demo_queue [] [1] [])) < 2 ^ 32"
  by (simp_all add: demo_queue_def)

lemma demo_ring: "msg_ring (demo_queue [[1, 2]] [] [])" "msg_ring (demo_queue [] [1] [])"
  by (simp_all add: msg_ring_def ring_ok_def msg_slots_def chunks_def demo_queue_def)

lemma demo_queue_wf: "queue_wf PB (demo_queue [] [1] []) P_blocked" "queue_wf CB (demo_queue [] [1] []) C_blocked"
  unfolding queue_wf_def by (intro conjI demo_ring; code_simp)+

theorem queue_buffer_is_fifo_witness:
  "msg_ring (demo_queue [[1, 2]] [] []) \<and>
   fst (run_ops (\<lambda>x q. snd (enqueue_cs q x)) dequeue_msg [Push [3, 4], Push [9, 9], Pop, Push [5, 6], Pop, Pop, Pop]
      (demo_queue [[1, 2]] [] [])) = [Some [1, 2], Some [3, 4], Some [5, 6], None]"
proof -
  let ?ops = "[Push [3, 4], Push [9, 9], Pop, Push [5, 6], Pop, Pop, Pop] :: u8 list fifo_op list"
  let ?q = "demo_queue [[1, 2]] [] []"
  note h = demo_ring(1)
  have e: "unat (item_size ?q) = 2" "unat (capacity ?q) = 2" "queue_msgs ?q = [[1, 2]]" by code_simp+
  have ok: "\<forall>x. Push x \<in> set ?ops \<longrightarrow> length x = unat (item_size ?q)" unfolding e by auto
  have s: "fst (spec_ops None Some 2 ?ops [[1, 2]]) = [Some [1, 2], Some [3, 4], Some [5, 6], None]" by simp
  show ?thesis using h queue_buffer_is_fifo [OF h ok, THEN conjunct1] unfolding e s by (rule conjI)
qed





text \<open>C18: The retry loops of \<open>hrt_queue_send\<close> and \<open>hrt_queue_recv\<close> end. With room (a message) the call does what
  the non-blocking call does; otherwise the caller is put at the end of the queue of waiting senders
  (receivers), is blocked and has left for the scheduler, to retry when it is woken.\<close>

theorem queue_blocking_calls_end:
  fixes x out :: "u8 list"
  assumes "kinv (posix_build n p dbg tramp) {c} k" "g_current k = int c" "Suc c < n" "valid (g_ctxs k ! c)"
    "state (g_tcbs k ! c) = HRT_READY" "queue_wf (posix_build n p dbg tramp) q k"
    "length x = unat (item_size q)" "length out = unat (item_size q)"
  defines "B \<equiv> posix_build n p dbg tramp"
  shows "(if length (queue_msgs q) < unat (capacity q)
      then hrt_queue_send B q (Some x) k = Some (hrt_queue_try_send B q (Some x) k)
      else \<exists>q' k'. hrt_queue_send B q (Some x) k = Some (QRetry, q', k') \<and> queue_wf B q' k' \<and> kinv B {} k' \<and>
        queue_abs B q' = (queue_msgs q, rx_waiters B q, tx_waiters B q @ [c]) \<and> state (g_tcbs k' ! c) = HRT_BLOCKED) \<and>
    (if queue_msgs q \<noteq> []
      then hrt_queue_recv B q (Some out) k = Some (hrt_queue_try_recv B q (Some out) k)
      else \<exists>q' k'. hrt_queue_recv B q (Some out) k = Some ((QRetry, Some out), q', k') \<and> queue_wf B q' k' \<and> kinv B {} k' \<and>
        queue_abs B q' = (queue_msgs q, rx_waiters B q @ [c], tx_waiters B q) \<and> state (g_tcbs k' ! c) = HRT_BLOCKED)"
    (is "?send \<and> ?recv")
proof
  let ?k = "posix_crit_exit (posix_crit_enter k)"
  have cn: "c < HARDRT_MAX_TASKS (posix_build n p dbg tramp)" using assms(3) by simp
  have len: "c < length (g_tcbs k)" using kwf_sizes(2) [OF kinv_kwf [OF assms(1)]] cn by simp
  have core: "core ?k = core k" by (simp add: posix_hook_core)
  note f = core_fields [OF core]
  have k: "kinv (posix_build n p dbg tramp) {c} ?k" "g_current ?k = int c" "state (g_tcbs ?k ! c) = HRT_READY"
    "queue_wf (posix_build n p dbg tramp) q ?k"
    using assms(1,2,5,6) kinv_same_core [OF core] by (simp_all add: f queue_wf_def)
  have hop: "fst (port_yield_to_scheduler (posix_build n p dbg tramp) (parked (posix_build n p dbg tramp) c
      (port_crit_exit (posix_build n p dbg tramp) (port_crit_enter (posix_build n p dbg tramp) k))))"
    using posix_parked_hops [OF assms(2-4)] by simp
  show ?send
  proof (cases "length (queue_msgs q) < unat (capacity q)")
    case True
    then show ?thesis using posix.queue_send_room [OF assms(1,2) cn assms(5-7) True] by (simp add: B_def)
  next
    case False
    have full: "length (queue_msgs q) = unat (capacity q)"
      using False msg_ring_facts(4) [OF queue_wf_rings(1) [OF assms(6)]] by (simp add: length_queue_msgs)
    note e = posix.queue_send_full [OF assms(1,2) cn assms(5-7) full hop]
    note s = posix.send_slow_parks [OF k(1,2) cn k(3,4) full, of x]
    show ?thesis using False e s(2-5) len f(1)
      by (auto simp: B_def intro!: exI [of _ "fst (snd (queue_send_slow B q x ?k))"] exI [of _ "snd (snd (queue_send_slow B q x ?k))"])
  qed
  show ?recv
  proof (cases "queue_msgs q = []")
    case False
    then show ?thesis using posix.queue_recv_ready [OF assms(1,2) cn assms(5,6,8) False] by (simp add: B_def)
  next
    case True
    note e = posix.queue_recv_empty [OF assms(1,2) cn assms(5,6) True hop]
    note s = posix.recv_slow_parks [OF k(1,2) cn k(3,4) True, of out]
    show ?thesis using True e s(2-5) len f(1)
      by (auto simp: B_def intro!: exI [of _ "fst (snd (queue_recv_slow B q out ?k))"] exI [of _ "snd (snd (queue_recv_slow B q out ?k))"])
  qed
qed

theorem queue_blocking_calls_end_witness:
  "\<exists>q' k'. hrt_queue_recv PB (demo_queue [] [1] []) (Some [0, 0]) P_blocked = Some ((QRetry, Some [0, 0]), q', k') \<and>
     queue_abs PB q' = ([], [1, 0], []) \<and> state (g_tcbs k' ! 0) = HRT_BLOCKED"
proof -
  let ?q = "demo_queue [] [1] []"
  have h: "g_current P_blocked = int 0" "state (g_tcbs P_blocked ! 0) = HRT_READY" "valid (g_ctxs P_blocked ! 0)"
    "queue_msgs ?q = []" "rx_waiters PB ?q = [1]" "tx_waiters PB ?q = []" by code_simp+
  have l: "length [0, 0 :: u8] = unat (item_size ?q)" by (simp add: demo_queue_def)
  have "Suc 0 < (3 :: nat)" by simp
  note t = queue_blocking_calls_end [of 3 2 True "0x100" 0 P_blocked, folded PB_def,
    OF demo_kinv(3) h(1) this h(3,2) demo_queue_wf(1) l l]
  show ?thesis using conjunct2 [OF t] h(4-6) by auto
qed

text \<open>A message comes out of the queue as it was put in: after a send into an idle queue, a receive by the
  same task returns exactly the bytes of the message and leaves the queue as before.\<close>

theorem queue_send_recv_roundtrip:
  assumes "kinv (posix_build n p dbg tramp) {c} k" "g_current k = int c" "c < n"
    "state (g_tcbs k ! c) = HRT_READY" "queue_wf (posix_build n p dbg tramp) q k"
    "queue_abs (posix_build n p dbg tramp) q = ([], [], [])" "length x = unat (item_size q)" "length out = unat (item_size q)"
  defines "B \<equiv> posix_build n p dbg tramp"
  defines "s \<equiv> hrt_queue_try_send B q (Some x) k"
  defines "v \<equiv> hrt_queue_try_recv B (fst (snd s)) (Some out) (snd (snd s))"
  shows "fst s = QRet 0 \<and> fst v = (QRet 0, Some x) \<and> queue_abs B (fst (snd v)) = ([], [], [])"
proof -
  have cn: "c < HARDRT_MAX_TASKS (posix_build n p dbg tramp)" using assms(3) by simp
  have cap: "0 < unat (capacity q)"
    using msg_ring_facts(2) [OF queue_wf_rings(1) [OF assms(5)]] by linarith
  have a: "spec_send (unat (capacity q)) x (queue_abs B q) = (True, None, [x], [], [])"
    using cap assms(6) by (simp add: spec_send_def oldest_def B_def)
  note S = posix.try_send_refines [OF assms(1,2) cn assms(4,5,7), folded B_def, unfolded a, folded s_def, simplified]
  have eq: "core (snd (snd s)) = core k" "item_size (fst (snd s)) = item_size q"
    using assms(6) S(1)
    by (auto simp: s_def B_def hrt_queue_try_send_def send_cs_def Let_def split_beta rx_pop_empty queue_abs_def
        posix_hook_core split: if_splits)
  note f = core_fields [OF eq(1)]
  have k: "kinv B {c} (snd (snd s))" "g_current (snd (snd s)) = int c" "state (g_tcbs (snd (snd s)) ! c) = HRT_READY"
    using S(4) assms(2,4) by (simp_all add: f)
  have b: "spec_recv (queue_abs B (fst (snd s))) = (Some x, None, [], [], [])"
    using S(2) by (simp add: spec_recv_def oldest_def)
  have out: "length out = unat (item_size (fst (snd s)))" using assms(8) eq(2) by simp
  note V = posix.try_recv_refines [OF k(1) [unfolded B_def] k(2) cn k(3) S(3) [unfolded B_def] out, folded B_def, unfolded b,
      folded v_def, simplified]
  show ?thesis using S(1) V(1-3) by (simp add: prod_eq_iff)
qed

theorem queue_send_recv_roundtrip_witness:
  "fst (hrt_queue_try_recv PB
      (fst (snd (hrt_queue_try_send PB (snd (hrt_queue_init (Some [0, 0, 0, 0]) 2 2 (demo_queue [] [] []))) (Some [7, 8]) P_one)))
      (Some [0, 0])
      (snd (snd (hrt_queue_try_send PB (snd (hrt_queue_init (Some [0, 0, 0, 0]) 2 2 (demo_queue [] [] []))) (Some [7, 8]) P_one)))) =
    (QRet 0, Some [7, 8])"
proof -
  let ?q = "snd (hrt_queue_init (Some [0, 0, 0, 0]) 2 2 (demo_queue [] [] []))"
  have v: "valid_build PB" "length (rx_q (demo_queue [] [] [])) = HARDRT_MAX_TASKS PB"
    "length (tx_q (demo_queue [] [] [])) = HARDRT_MAX_TASKS PB" by code_simp+
  have w: "queue_wf PB ?q P_one" "queue_abs PB ?q = ([], [], [])" "item_size ?q = 2"
    by (rule queue_init_wf [OF v]; simp)+
  have h: "g_current P_one = int 0" "state (g_tcbs P_one ! 0) = HRT_READY" by code_simp+
  show ?thesis
    using queue_send_recv_roundtrip [of 3 2 True "0x100" 0 P_one ?q "[7, 8]" "[0, 0]", folded PB_def,
        OF demo_kinv(5) h(1) _ h(2) w(1,2)] w(3) by simp
qed

end
