(* ===== verification/HRT_Info.thy ===== *)
theory HRT_Info
  imports HRT_Prelude
begin

unbundle bit_operations_syntax

text \<open>
  Version and port identity: \<open>src/core/hardrt_version.c\<close> and \<open>src/core/hardrt_portinfo.c\<close>. The
  macros come from headers that the build generates (\<open>hardrt_version.h\<close>, \<open>hardrt_port.h\<close>), so
  they are the fields of a parameter.
\<close>

record build_info =
  HARDRT_VERSION_MAJOR :: u32
  HARDRT_VERSION_MINOR :: u32
  HARDRT_VERSION_PATCH :: u32
  HARDRT_VERSION_STRING :: string
  HARDRT_PORT_STRING :: string
  HARDRT_PORT_ID :: int

definition hrt_version_string :: "build_info \<Rightarrow> string" where
  "hrt_version_string I = HARDRT_VERSION_STRING I"

definition hrt_version_u32 :: "build_info \<Rightarrow> u32" where
  "hrt_version_u32 I =
     push_bit 16 (HARDRT_VERSION_MAJOR I) OR push_bit 8 (HARDRT_VERSION_MINOR I) OR HARDRT_VERSION_PATCH I"

definition hrt_port_name :: "build_info \<Rightarrow> string" where
  "hrt_port_name I = HARDRT_PORT_STRING I"

definition hrt_port_id :: "build_info \<Rightarrow> int" where
  "hrt_port_id I = HARDRT_PORT_ID I"

lemma bit_small:
  assumes "unat (w :: u32) < 2 ^ m" "m \<le> i"
  shows "\<not> bit w i"
proof -
  have "(2 :: nat) ^ m \<le> 2 ^ i" using assms(2) by (rule power_increasing) simp
  then have "unat w < 2 ^ i" using assms(1) by (rule order.strict_trans2 [rotated])
  then have "unat w div 2 ^ i = 0" by simp
  then have "\<not> bit (unat w) i" by (simp add: bit_iff_odd)
  then show ?thesis by (simp add: bit_unsigned_iff)
qed

lemma version_u32_fields:
  assumes "unat (HARDRT_VERSION_MAJOR I) < 2 ^ 16" "unat (HARDRT_VERSION_MINOR I) < 2 ^ 8"
    "unat (HARDRT_VERSION_PATCH I) < 2 ^ 8"
  shows "drop_bit 16 (hrt_version_u32 I) = HARDRT_VERSION_MAJOR I"
    "take_bit 8 (drop_bit 8 (hrt_version_u32 I)) = HARDRT_VERSION_MINOR I"
    "take_bit 8 (hrt_version_u32 I) = HARDRT_VERSION_PATCH I"
proof -
  note b = bit_small [OF assms(1)] bit_small [OF assms(2)] bit_small [OF assms(3)]
  show "drop_bit 16 (hrt_version_u32 I) = HARDRT_VERSION_MAJOR I"
  proof (rule bit_word_eqI)
    fix i :: nat
    assume "i < LENGTH(32)"
    then show "bit (drop_bit 16 (hrt_version_u32 I)) i = bit (HARDRT_VERSION_MAJOR I) i"
      using b(1) [of i] b(2) [of "8 + i"] b(3) [of "16 + i"]
      by (cases "16 \<le> i") (auto simp: hrt_version_u32_def bit_simps)
  qed
  show "take_bit 8 (drop_bit 8 (hrt_version_u32 I)) = HARDRT_VERSION_MINOR I"
  proof (rule bit_word_eqI)
    fix i :: nat
    assume "i < LENGTH(32)"
    then show "bit (take_bit 8 (drop_bit 8 (hrt_version_u32 I))) i = bit (HARDRT_VERSION_MINOR I) i"
      using b(2) [of i] b(3) [of "8 + i"]
      by (cases "8 \<le> i") (auto simp: hrt_version_u32_def bit_simps)
  qed
  show "take_bit 8 (hrt_version_u32 I) = HARDRT_VERSION_PATCH I"
  proof (rule bit_word_eqI)
    fix i :: nat
    assume "i < LENGTH(32)"
    then show "bit (take_bit 8 (hrt_version_u32 I)) i = bit (HARDRT_VERSION_PATCH I) i"
      using b(3) [of i] by (cases "8 \<le> i") (auto simp: hrt_version_u32_def bit_simps)
  qed
qed

end
