(* ===== verification/HRT_Port_Props.thy ===== *)
theory HRT_Port_Props
  imports HRT_Demo HRT_Info
begin

text \<open>
  Properties of the three ports: the contract they keep towards the core, critical sections, tick
  sources, the scheduler loop of the POSIX port, and stacks, context switch and fault handler of the
  Cortex-M port.
\<close>

section \<open>Contract\<close>


section \<open>POSIX port\<close>

text \<open>A critical section of the POSIX port keeps the tick signal blocked at every nesting depth, and leaving
  it restores the state it was entered in.\<close>

theorem posix_critical_section:
  assumes "g_sigalrm_set k" "0 \<le> g_crit_depth k" "sig_blocked k \<longleftrightarrow> 0 < g_crit_depth k"
  shows "sig_blocked (posix_crit_enter k) \<and> sig_blocked (posix_crit_enter (posix_crit_enter k)) \<and>
    posix_crit_exit (posix_crit_enter k) = k"
proof -
  let ?k = "posix_crit_enter k"
  have b: "sig_blocked ?k" using assms by (intro posix_crit_masks) auto
  have "g_sigalrm_set ?k" using assms(1) by (simp add: posix_crit_enter_def Let_def)
  then show ?thesis using b posix_crit_masks [of ?k] posix_crit_balanced [of k] assms by auto
qed

theorem posix_critical_section_witness:
  "sig_blocked (posix_crit_enter P_one) \<and> posix_crit_exit (posix_crit_enter P_one) = P_one"
proof -
  have h: "g_sigalrm_set P_one" "0 \<le> g_crit_depth P_one" "sig_blocked P_one \<longleftrightarrow> 0 < g_crit_depth P_one" by code_simp+
  show ?thesis using posix_critical_section [OF h] by simp
qed

text \<open>The tick timer of the POSIX port. A rate from 2 Hz to 1 MHz arms the interval timer with the period of
  the rate in whole microseconds. At 1 Hz and above 1 MHz the request is one \<open>setitimer\<close> rejects or takes
  for zero, so that no tick ever comes. With an external tick source nothing is armed.\<close>

theorem posix_tick_timer:
  "(g_tick_src k = HRT_TICK_EXTERNAL \<longrightarrow> posix_start_systick hz k = k) \<and>
   (g_tick_src k \<noteq> HRT_TICK_EXTERNAL \<and> 2 \<le> uint hz \<and> uint hz \<le> 1000000 \<longrightarrow>
      itimer_usec (posix_start_systick hz k) = 1000000 div uint hz \<and> 0 < itimer_usec (posix_start_systick hz k) \<and>
      sig_handler (posix_start_systick hz k)) \<and>
   (g_tick_src k \<noteq> HRT_TICK_EXTERNAL \<and> (uint hz = 1 \<or> uint hz > 1000000) \<and> itimer_usec k = 0 \<longrightarrow>
      itimer_usec (posix_start_systick hz k) = 0)"
  using posix_systick_external [of k hz] posix_systick_period [of k hz] posix_systick_dead [of k hz] by blast

theorem posix_tick_timer_witness:
  "itimer_usec (posix_start_systick 200 P_one) = 5000 \<and> itimer_usec (posix_start_systick 1 (P_one\<lparr>itimer_usec := 0\<rparr>)) = 0"
proof -
  have h: "g_tick_src P_one = HRT_TICK_SYSTICK" by code_simp
  show ?thesis using posix_tick_timer [of P_one 200] posix_tick_timer [of "P_one\<lparr>itimer_usec := 0\<rparr>" 1] h by simp
qed

text \<open>One round of the scheduler loop, entered with a switch pending: it runs the first task of the first
  non-empty ready queue, which becomes the current task, leaves its queue and keeps its control block; with
  all queues empty the loop only goes idle. The pending flag is consumed in both cases.\<close>

theorem posix_scheduler_round:
  assumes "\<not> (hooks \<and> g_test_stop k)" "g_switch_pending k" "kinv B {} k"
    "\<forall>i. fst (spec_pick (abs_rq B k)) = Some i \<longrightarrow> int i \<noteq> HRT_IDLE_ID B"
  shows "case spec_pick (abs_rq B k) of
      (Some i, qs) \<Rightarrow> cpu (posix_sched_pass hooks B k) = InTask i \<and> g_current (posix_sched_pass hooks B k) = int i \<and>
        kinv B {i} (posix_sched_pass hooks B k) \<and> abs_rq B (posix_sched_pass hooks B k) = qs \<and>
        g_tcbs (posix_sched_pass hooks B k) = g_tcbs k \<and> \<not> g_switch_pending (posix_sched_pass hooks B k)
    | (None, _) \<Rightarrow> posix_sched_pass hooks B k =
        posix_idle_wait hooks (k\<lparr>g_switch_pending := False, g_sched_old := sig_blocked k\<rparr>)"
proof (cases "spec_pick (abs_rq B k)")
  case (Pair r qs)
  show ?thesis
  proof (cases r)
    case None
    with Pair have "fst (spec_pick (abs_rq B k)) = None" by simp
    then show ?thesis using sched_pass_idle [OF assms(1-3)] Pair None by simp
  next
    case (Some i)
    have i: "int i \<noteq> HRT_IDLE_ID B" using assms(4) Pair Some by simp
    show ?thesis using sched_pass_switch [OF assms(1-3) Pair [unfolded Some] i] Pair Some by simp
  qed
qed

theorem posix_scheduler_round_witness:
  "cpu (posix_sched_pass True PB P_sched) = InTask 1 \<and> abs_rq PB (posix_sched_pass True PB P_sched) = [[], [0]]"
proof -
  have h: "\<not> (True \<and> g_test_stop P_sched)" "g_switch_pending P_sched"
    "spec_pick (abs_rq PB P_sched) = (Some 1, [[], [0]])" "HRT_IDLE_ID PB = 2" by code_simp+
  show ?thesis using posix_scheduler_round [OF h(1,2) demo_kinv(4)] h(3,4) by simp
qed

text \<open>C35: The loop of the POSIX port takes the id of the idle slot for "nothing to run". A task that was created
  in that slot, the last one, is taken out of its ready queue, but never runs: the task stays ready, in
  no queue, and the loop goes on as if it had not been there.\<close>

theorem posix_drops_last_slot:
  assumes "\<not> (hooks \<and> g_test_stop k)" "g_switch_pending k" "kinv B {} k"
    "spec_pick (abs_rq B k) = (Some i, qs)" "int i = HRT_IDLE_ID B"
  defines "k' \<equiv> posix_sched_pass hooks B k"
  shows "abs_rq B k' = qs \<and> state (g_tcbs k' ! i) = state (g_tcbs k ! i) \<and> g_current k' = g_current k \<and> cpu k' = cpu k"
  using sched_pass_drops_idle_slot [OF assms(1-5)] unfolding k'_def by simp

theorem posix_drops_last_slot_witness:
  "kinv PB {} ((demo_posix [free0, free0, ready1] [[], [2]] (-1))\<lparr>g_switch_pending := True\<rparr>) \<and>
   cpu (posix_sched_pass False PB ((demo_posix [free0, free0, ready1] [[], [2]] (-1))\<lparr>g_switch_pending := True\<rparr>)) = LoopTop \<and>
   abs_rq PB (posix_sched_pass False PB ((demo_posix [free0, free0, ready1] [[], [2]] (-1))\<lparr>g_switch_pending := True\<rparr>)) = [[], []]"
proof -
  let ?k = "(demo_posix [free0, free0, ready1] [[], [2]] (-1))\<lparr>g_switch_pending := True\<rparr>"
  have h: "\<not> (False \<and> g_test_stop ?k)" "g_switch_pending ?k" "kinv PB {} ?k" "spec_pick (abs_rq PB ?k) = (Some 2, [[], []])"
    "int 2 = HRT_IDLE_ID PB" "cpu ?k = LoopTop" by code_simp+
  show ?thesis using h(3) posix_drops_last_slot [OF h(1-5)] h(6) by simp
qed

section \<open>Cortex-M port\<close>

text \<open>C28: Critical sections of the Cortex-M port nest: from the first of \<open>m\<close> nested entries to the last exit
  \<open>BASEPRI\<close> masks the kernel-aware interrupts, so that a pended context switch is not taken, and the last
  exit restores the mask of the outermost entry. An exit too many does nothing.\<close>

theorem cm_nested_critical_sections:
  assumes "g_cs_nest k = 0" "0 < m" "m < 2 ^ 32" "shpr10 k = 0xF0"
  defines "k' \<equiv> (cm_crit_enter ^^ m) k"
  shows "(\<forall>j < m. basepri ((cm_crit_exit ^^ j) k') = 0x50 \<and>
      \<not> pendsv_taken (cm_pend_context_switch ((cm_crit_exit ^^ j) k'))) \<and>
    (cm_crit_exit ^^ m) k' = k\<lparr>g_basepri_prev := basepri k\<rparr> \<and> cm_crit_exit k = k"
proof -
  obtain i where m: "m = Suc i" using assms(2) by (cases m) auto
  have k': "k' = masked m k" using cm_crit_enters [OF assms(1), of i] assms(3) by (simp add: k'_def m)
  have in_cs: "(cm_crit_exit ^^ j) k' = masked (m - j) k" if "j < m" for j
    unfolding k' using cm_crit_exits [OF assms(1,3) that] .
  have "(cm_crit_exit ^^ m) k' = cm_crit_exit (masked 1 k)" using in_cs [of i] by (simp add: m)
  then show ?thesis
    using in_cs cm_crit_last_exit [OF assms(1)] cm_crit_underflow [OF assms(1)] assms(4)
    by (simp add: masked_def pendsv_taken_def cm_pend_context_switch_def)
qed

theorem cm_nested_critical_sections_witness:
  "basepri ((cm_crit_exit ^^ 1) ((cm_crit_enter ^^ 2) C_one)) = 0x50 \<and>
   basepri ((cm_crit_exit ^^ 2) ((cm_crit_enter ^^ 2) C_one)) = 0"
proof -
  have h: "g_cs_nest C_one = 0" "shpr10 C_one = 0xF0" "basepri C_one = 0" by code_simp+
  have "(0 :: nat) < 2" "(2 :: nat) < 2 ^ 32" by simp_all
  note t = cm_nested_critical_sections [OF h(1) this h(2)]
  show ?thesis using conjunct1 [OF t, THEN spec, of 1] conjunct2 [OF t] h(3) by simp
qed

text \<open>The SysTick reload value is the number of core cycles per tick, less one, clamped to the 24 bits of the
  register: the tick rate is right up to rounding exactly while a tick is at most 2^24 - 1 cycles long.\<close>

theorem cm_systick_rate:
  assumes "tick_hz \<noteq> 0" "g_tick_src k \<noteq> HRT_TICK_EXTERNAL"
  shows "unat (systick_load (cm_start_systick L tick_hz k)) + 1 =
      min 0xFFFFFF (max 1 (unat (hrt_port_get_core_hz L) div unat tick_hz)) \<and>
    systick_ctrl (cm_start_systick L tick_hz k) = 7 \<and> \<not> primask (cm_start_systick L tick_hz k)"
proof -
  have "hrt_port_get_core_hz L \<noteq> 0" by (simp add: hrt_port_get_core_hz_def)
  then show ?thesis
    using assms cm_systick_reload [OF assms, of L]
    by (simp add: cm_start_systick_def hrt__cfg_tick_src_def Let_def)
qed

theorem cm_systick_rate_witness: "unat (systick_load (cm_start_systick demo_link 1000 C_one)) = 63999"
proof -
  have h: "(1000 :: u32) \<noteq> 0" "g_tick_src C_one \<noteq> HRT_TICK_EXTERNAL" by code_simp+
  show ?thesis using cm_systick_rate [OF h, of demo_link] by (simp add: hrt_port_get_core_hz_def demo_link_def)
qed

text \<open>C27: A new task starts in the trampoline. For a stack that fits in the address space,
  \<open>hrt_port_prepare_task_stack\<close> stores a stack pointer that is aligned to 8 bytes and at least 185 bytes
  above the base, and builds there the frame from which the context switch and the exception return load
  zeroed registers, the trampoline as program counter and the Thumb bit.\<close>

theorem cm_new_task_starts_in_trampoline:
  fixes L :: cm_link and tramp :: uintptr
  assumes "unat base + 4 * unat n < 2 ^ 32" "64 \<le> unat n" "i < HARDRT_MAX_TASKS B"
    "length (g_tcbs k) = HARDRT_MAX_TASKS B"
  defines "k' \<equiv> cm_prepare_task_stack L B (int i) tramp base n k"
  defines "s \<equiv> sp (g_tcbs k' ! i)"
  shows "unat base + 185 \<le> unat s \<and> unat s + 64 \<le> unat base + 4 * unat n \<and> unat s mod 8 = 0 \<and> g_error k' = g_error k \<and>
    r4_r11 (switched_in s k') = replicate 8 0 \<and>
    hw_unstack (switched_in s k') = ([0, 0, 0, 0, 0, 0xFFFFFFFD, sym_trampoline L, 0x01000000], (switched_in s k')\<lparr>psp := s + 64\<rparr>)"
proof -
  note b = stack_top_bounds [OF assms(1,2)]
  let ?s = "stack_top base n - 64"
  have nz: "?s \<noteq> 0" using b(1,3) by auto
  have k': "k' = set_sp B (int i) ?s (k\<lparr>mem := store_words (first_frame L) ?s (mem k)\<rparr>)"
    unfolding k'_def using assms(1,2) by (rule prepare_frame)
  have s: "s = ?s" and m: "mem k' = store_words (first_frame L) ?s (mem k)" and e: "g_error k' = g_error k"
    using assms(3,4) nz by (simp_all add: s_def k' set_sp_def hrt__tcb_def tcb_upd_def tcb_valid_def Let_def)
  have "load_words (mem k') s 16 = first_frame L"
    using load_store_words [of "first_frame L" ?s "mem k"] unfolding m s by (simp add: first_frame_def)
  then show ?thesis using first_dispatch b s e by auto
qed

theorem cm_new_task_starts_in_trampoline_witness:
  "unat (sp (g_tcbs (cm_prepare_task_stack demo_link CB 1 0 0x20004004 64 C_one) ! 1)) mod 8 = 0"
proof -
  have h: "unat (0x20004004 :: u32) + 4 * unat (64 :: u32) < 2 ^ 32" "64 \<le> unat (64 :: u32)" by simp_all
  have "1 < HARDRT_MAX_TASKS CB" "length (g_tcbs C_one) = HARDRT_MAX_TASKS CB" by code_simp+
  then show ?thesis using cm_new_task_starts_in_trampoline [OF h, of 1 CB C_one demo_link 0] by simp
qed

text \<open>C2: The context switch. Taken while task \<open>c\<close> runs, the PendSV handler ends within 12 instructions with an
  exception return to thread mode. It has saved r4 to r11 below the stack pointer of \<open>c\<close> and recorded that
  pointer; the task that now runs is the one the scheduling rule picks once \<open>c\<close>, if still ready, is put at
  the end of its queue; its registers are loaded from its own stack; interrupts are enabled again.\<close>

theorem pendsv_switches_context:
  assumes "kinv B {c} k" "g_current k = int c" "c < HARDRT_MAX_TASKS B" "psp k \<noteq> 0" "psp k \<noteq> 32"
  defines "i \<equiv> nat (pick_id B (fst (spec_pick (preempted_rq B k))))"
  defines "ts \<equiv> (g_tcbs k)[c := (g_tcbs k ! c)\<lparr>sp := psp k - 32\<rparr>]"
  assumes "sp (ts ! i) \<noteq> 0"
  shows "\<exists>k'. PendSV_Handler B 12 exc g k = Some (0xFFFFFFFD, k') \<and> g_current k' = int i \<and> kinv B {i} k' \<and>
    abs_rq B k' = snd (spec_pick (preempted_rq B k)) \<and> g_tcbs k' = ts \<and>
    mem k' = store_words (r4_r11 k) (psp k - 32) (mem k) \<and> psp k' = sp (ts ! i) + 32 \<and>
    r4_r11 k' = load_words (mem k') (sp (ts ! i)) 8 \<and> \<not> primask k' \<and> g_error k' = g_error k \<and> g_fault k' = g_fault k"
  using PendSV_effect [OF assms(1-5), folded i_def, folded ts_def, OF assms(8), of exc g] by metis

theorem pendsv_switches_context_witness:
  "\<exists>k'. PendSV_Handler CB 12 0xFFFFFFFD \<lparr>pc = At 0, r0 = 0, r1 = 0, lr = ReturnTo 0\<rparr> C_ready = Some (0xFFFFFFFD, k') \<and>
     g_current k' = 1 \<and> psp k' = 0x20001020"
proof -
  have h: "g_current C_ready = int 0" "0 < HARDRT_MAX_TASKS CB" "psp C_ready \<noteq> 0" "psp C_ready \<noteq> 32"
    "nat (pick_id CB (fst (spec_pick (preempted_rq CB C_ready)))) = 1"
    "sp ((g_tcbs C_ready)[0 := (g_tcbs C_ready ! 0)\<lparr>sp := psp C_ready - 32\<rparr>] ! 1) = 0x20001000" by code_simp+
  note t = pendsv_switches_context [OF demo_kinv(6) h(1-4), unfolded h(5,6),
    of "0xFFFFFFFD" "\<lparr>pc = At 0, r0 = 0, r1 = 0, lr = ReturnTo 0\<rparr>", simplified]
  show ?thesis using t by auto
qed

text \<open>A task gets its context back. Let \<open>k\<close> be the state in which task \<open>c\<close> is switched out and \<open>k2\<close> a later
  state in which a context switch picks \<open>c\<close> again. If the eight words saved on the stack of \<open>c\<close> are still
  there, \<open>c\<close> resumes with the r4 to r11 and the stack pointer it had.\<close>

theorem context_roundtrip:
  assumes "length (r4_r11 k) = 8" "psp k \<noteq> 32"
    and "kinv B {d} k2" "g_current k2 = int d" "d < HARDRT_MAX_TASKS B" "psp k2 \<noteq> 0" "psp k2 \<noteq> 32" "d \<noteq> c"
    "pick_id B (fst (spec_pick (preempted_rq B k2))) = int c" "sp (g_tcbs k2 ! c) = psp k - 32"
    "\<forall>j < 8. store_words (r4_r11 k2) (psp k2 - 32) (mem k2) (psp k - 32 + 4 * word_of_nat j) =
       mem (switched_out k) (psp k - 32 + 4 * word_of_nat j)"
  shows "\<exists>k'. PendSV_Handler B 12 exc g k2 = Some (0xFFFFFFFD, k') \<and> g_current k' = int c \<and>
    r4_r11 k' = r4_r11 k \<and> psp k' = psp k"
proof -
  let ?ts = "(g_tcbs k2)[d := (g_tcbs k2 ! d)\<lparr>sp := psp k2 - 32\<rparr>]"
  have i: "nat (pick_id B (fst (spec_pick (preempted_rq B k2)))) = c" using assms(9) by simp
  have sp: "sp (?ts ! c) = psp k - 32" using assms(8,10) by simp
  have nz: "psp k - 32 \<noteq> 0" using assms(2) by simp
  obtain k' where k': "PendSV_Handler B 12 exc g k2 = Some (0xFFFFFFFD, k')" "g_current k' = int c"
    "mem k' = store_words (r4_r11 k2) (psp k2 - 32) (mem k2)" "psp k' = psp k - 32 + 32"
    "r4_r11 k' = load_words (mem k') (psp k - 32) 8"
    using PendSV_effect [OF assms(3-7), unfolded i sp, OF nz, of exc g] by metis
  have "load_words (mem k') (psp k - 32) 8 = r4_r11 k"
    using assms(11) by (intro context_restored(1) [OF assms(1)]) (simp add: k'(3))
  then show ?thesis using k' by auto
qed

theorem context_roundtrip_witness:
  "\<exists>k'. PendSV_Handler CB 12 0xFFFFFFFD \<lparr>pc = At 0, r0 = 0, r1 = 0, lr = ReturnTo 0\<rparr>
       (C_ready\<lparr>r4_r11 := replicate 8 9, mem := store_words [1, 2, 3, 4, 5, 6, 7, 8] 0x20001000 (\<lambda>_. 0)\<rparr>) =
       Some (0xFFFFFFFD, k') \<and> r4_r11 k' = [1, 2, 3, 4, 5, 6, 7, 8] \<and> psp k' = 0x20001020"
proof -
  let ?k = "C_ready\<lparr>psp := 0x20001020\<rparr>"
  let ?k2 = "C_ready\<lparr>r4_r11 := replicate 8 9, mem := store_words [1, 2, 3, 4, 5, 6, 7, 8] 0x20001000 (\<lambda>_. 0)\<rparr>"
  have h: "length (r4_r11 ?k) = 8" "psp ?k \<noteq> 32" "kinv CB {0} ?k2" "g_current ?k2 = int 0" "0 < HARDRT_MAX_TASKS CB"
    "psp ?k2 \<noteq> 0" "psp ?k2 \<noteq> 32" "pick_id CB (fst (spec_pick (preempted_rq CB ?k2))) = int 1"
    "sp (g_tcbs ?k2 ! 1) = psp ?k - 32" "r4_r11 ?k = [1, 2, 3, 4, 5, 6, 7, 8]" "psp ?k = 0x20001020"
    "list_all (\<lambda>j. store_words (r4_r11 ?k2) (psp ?k2 - 32) (mem ?k2) (psp ?k - 32 + 4 * word_of_nat j) =
       mem (switched_out ?k) (psp ?k - 32 + 4 * word_of_nat j)) [0..<8]" by code_simp+
  have m: "\<forall>j < 8. store_words (r4_r11 ?k2) (psp ?k2 - 32) (mem ?k2) (psp ?k - 32 + 4 * word_of_nat j) =
       mem (switched_out ?k) (psp ?k - 32 + 4 * word_of_nat j)" using h(12) by (simp add: list_all_iff)
  have "(0 :: nat) \<noteq> 1" by simp
  note t = context_roundtrip [OF h(1-7) this h(8,9) m, unfolded h(10,11)]
  show ?thesis using t by blast
qed

text \<open>C34: When the scheduler returns a null stack pointer, which is that of a ready task whose stack could not be
  prepared, the PendSV handler never returns: its exit path branches to the link register, and that holds
  the address after the call of \<open>hrt__schedule\<close>, not the exception return value.\<close>

theorem pendsv_hangs_on_null_sp:
  assumes "psp k \<noteq> 0" "fst (hrt__schedule B (psp k - 32) (switched_out k)) = 0"
  shows "PendSV_Handler B fuel exc g k = None"
  using assms by (rule PendSV_stuck)

theorem pendsv_hangs_on_null_sp_witness:
  "PendSV_Handler CB 1000 0xFFFFFFFD \<lparr>pc = At 0, r0 = 0, r1 = 0, lr = ReturnTo 0\<rparr>
     (C_ready\<lparr>g_tcbs := [ready1, ready1\<lparr>sp := 0\<rparr>, free0]\<rparr>) = None"
proof -
  let ?k = "C_ready\<lparr>g_tcbs := [ready1, ready1\<lparr>sp := 0\<rparr>, free0]\<rparr>"
  have h: "psp ?k \<noteq> 0" "fst (hrt__schedule CB (psp ?k - 32) (switched_out ?k)) = 0" by code_simp+
  show ?thesis using pendsv_hangs_on_null_sp [OF h] .
qed

text \<open>C36: On Cortex-M \<open>hrt_yield\<close> queues the caller and the context switch it causes queues it again. If no other
  task is ready, the second entry stays behind, and a later \<open>hrt_sleep\<close> does not suspend the task: the
  switch finds the stale entry and runs the sleeping task on.\<close>

theorem cm_sleep_after_yield_returns:
  fixes ms :: u32
  assumes "kinv (cm_build L n p dbg) {c} k" "g_current k = int c" "c < n" "1 < n" "state (g_tcbs k ! c) = HRT_READY"
    "\<forall>r < p. rq_list (cm_build L n p dbg) k r = []" "s1 \<noteq> 0" "s2 \<noteq> 0"
  defines "B \<equiv> cm_build L n p dbg"
  defines "k1 \<equiv> snd (hrt__schedule B s1 (snd (hrt_yield B k)))"
  defines "k2 \<equiv> snd (hrt__schedule B s2 (snd (hrt_sleep B ms k1)))"
  shows "g_current k1 = int c \<and> rq_list B k1 (unat (prio (g_tcbs k ! c))) = [c] \<and>
    g_current k2 = int c \<and> state (g_tcbs k2 ! c) = HRT_SLEEP"
proof -
  note y = cm_yield_stale [OF assms(1-7), folded B_def, folded k1_def]
  have r: "unat (prio (g_tcbs k ! c)) < p" using kwf_prio [OF kinv_kwf [OF assms(1)], of c] assms(3,5) by simp
  have q: "\<forall>q < unat (prio (g_tcbs k ! c)). rq_list B k1 q = []" using y(4) assms(6) r by (auto simp: B_def)
  have q1: "rq_list B k1 (unat (prio (g_tcbs k ! c))) = c # []" using y(4) by simp
  note s = cm_stale_sleep [where ms = ms, OF y(2) [unfolded B_def] y(1) assms(3) r q1 [unfolded B_def] q [unfolded B_def] assms(8),
      folded B_def, folded k2_def]
  show ?thesis using y(1) q1 s by blast
qed

theorem cm_sleep_after_yield_returns_witness:
  "state (g_tcbs (snd (hrt__schedule CB 0x20001000 (snd (hrt_sleep CB 100 (snd (hrt__schedule CB 0x20001000 (snd (hrt_yield CB C_one)))))))) ! 0)
     = HRT_SLEEP \<and>
   g_current (snd (hrt__schedule CB 0x20001000 (snd (hrt_sleep CB 100 (snd (hrt__schedule CB 0x20001000 (snd (hrt_yield CB C_one)))))))) = 0"
proof -
  have h: "g_current C_one = int 0" "state (g_tcbs C_one ! 0) = HRT_READY"
    "rq_list CB C_one 0 = []" "rq_list CB C_one 1 = []" by code_simp+
  have e: "\<forall>r < 2. rq_list CB C_one r = []" using h(3,4) by (auto simp: less_Suc_eq numeral_2_eq_2)
  have "(0 :: nat) < 3" "(1 :: nat) < 3" "(0x20001000 :: u32) \<noteq> 0" by simp_all
  note t = cm_sleep_after_yield_returns [of demo_link 3 2 True 0 C_one, folded CB_def,
    OF demo_kinv(8) h(1) this(1,2) h(2) e this(3,3)]
  show ?thesis using t by simp
qed



section \<open>End of a task\<close>

text \<open>C31: A task function that returns ends its task: the trampoline frees the slot, and the kernel invariant
  holds with no task running. The task function is a parameter, of which only what every run of a task
  keeps is used: the invariant, and that the task is the current one when it returns.\<close>

theorem returning_task_is_deleted:
  fixes run_entry :: "uintptr \<Rightarrow> uintptr \<Rightarrow> posix \<Rightarrow> posix"
  assumes "kinv (posix_build n p dbg tramp) {c} k" "g_current k = int c" "Suc c < n"
  defines "B \<equiv> posix_build n p dbg tramp"
  defines "k1 \<equiv> run_entry (entry (g_tcbs k ! c)) (arg (g_tcbs k ! c)) k"
  assumes "kinv (posix_build n p dbg tramp) {c} k1" "g_current k1 = int c"
  defines "k' \<equiv> snd (posix_task_trampoline run_entry B k)"
  shows "kinv B {} k' \<and> state (g_tcbs k' ! c) = HRT_UNUSED \<and> rq_list B k' = rq_list B k1 \<and>
    (\<forall>j. j \<noteq> c \<longrightarrow> g_tcbs k' ! j = g_tcbs k1 ! j)"
proof -
  have len: "length (g_tcbs k) = n" "length (g_tcbs k1) = n"
    using kwf_sizes(2) [OF kinv_kwf [OF assms(1)]] kwf_sizes(2) [OF kinv_kwf [OF assms(6)]] by simp_all
  have k': "k' = snd (hrt_task_delete B k1)"
    using assms(2,3) len
    by (simp add: k'_def k1_def B_def posix_task_trampoline_def hrt__get_current_def hrt__tcb_def deref_def tcb_of_def
        tcb_valid_def Let_def)
  have c: "c < HARDRT_MAX_TASKS (posix_build n p dbg tramp)" "int c \<noteq> HRT_IDLE_ID (posix_build n p dbg tramp)"
    using assms(3) by (simp_all add: HRT_IDLE_ID_def)
  note d = posix.delete_running [OF assms(6,7) c, folded B_def, folded k']
  show ?thesis using d(1-3) assms(3) len by simp
qed

theorem returning_task_is_deleted_witness:
  "kinv PB {} (snd (posix_task_trampoline (\<lambda>_ _ k. k) PB P_ready)) \<and>
   state (g_tcbs (snd (posix_task_trampoline (\<lambda>_ _ k. k) PB P_ready)) ! 0) = HRT_UNUSED"
proof -
  have h: "g_current P_ready = int 0" by code_simp
  have "Suc 0 < (3 :: nat)" by simp
  note t = returning_task_is_deleted [of 3 2 True "0x100" 0 P_ready "\<lambda>_ _ k. k", folded PB_def,
    OF demo_kinv(1) h this demo_kinv(1) h]
  show ?thesis using t by simp
qed

section \<open>Version\<close>

text \<open>The packed version number can be taken apart again: while minor and patch number are below 256, and
  the major number below 65536, the three fields of \<open>hrt_version_u32\<close> are the three numbers of the build.\<close>

theorem version_roundtrip:
  assumes "unat (HARDRT_VERSION_MAJOR I) < 2 ^ 16" "unat (HARDRT_VERSION_MINOR I) < 2 ^ 8"
    "unat (HARDRT_VERSION_PATCH I) < 2 ^ 8"
  shows "drop_bit 16 (hrt_version_u32 I) = HARDRT_VERSION_MAJOR I \<and>
    take_bit 8 (drop_bit 8 (hrt_version_u32 I)) = HARDRT_VERSION_MINOR I \<and>
    take_bit 8 (hrt_version_u32 I) = HARDRT_VERSION_PATCH I"
  using version_u32_fields [OF assms] by blast

theorem version_roundtrip_witness:
  "drop_bit 16 (hrt_version_u32 \<lparr>HARDRT_VERSION_MAJOR = 0, HARDRT_VERSION_MINOR = 4, HARDRT_VERSION_PATCH = 1,
      HARDRT_VERSION_STRING = ''0.4.1'', HARDRT_PORT_STRING = ''posix'', HARDRT_PORT_ID = 1\<rparr>) = 0 \<and>
   take_bit 8 (drop_bit 8 (hrt_version_u32 \<lparr>HARDRT_VERSION_MAJOR = 0, HARDRT_VERSION_MINOR = 4, HARDRT_VERSION_PATCH = 1,
      HARDRT_VERSION_STRING = ''0.4.1'', HARDRT_PORT_STRING = ''posix'', HARDRT_PORT_ID = 1\<rparr>)) = 4"
  using version_roundtrip [of "\<lparr>HARDRT_VERSION_MAJOR = 0, HARDRT_VERSION_MINOR = 4, HARDRT_VERSION_PATCH = 1,
      HARDRT_VERSION_STRING = ''0.4.1'', HARDRT_PORT_STRING = ''posix'', HARDRT_PORT_ID = 1\<rparr>"]
  by simp

end
