(* ===== verification/HRT_Posix_Calls.thy ===== *)
theory HRT_Posix_Calls
  imports HRT_Port_Posix
begin

text \<open>
  The kernel calls of a task seen from the POSIX port: which port variables a call leaves alone, and
  where the processor is after it. A call either returns to the task or ends in the scheduler loop,
  with the tick signal masked as the loop left it.
\<close>

section \<open>Port variables\<close>

text \<open>What every call leaves alone: the current task, the mask saved for the loop, whether the tick signal
  is set up, and which contexts are valid.\<close>

definition port_frame :: "posix \<Rightarrow> int \<times> bool \<times> bool \<times> bool list" where
  "port_frame k = (g_current k, g_sched_blocked k, g_sigalrm_set k, map valid (g_ctxs k))"

lemma more_posix:
  assumes "kernel.more (a :: posix) = kernel.more b"
  shows "cpu a = cpu b" "g_ctxs a = g_ctxs b" "g_sched_blocked a = g_sched_blocked b"
    "g_current a = g_current b \<Longrightarrow> port_frame a = port_frame b"
  using posix_more [OF assms] by (simp_all add: port_frame_def)

lemma deref_current [simp]: "g_current (deref t k) = g_current k"
  by (simp add: deref_def)

lemma core_ops_cpu [simp]:
  fixes k :: posix
  shows
  "cpu (hrt_error e k) = cpu k" "cpu (deref t k) = cpu k" "cpu (tcb_upd t f k) = cpu k"
  "cpu (rq_push B p i k) = cpu k" "cpu (hrt__make_ready B i k) = cpu k"
  by (rule more_posix(1), simp)+

lemma core_ops_ctxs [simp]:
  fixes k :: posix
  shows
  "g_ctxs (hrt_error e k) = g_ctxs k" "g_ctxs (deref t k) = g_ctxs k" "g_ctxs (tcb_upd t f k) = g_ctxs k"
  "g_ctxs (rq_push B p i k) = g_ctxs k" "g_ctxs (hrt__make_ready B i k) = g_ctxs k"
  by (rule more_posix(2), simp)+

lemma core_ops_sched_blocked [simp]:
  fixes k :: posix
  shows
  "g_sched_blocked (hrt_error e k) = g_sched_blocked k" "g_sched_blocked (deref t k) = g_sched_blocked k"
  "g_sched_blocked (tcb_upd t f k) = g_sched_blocked k" "g_sched_blocked (rq_push B p i k) = g_sched_blocked k"
  "g_sched_blocked (hrt__make_ready B i k) = g_sched_blocked k"
  by (rule more_posix(3), simp)+

lemma core_ops_frame [simp]:
  fixes k :: posix
  shows
  "port_frame (hrt_error e k) = port_frame k" "port_frame (deref t k) = port_frame k"
  "port_frame (tcb_upd t f k) = port_frame k" "port_frame (rq_push B p i k) = port_frame k"
  "port_frame (hrt__make_ready B i k) = port_frame k"
  by (rule more_posix(4); simp)+

lemma port_ops_frame [simp]:
  fixes k :: posix
  shows
  "port_frame (posix_crit_enter k) = port_frame k" "port_frame (posix_crit_exit k) = port_frame k"
  "port_frame (posix_pend_context_switch k) = port_frame k"
  "cpu (posix_crit_enter k) = cpu k" "cpu (posix_crit_exit k) = cpu k" "cpu (posix_pend_context_switch k) = cpu k"
  "g_sched_blocked (posix_crit_enter k) = g_sched_blocked k" "g_sched_blocked (posix_crit_exit k) = g_sched_blocked k"
  "g_sched_blocked (posix_pend_context_switch k) = g_sched_blocked k"
  "g_current (posix_crit_enter k) = g_current k" "g_current (posix_crit_exit k) = g_current k"
  "g_current (posix_pend_context_switch k) = g_current k" "g_ctxs (posix_pend_context_switch k) = g_ctxs k"
  by (simp_all add: port_frame_def posix_crit_enter_def posix_crit_exit_def posix_pend_context_switch_def Let_def)

section \<open>The hop to the scheduler loop\<close>

lemma posix_hops:
  "fst (posix_yield_to_scheduler n k) \<longleftrightarrow>
     \<not> (g_current k < 0 \<or> g_current k = int n - 1 \<or> \<not> valid (g_ctxs k ! nat (g_current k)))"
  by (simp add: posix_yield_to_scheduler_def hrt__get_current_def block_sigalrm_def Let_def)

lemma map_valid_update:
  "valid c = valid (xs ! i) \<Longrightarrow> map valid (xs[i := c]) = map valid xs"
  by (cases "i < length xs") (simp_all add: map_update list_update_same_conv list_update_beyond)

lemma posix_yield_frame [simp]: "port_frame (snd (posix_yield_to_scheduler n k)) = port_frame k"
  by (simp add: port_frame_def posix_yield_to_scheduler_def hrt__get_current_def block_sigalrm_def Let_def map_valid_update)

text \<open>\<open>left k r k'\<close>: after a call made in \<open>k\<close>, \<open>r\<close> tells whether the task left for the loop.\<close>

definition left :: "posix \<Rightarrow> bool \<Rightarrow> posix \<Rightarrow> bool" where
  "left k r k' \<longleftrightarrow> port_frame k' = port_frame k \<and>
     (if r then cpu k' = LoopBack \<and> sig_blocked k' = g_sched_blocked k else cpu k' = cpu k)"

lemma left_hop:
  assumes "port_frame k1 = port_frame k" "cpu k1 = cpu k" "g_sched_blocked k1 = g_sched_blocked k"
    "fst (posix_yield_to_scheduler n k1) = r"
  shows "left k r (snd (posix_yield_to_scheduler n k1))"
proof (cases r)
  case True
  with assms(4) have "fst (posix_yield_to_scheduler n k1)" by simp
  with True show ?thesis using assms
    by (auto simp: left_def posix_yield_to_scheduler_def hrt__get_current_def block_sigalrm_def Let_def port_frame_def
        map_valid_update split: if_splits)
next
  case False
  then have "posix_yield_to_scheduler n k1 = (False, k1)"
    using assms(4) by (intro posix_no_hop) (auto simp: posix_hops)
  with False show ?thesis using assms by (simp add: left_def)
qed

lemma left_stay: "port_frame k' = port_frame k \<Longrightarrow> cpu k' = cpu k \<Longrightarrow> left k False k'"
  by (simp add: left_def)

lemma left_trans:
  assumes "left k1 r k2" "port_frame k1 = port_frame k" "cpu k1 = cpu k" "g_sched_blocked k1 = g_sched_blocked k"
  shows "left k r k2"
  using assms by (simp add: left_def)

section \<open>Where the calls leave the processor\<close>

lemma yield_left: "left k (fst (hrt_yield (posix_build n p dbg tramp) k)) (snd (hrt_yield (posix_build n p dbg tramp) k))"
  by (simp add: hrt_yield_def Let_def left_hop left_stay)

lemma yield_left':
  assumes "port_frame k1 = port_frame k" "cpu k1 = cpu k" "g_sched_blocked k1 = g_sched_blocked k"
    "fst (hrt_yield (posix_build n p dbg tramp) k1) = r"
  shows "left k r (snd (hrt_yield (posix_build n p dbg tramp) k1))"
  unfolding assms(4) [symmetric] by (rule left_trans [OF yield_left assms(1-3)])

lemma sleep_left:
  "left k (fst (hrt_sleep (posix_build n p dbg tramp) ms k)) (snd (hrt_sleep (posix_build n p dbg tramp) ms k))"
  by (simp add: hrt_sleep_def Let_def left_hop left_stay)

lemma sem_waitq_frame [simp]:
  fixes k :: posix
  shows "port_frame (snd (sem_waitq_push B i (s, k))) = port_frame k" "cpu (snd (sem_waitq_push B i (s, k))) = cpu k"
    "g_sched_blocked (snd (sem_waitq_push B i (s, k))) = g_sched_blocked k"
    "port_frame (snd (snd (sem_waitq_pop B (s, k)))) = port_frame k" "cpu (snd (snd (sem_waitq_pop B (s, k)))) = cpu k"
    "g_sched_blocked (snd (snd (sem_waitq_pop B (s, k)))) = g_sched_blocked k"
  by (simp_all add: sem_waitq_push_def sem_waitq_pop_def Let_def)

lemma sem_try_take_left:
  "left k False (snd (snd (hrt_sem_try_take (posix_build n p dbg tramp) s k)))"
  by (simp add: hrt_sem_try_take_def Let_def left_stay)

lemma sem_slow_left:
  "left k (fst (sem_take_slow (posix_build n p dbg tramp) s k) = Hop) (snd (snd (sem_take_slow (posix_build n p dbg tramp) s k)))"
  by (simp add: sem_take_slow_def Let_def split_beta left_hop left_stay)

lemma sem_take_left:
  "left k (fst (hrt_sem_take (posix_build n p dbg tramp) s k) = Hop) (snd (snd (hrt_sem_take (posix_build n p dbg tramp) s k)))"
  by (simp add: hrt_sem_take_def hrt_sem_try_take_def Let_def split_beta left_stay left_trans [OF sem_slow_left])

lemma sem_give_cs_frame [simp]:
  fixes k :: posix
  shows "port_frame (snd (snd (sem_give_cs B s k))) = port_frame k" "cpu (snd (snd (sem_give_cs B s k))) = cpu k"
    "g_sched_blocked (snd (snd (sem_give_cs B s k))) = g_sched_blocked k"
  by (simp_all add: sem_give_cs_def Let_def split_beta)

lemma sem_give_left:
  "left k (fst (hrt_sem_give (posix_build n p dbg tramp) s k) = Hop) (snd (snd (hrt_sem_give (posix_build n p dbg tramp) s k)))"
  by (simp add: hrt_sem_give_def sem_give_common_def Let_def split_beta left_stay yield_left')

lemma mutex_try_lock_left:
  "left k False (snd (snd (hrt_mutex_try_lock (posix_build n p dbg tramp) m k)))"
  by (simp add: hrt_mutex_try_lock_def Let_def left_stay)

lemma mutex_slow_left:
  "left k (fst (mutex_lock_slow (posix_build n p dbg tramp) me m k) = Hop)
     (snd (snd (mutex_lock_slow (posix_build n p dbg tramp) me m k)))"
  by (simp add: mutex_lock_slow_def Let_def split_beta left_hop left_stay)

lemma mutex_lock_left:
  "left k (fst (hrt_mutex_lock (posix_build n p dbg tramp) m k) = Hop) (snd (snd (hrt_mutex_lock (posix_build n p dbg tramp) m k)))"
  by (simp add: hrt_mutex_lock_def hrt_mutex_try_lock_def Let_def split_beta left_stay left_trans [OF mutex_slow_left])

lemma mutex_unlock_left:
  "left k (fst (hrt_mutex_unlock (posix_build n p dbg tramp) m k) = Hop)
     (snd (snd (hrt_mutex_unlock (posix_build n p dbg tramp) m k)))"
  by (simp add: hrt_mutex_unlock_def Let_def split_beta left_stay yield_left')

section \<open>Calls that leave\<close>

text \<open>A task in a slot of its own, not the idle slot, with a valid context, always leaves when it yields.\<close>

definition runs :: "nat \<Rightarrow> nat \<Rightarrow> posix \<Rightarrow> bool" where
  "runs n c k \<longleftrightarrow> g_current k = int c \<and> Suc c < n \<and> valid (g_ctxs k ! c)"

lemma waitq_ctxs [simp]:
  fixes k :: posix
  shows "g_ctxs (snd (sem_waitq_push B i (s, k))) = g_ctxs k" "g_current (snd (sem_waitq_push B i (s, k))) = g_current k"
  by (simp_all add: sem_waitq_push_def Let_def)

lemma yield_hops: "runs n c k \<Longrightarrow> fst (hrt_yield (posix_build n p dbg tramp) k)"
  by (simp add: hrt_yield_def runs_def Let_def posix_hops hrt__tcb_def)

lemma sleep_hops: "runs n c k \<Longrightarrow> fst (hrt_sleep (posix_build n p dbg tramp) ms k)"
  by (simp add: hrt_sleep_def runs_def Let_def posix_hops hrt__tcb_def)

lemma sem_take_hops:
  assumes "runs n c k" "sem_count s = 0"
  shows "fst (hrt_sem_take (posix_build n p dbg tramp) s k) = Hop"
  using assms by (simp add: hrt_sem_take_def hrt_sem_try_take_def sem_take_slow_def hrt__get_current_def runs_def Let_def
      split_beta posix_hops)

lemma mutex_lock_hops:
  assumes "runs n c k" "locked m \<noteq> 0" "sint (owner m) \<noteq> int c"
  shows "fst (hrt_mutex_lock (posix_build n p dbg tramp) m k) = Hop"
  using assms by (simp add: hrt_mutex_lock_def hrt_mutex_try_lock_def mutex_lock_slow_def hrt__get_current_def runs_def
      Let_def split_beta posix_hops hrt__tcb_def)

lemma runs_woken: "runs n c k \<Longrightarrow> runs n c (woken (posix_build n p dbg tramp) w k)"
  by (simp add: runs_def woken_def)

section \<open>Ticks\<close>

lemma tick_wake_more: "kernel.more (snd (tick_wake B i s)) = kernel.more (snd s)"
  by (cases s) (simp add: tick_wake_def Let_def)

lemma tick_fold_more: "kernel.more (snd (fold (tick_wake B) is s)) = kernel.more (snd s)"
  by (induction "is" arbitrary: s) (simp_all add: tick_wake_more)

lemma tick_charge_more: "kernel.more (snd (tick_charge B s)) = kernel.more (snd s)"
  by (cases s) (simp add: tick_charge_def Let_def)

lemma tick_more:
  "kernel.more (snd (tick_charge B (fold (tick_wake B) is (False, hrt__inc_tick k)))) = kernel.more k"
  by (simp add: tick_charge_more tick_fold_more hrt__inc_tick_def)

lemma tick_handler_frame:
  assumes "g_current (tick_sighandler (posix_build n p dbg tramp) k) = g_current k"
  shows "port_frame (tick_sighandler (posix_build n p dbg tramp) k) = port_frame k"
    "cpu (tick_sighandler (posix_build n p dbg tramp) k) = cpu k"
proof -
  let ?B = "posix_build n p dbg tramp"
  let ?s = "tick_charge ?B (fold (tick_wake ?B) [0..<n] (False, hrt__inc_tick k))"
  have eq: "tick_sighandler ?B k = (snd ?s)\<lparr>g_switch_pending := True\<rparr>"
    by (simp add: tick_sighandler_def hrt__tick_isr_def Let_def split_beta posix_pend_context_switch_def)
  note m = posix_more [OF tick_more [of ?B "[0..<n]" k]]
  show "cpu (tick_sighandler ?B k) = cpu k" by (simp add: eq m)
  show "port_frame (tick_sighandler ?B k) = port_frame k" using assms by (simp add: eq m port_frame_def)
qed

section \<open>Parking and waking\<close>

lemma tcbs_frame [simp]: "port_frame (k\<lparr>g_tcbs := ts\<rparr>) = port_frame k"
  by (simp add: port_frame_def)

lemma parked_frame [simp]:
  "port_frame (parked (posix_build n p dbg tramp) c k) = port_frame k" "cpu (parked (posix_build n p dbg tramp) c k) = cpu k"
  "g_sched_blocked (parked (posix_build n p dbg tramp) c k) = g_sched_blocked k"
  by (simp_all add: parked_def)

lemma woken_frame [simp]:
  "port_frame (woken (posix_build n p dbg tramp) w k) = port_frame k" "cpu (woken (posix_build n p dbg tramp) w k) = cpu k"
  "g_sched_blocked (woken (posix_build n p dbg tramp) w k) = g_sched_blocked k"
  by (simp_all add: woken_def)

lemma parked_left:
  assumes "runs n c k"
  shows "fst (posix_yield_to_scheduler n (parked (posix_build n p dbg tramp) c k))"
    "left k True (snd (posix_yield_to_scheduler n (parked (posix_build n p dbg tramp) c k)))"
proof -
  show h: "fst (posix_yield_to_scheduler n (parked (posix_build n p dbg tramp) c k))"
    using assms by (simp add: posix_hops runs_def parked_def)
  show "left k True (snd (posix_yield_to_scheduler n (parked (posix_build n p dbg tramp) c k)))"
    by (rule left_hop) (simp_all add: h)
qed

lemma woken_left:
  assumes "runs n c k"
  shows "left k True (snd (hrt_yield (posix_build n p dbg tramp) (woken (posix_build n p dbg tramp) w k)))"
  by (rule yield_left') (simp_all add: yield_hops [OF runs_woken [OF assms]])

end
