(* ===== verification/HRT_Rep.thy ===== *)
theory HRT_Rep
  imports HRT_Queue
begin

text \<open>
  The object representation of the elements of a message queue: the queue copies bytes, its users send and
  receive values. The contract is that reading the bytes of a value gives it back and that all values of
  a type have the same number of bytes.
\<close>

unbundle bit_operations_syntax

record 'a rep =
  to_bytes :: "'a \<Rightarrow> u8 list"
  of_bytes :: "u8 list \<Rightarrow> 'a"
  sizeof_T :: nat

locale object_rep =
  fixes R :: "'a rep"
  assumes of_to_bytes: "of_bytes R (to_bytes R x) = x"
    and length_to_bytes: "length (to_bytes R x) = sizeof_T R"
    and sizeof_pos: "0 < sizeof_T R"

definition holds :: "'a rep \<Rightarrow> hrt_queue \<Rightarrow> 'a list \<Rightarrow> bool" where
  "holds R q xs \<longleftrightarrow> queue_msgs q = map (to_bytes R) xs \<and> unat (item_size q) = sizeof_T R"

text \<open>\<open>uint32_t\<close>, least significant byte first, as both targets store it.\<close>

definition u32_rep :: "u32 rep" where
  "u32_rep = \<lparr>to_bytes = \<lambda>w. [ucast w, ucast (drop_bit 8 w), ucast (drop_bit 16 w), ucast (drop_bit 24 w)],
     of_bytes = \<lambda>bs. case bs of [a, b, c, d] \<Rightarrow>
       ucast a OR push_bit 8 (ucast b) OR push_bit 16 (ucast c) OR push_bit 24 (ucast d) | _ \<Rightarrow> 0,
     sizeof_T = 4\<rparr>"

lemma u32_bytes:
  fixes w :: u32
  shows "ucast (ucast w :: u8) OR push_bit 8 (ucast (ucast (drop_bit 8 w) :: u8)) OR
    push_bit 16 (ucast (ucast (drop_bit 16 w) :: u8)) OR push_bit 24 (ucast (ucast (drop_bit 24 w) :: u8)) = w"
proof (rule bit_word_eqI)
  fix n assume "n < LENGTH(32)"
  then show "bit (ucast (ucast w :: u8) OR push_bit 8 (ucast (ucast (drop_bit 8 w) :: u8)) OR
    push_bit 16 (ucast (ucast (drop_bit 16 w) :: u8)) OR push_bit 24 (ucast (ucast (drop_bit 24 w) :: u8)) :: u32) n = bit w n"
    by (cases "n < 8"; cases "n < 16"; cases "n < 24") (auto simp: bit_simps)
qed

interpretation u32: object_rep u32_rep
  by unfold_locales (simp_all add: u32_rep_def u32_bytes)

lemma send_sizes [simp]:
  "item_size (fst (snd (hrt_queue_try_send B q (Some x) k))) = item_size q"
  "capacity (fst (snd (hrt_queue_try_send B q (Some x) k))) = capacity q"
  "item_size (fst (snd (hrt_queue_try_recv B q (Some x) k))) = item_size q"
  "capacity (fst (snd (hrt_queue_try_recv B q (Some x) k))) = capacity q"
  by (simp_all add: hrt_queue_try_send_def hrt_queue_try_recv_def send_cs_def recv_cs_def enqueue_cs_def dequeue_cs_def
      rx_pop_def tx_pop_def Let_def split_beta)

end
