(* ===== verification/HRT_System.thy ===== *)
theory HRT_System
  imports HRT_Posix_Calls HRT_Rep "HOL-Library.Multiset"
begin

text \<open>
  A whole application on the POSIX port: tasks that run programs of kernel calls around one semaphore, one
  mutex and one queue of 32-bit values, the scheduler loop, and the tick signal, as a step relation. A
  step is a kernel call of the running task, one part of the scheduler loop, or one tick between them; a
  tick is delivered whenever the signal is not masked. The invariant of the relation is that of the
  kernel together with those of the objects, and says where each task is.

  Ticks inside a call are not steps of their own. The calls on semaphores, mutexes and queues run in
  critical sections, which mask them.
\<close>

section \<open>Programs\<close>

text \<open>The calls the examples make. The two lists of \<open>Sem_Try_Take\<close>, \<open>Mutex_Lock\<close> and \<open>Mutex_Try_Lock\<close> are what
  follows a return value of 0 and any other. Each task has one local variable, which it prints,
  increments, sends and receives. The body of a task is repeated for ever.\<close>

datatype cmd =
    Sleep u32 | Yield | Sem_Take | Sem_Give | Sem_Try_Take "cmd list" "cmd list"
  | Mutex_Lock "cmd list" "cmd list" | Mutex_Try_Lock "cmd list" "cmd list" | Mutex_Unlock
  | Queue_Send | Queue_Recv | Puts string | Printf string | Printf_Local string | Incr_Local

text \<open>What \<open>printf\<close> is given: its format and the other arguments.\<close>

datatype parg = P_Str string | P_U32 u32 | P_Int int

definition nl :: string where
  "nl = [CHR 0x0A]"

text \<open>\<open>sent\<close> and \<open>rcvd\<close> record the values that have gone into the queue and come out of it.\<close>

record world =
  knl :: posix
  the_sem :: hrt_sem
  the_mutex :: hrt_mutex
  the_queue :: hrt_queue
  conts :: "nat \<Rightarrow> cmd list"
  locals :: "nat \<Rightarrow> u32"
  outp :: "(string \<times> parg list) list"
  sent :: "u32 list"
  rcvd :: "u32 list"

definition printf :: "string \<Rightarrow> parg list \<Rightarrow> world \<Rightarrow> world" where
  "printf fmt args w = w\<lparr>outp := outp w @ [(fmt, args)]\<rparr>"

definition puts :: "string \<Rightarrow> world \<Rightarrow> world" where
  "puts s w = printf (s @ nl) [] w"

definition jump :: "nat \<Rightarrow> cmd list \<Rightarrow> world \<Rightarrow> world" where
  "jump c cs w = w\<lparr>conts := (conts w)(c := cs @ conts w c)\<rparr>"

text \<open>A blocking queue call that comes back with \<open>QRetry\<close> has left for the scheduler inside its loop: the
  task runs it again when it is resumed.\<close>

fun exec_cmd :: "posix build \<Rightarrow> nat \<Rightarrow> cmd \<Rightarrow> world \<Rightarrow> world" where
  "exec_cmd B c (Sleep ms) w = w\<lparr>knl := snd (hrt_sleep B ms (knl w))\<rparr>"
| "exec_cmd B c Yield w = w\<lparr>knl := snd (hrt_yield B (knl w))\<rparr>"
| "exec_cmd B c Sem_Take w =
     (case hrt_sem_take B (the_sem w) (knl w) of (r, s, k) \<Rightarrow> w\<lparr>the_sem := s, knl := k\<rparr>)"
| "exec_cmd B c Sem_Give w =
     (case hrt_sem_give B (the_sem w) (knl w) of (r, s, k) \<Rightarrow> w\<lparr>the_sem := s, knl := k\<rparr>)"
| "exec_cmd B c (Sem_Try_Take a b) w =
     (case hrt_sem_try_take B (the_sem w) (knl w) of
        (r, s, k) \<Rightarrow> jump c (if r = 0 then a else b) (w\<lparr>the_sem := s, knl := k\<rparr>))"
| "exec_cmd B c (Mutex_Lock a b) w =
     (case hrt_mutex_lock B (the_mutex w) (knl w) of
        (r, m, k) \<Rightarrow> jump c (if r = Ret 0 \<or> r = Hop then a else b) (w\<lparr>the_mutex := m, knl := k\<rparr>))"
| "exec_cmd B c (Mutex_Try_Lock a b) w =
     (case hrt_mutex_try_lock B (the_mutex w) (knl w) of
        (r, m, k) \<Rightarrow> jump c (if r = 0 then a else b) (w\<lparr>the_mutex := m, knl := k\<rparr>))"
| "exec_cmd B c Mutex_Unlock w =
     (case hrt_mutex_unlock B (the_mutex w) (knl w) of (r, m, k) \<Rightarrow> w\<lparr>the_mutex := m, knl := k\<rparr>)"
| "exec_cmd B c Queue_Send w =
     (case hrt_queue_send B (the_queue w) (Some (to_bytes u32_rep (locals w c))) (knl w) of
        None \<Rightarrow> w
      | Some (r, q, k) \<Rightarrow>
          let w = w\<lparr>the_queue := q, knl := k\<rparr>
          in if r = QRetry then jump c [Queue_Send] w else w\<lparr>sent := sent w @ [locals w c]\<rparr>)"
| "exec_cmd B c Queue_Recv w =
     (case hrt_queue_recv B (the_queue w) (Some (to_bytes u32_rep (locals w c))) (knl w) of
        None \<Rightarrow> w
      | Some ((r, out), q, k) \<Rightarrow>
          let w = w\<lparr>the_queue := q, knl := k, locals := (locals w)(c := of_bytes u32_rep (the out))\<rparr>
          in if r = QRetry then jump c [Queue_Recv] w else w\<lparr>rcvd := rcvd w @ [locals w c]\<rparr>)"
| "exec_cmd B c (Puts s) w = puts s w"
| "exec_cmd B c (Printf s) w = printf s [] w"
| "exec_cmd B c (Printf_Local s) w = printf s [P_U32 (locals w c)] w"
| "exec_cmd B c Incr_Local w = w\<lparr>locals := (locals w)(c := locals w c + 1)\<rparr>"

definition next_cmds :: "(nat \<Rightarrow> cmd list) \<Rightarrow> nat \<Rightarrow> world \<Rightarrow> cmd list" where
  "next_cmds bodies c w = (if conts w c = [] then bodies c else conts w c)"

inductive sys_step :: "bool \<Rightarrow> posix build \<Rightarrow> (nat \<Rightarrow> cmd list) \<Rightarrow> world \<Rightarrow> world \<Rightarrow> bool"
  for hooks :: bool and B :: "posix build" and bodies :: "nat \<Rightarrow> cmd list" where
  task_step: "cpu (knl w) = InTask c \<Longrightarrow> next_cmds bodies c w = x # r \<Longrightarrow>
    sys_step hooks B bodies w (exec_cmd B c x (w\<lparr>conts := (conts w)(c := r)\<rparr>))"
| loop_back: "cpu (knl w) = LoopBack \<Longrightarrow> sys_step hooks B bodies w (w\<lparr>knl := posix_sched_back B (knl w)\<rparr>)"
| loop_pass: "cpu (knl w) = LoopTop \<Longrightarrow> sys_step hooks B bodies w (w\<lparr>knl := posix_sched_pass hooks B (knl w)\<rparr>)"
| tick: "\<not> sig_blocked (knl w) \<Longrightarrow> sig_handler (knl w) \<Longrightarrow>
    sys_step hooks B bodies w (w\<lparr>knl := tick_sighandler B (knl w)\<rparr>)"

lemma printf_fields [simp]:
  "knl (printf f a w) = knl w" "the_sem (printf f a w) = the_sem w" "the_mutex (printf f a w) = the_mutex w"
  "the_queue (printf f a w) = the_queue w" "conts (printf f a w) = conts w" "locals (printf f a w) = locals w"
  "sent (printf f a w) = sent w" "rcvd (printf f a w) = rcvd w"
  "knl (puts s w) = knl w" "the_sem (puts s w) = the_sem w" "the_mutex (puts s w) = the_mutex w"
  "the_queue (puts s w) = the_queue w" "conts (puts s w) = conts w" "locals (puts s w) = locals w"
  "sent (puts s w) = sent w" "rcvd (puts s w) = rcvd w"
  by (simp_all add: printf_def puts_def)

inductive_cases sys_stepE: "sys_step hooks B bodies w w'"

abbreviation sys_steps where "sys_steps hooks B bodies \<equiv> (sys_step hooks B bodies)\<^sup>*\<^sup>*"

section \<open>The kernel between steps\<close>

definition task_states :: "posix \<Rightarrow> nat \<Rightarrow> hrt_state" where
  "task_states k j = state (g_tcbs k ! j)"

definition cpu_inv :: "posix build \<Rightarrow> posix \<Rightarrow> bool" where
  "cpu_inv B k =
     (case cpu k of
        InTask c \<Rightarrow> kinv B {c} k \<and> g_current k = int c \<and> c < HARDRT_MAX_TASKS B \<and> task_states k c = HRT_READY \<and>
          g_sched_blocked k
      | LoopBack \<Rightarrow> kinv B {} k \<and> sig_blocked k \<and> 0 \<le> g_current k \<and>
          (let t = g_tcbs k ! nat (g_current k) in state t = HRT_READY \<longrightarrow> slice_left t = timeslice_cfg t)
      | _ \<Rightarrow> kinv B {} k)"

definition loop_inv :: "posix build \<Rightarrow> posix \<Rightarrow> bool" where
  "loop_inv B k \<longleftrightarrow> cpu_inv B k \<and> length (g_ctxs k) = HARDRT_MAX_TASKS B \<and> g_sigalrm_set k \<and> \<not> g_fault k \<and>
     -1 \<le> g_current k \<and> g_current k < int (HARDRT_MAX_TASKS B) \<and>
     (\<forall>i < HARDRT_MAX_TASKS B. task_states k i \<noteq> HRT_UNUSED \<longrightarrow> Suc i < HARDRT_MAX_TASKS B \<and> valid (g_ctxs k ! i))"

lemma port_frameD:
  assumes "port_frame a = port_frame b"
  shows "g_current a = g_current b" "g_sched_blocked a = g_sched_blocked b" "g_sigalrm_set a = g_sigalrm_set b"
    "length (g_ctxs a) = length (g_ctxs b)" "i < length (g_ctxs b) \<Longrightarrow> valid (g_ctxs a ! i) = valid (g_ctxs b ! i)"
proof -
  have m: "map valid (g_ctxs a) = map valid (g_ctxs b)" using assms by (simp add: port_frame_def)
  show l: "length (g_ctxs a) = length (g_ctxs b)" using m by (rule map_eq_imp_length_eq)
  show "g_current a = g_current b" "g_sched_blocked a = g_sched_blocked b" "g_sigalrm_set a = g_sigalrm_set b"
    using assms by (simp_all add: port_frame_def)
  show "valid (g_ctxs a ! i) = valid (g_ctxs b ! i)" if "i < length (g_ctxs b)"
    using arg_cong [OF m, of "\<lambda>l. l ! i"] that l by simp
qed

text \<open>What a call of the running task \<open>c\<close> does to the kernel, with \<open>f\<close> the states of the tasks after it: it
  returns, or leaves for the loop with no task running.\<close>

definition call_ok :: "posix build \<Rightarrow> nat \<Rightarrow> posix \<Rightarrow> (nat \<Rightarrow> hrt_state) \<Rightarrow> bool \<Rightarrow> posix \<Rightarrow> bool" where
  "call_ok B c k f r k' \<longleftrightarrow> left k r k' \<and> g_fault k' = g_fault k \<and> task_states k' = f \<and>
     kinv B (if r then {} else {c}) k' \<and>
     (r \<longrightarrow> f c = HRT_READY \<longrightarrow> slice_left (g_tcbs k' ! c) = timeslice_cfg (g_tcbs k' ! c)) \<and> (\<not> r \<longrightarrow> f c = HRT_READY)"

lemma call_ok_inv:
  assumes "loop_inv B k" "cpu k = InTask c" "call_ok B c k f r k'"
    "\<forall>j < HARDRT_MAX_TASKS B. f j = HRT_UNUSED \<longleftrightarrow> task_states k j = HRT_UNUSED"
  shows "loop_inv B k'"
proof -
  have l: "left k r k'" using assms(3) by (simp add: call_ok_def)
  note fr = port_frameD [OF left_def [THEN iffD1, OF l, THEN conjunct1]]
  have "cpu_inv B k'"
    using assms(1-3) fr(1,2) by (cases r) (auto simp: loop_inv_def cpu_inv_def call_ok_def left_def Let_def task_states_def)
  then show ?thesis using assms fr by (auto simp: loop_inv_def call_ok_def)
qed

section \<open>The calls of a task\<close>

lemma loop_inv_task:
  assumes "loop_inv (posix_build n p dbg tramp) k" "cpu k = InTask c"
  shows "kinv (posix_build n p dbg tramp) {c} k" "g_current k = int c" "c < n" "state (g_tcbs k ! c) = HRT_READY"
    "runs n c k" "length (g_tcbs k) = n"
proof -
  have i: "kinv (posix_build n p dbg tramp) {c} k \<and> g_current k = int c \<and> c < n \<and> task_states k c = HRT_READY"
    using assms by (simp add: loop_inv_def cpu_inv_def)
  then show "kinv (posix_build n p dbg tramp) {c} k" "g_current k = int c" "c < n" "state (g_tcbs k ! c) = HRT_READY"
    by (simp_all add: task_states_def)
  show "runs n c k" using i assms by (auto simp: runs_def loop_inv_def)
  show "length (g_tcbs k) = n" using i kwf_sizes(2) [OF kinv_kwf] by fastforce
qed

lemma task_states_upd:
  assumes "g_tcbs k' = (g_tcbs k)[c := t]" "c < length (g_tcbs k)"
  shows "task_states k' = (task_states k)(c := state t)"
  using assms by (auto simp: task_states_def fun_eq_iff nth_list_update)

lemma task_states_same: "g_tcbs k' = g_tcbs k \<Longrightarrow> task_states k' = task_states k"
  by (simp add: task_states_def fun_eq_iff)

lemma task_states_wake:
  assumes "g_tcbs k' = (g_tcbs k)[w := ready_tcb (g_tcbs k ! w), c := (g_tcbs k ! c)\<lparr>slice_left := v\<rparr>]"
    "w < length (g_tcbs k)" "c < length (g_tcbs k)" "w \<noteq> c"
  shows "task_states k' = (task_states k)(w := HRT_READY)"
  using assms by (auto simp: task_states_def fun_eq_iff nth_list_update ready_tcb_def)

lemma yield_call:
  assumes "loop_inv (posix_build n p dbg tramp) k" "cpu k = InTask c"
  shows "call_ok (posix_build n p dbg tramp) c k (task_states k) True (snd (hrt_yield (posix_build n p dbg tramp) k))"
proof -
  let ?B = "posix_build n p dbg tramp"
  note t = loop_inv_task [OF assms]
  note y = posix.yield_running [of n p dbg tramp, simplified, OF t(1-4)]
  have l: "left k True (snd (hrt_yield ?B k))" using yield_left [of k n p dbg tramp] yield_hops [OF t(5)] by simp
  show ?thesis unfolding call_ok_def using l y(1,2,5) t(3,6) by (auto simp: task_states_upd [OF y(2)] task_states_def)
qed

lemma sleep_call:
  assumes "loop_inv (posix_build n p dbg tramp) k" "cpu k = InTask c"
  shows "call_ok (posix_build n p dbg tramp) c k ((task_states k)(c := HRT_SLEEP)) True
     (snd (hrt_sleep (posix_build n p dbg tramp) ms k))"
proof -
  let ?B = "posix_build n p dbg tramp"
  note t = loop_inv_task [OF assms]
  have u: "state (g_tcbs k ! c) \<noteq> HRT_UNUSED" using t(4) by simp
  note y = posix.sleep_running [of n p dbg tramp, simplified, OF t(1-3) u]
  have l: "left k True (snd (hrt_sleep ?B ms k))" using sleep_left [of k n p dbg tramp] sleep_hops [OF t(5)] by simp
  show ?thesis unfolding call_ok_def using l y(1,2,5) t(3,6) by (simp add: task_states_upd [OF y(2)])
qed

text \<open>A call that only enters and leaves critical sections.\<close>

lemma crit_quiet [simp]:
  "g_tcbs (posix_crit_enter k) = g_tcbs k" "g_tcbs (posix_crit_exit k) = g_tcbs k"
  "g_fault (posix_crit_enter k) = g_fault k" "g_fault (posix_crit_exit k) = g_fault k"
  "kinv (posix_build n p dbg tramp) R (posix_crit_enter k) = kinv (posix_build n p dbg tramp) R k"
  "kinv (posix_build n p dbg tramp) R (posix_crit_exit k) = kinv (posix_build n p dbg tramp) R k"
  using posix.hook_tcbs(4,5) [of n p dbg tramp] posix.hook_fault(3,4) [of n p dbg tramp]
    posix.hook_kinv(4,5) [of n p dbg tramp] by simp_all

lemma quiet_call:
  assumes "loop_inv (posix_build n p dbg tramp) k" "cpu k = InTask c"
    "port_frame k' = port_frame k" "cpu k' = cpu k" "g_tcbs k' = g_tcbs k" "g_fault k' = g_fault k"
    "kinv (posix_build n p dbg tramp) {c} k'"
  shows "call_ok (posix_build n p dbg tramp) c k (task_states k) False k'"
  unfolding call_ok_def using assms loop_inv_task(4) [OF assms(1,2)]
  by (simp add: left_stay task_states_same [OF assms(5)] task_states_def)

lemma wake_call:
  assumes "loop_inv (posix_build n p dbg tramp) k" "cpu k = InTask c" "w < n" "state (g_tcbs k ! w) = HRT_BLOCKED"
    "left k True k'" "g_fault k' = g_fault k" "kinv (posix_build n p dbg tramp) {} k'"
    "g_tcbs k' = (g_tcbs k)[w := ready_tcb (g_tcbs k ! w),
       c := (g_tcbs k ! c)\<lparr>slice_left := timeslice_cfg (g_tcbs k ! c)\<rparr>]"
  shows "call_ok (posix_build n p dbg tramp) c k ((task_states k)(w := HRT_READY)) True k'"
proof -
  note t = loop_inv_task [OF assms(1,2)]
  have wc: "w \<noteq> c" using assms(4) t(4) by auto
  show ?thesis unfolding call_ok_def using assms(5-8) t(3,6) assms(3) wc by (simp add: task_states_wake [OF assms(8)])
qed

section \<open>The kernel and its objects\<close>

definition waiting :: "posix build \<Rightarrow> hrt_sem \<Rightarrow> hrt_mutex \<Rightarrow> hrt_queue \<Rightarrow> nat list" where
  "waiting B s m q = sem_waiters B s @ mutex_waiters B m @ rx_waiters B q @ tx_waiters B q"

text \<open>Every blocked task waits exactly once, for exactly one object.\<close>

definition objs_inv :: "posix build \<Rightarrow> hrt_sem \<Rightarrow> hrt_mutex \<Rightarrow> hrt_queue \<Rightarrow> posix \<Rightarrow> bool" where
  "objs_inv B s m q k \<longleftrightarrow> loop_inv B k \<and> sem_wf B s k \<and> mutex_wf B m k \<and> queue_wf B q k \<and>
     distinct (waiting B s m q) \<and>
     (\<forall>j < HARDRT_MAX_TASKS B. task_states k j = HRT_BLOCKED \<longrightarrow> j \<in> set (waiting B s m q)) \<and>
     unat (item_size q) = sizeof_T u32_rep"

lemma objs_invD:
  assumes "objs_inv B s m q k"
  shows "loop_inv B k" "sem_wf B s k" "mutex_wf B m k" "queue_wf B q k" "distinct (waiting B s m q)"
    "unat (item_size q) = sizeof_T u32_rep"
  using assms by (simp_all add: objs_inv_def)

lemma waiting_blocked:
  assumes "objs_inv B s m q k" "j \<in> set (waiting B s m q)"
  shows "task_states k j = HRT_BLOCKED" "j < HARDRT_MAX_TASKS B"
proof -
  note d = objs_invD [OF assms(1)]
  consider "j \<in> set (sem_waiters B s)" | "j \<in> set (mutex_waiters B m)" | "j \<in> set (rx_waiters B q) \<union> set (tx_waiters B q)"
    using assms(2) by (auto simp: waiting_def)
  then have "task_states k j = HRT_BLOCKED \<and> j < HARDRT_MAX_TASKS B"
  proof cases
    case 1
    then show ?thesis using d(2) unfolding sem_wf_def task_states_def by blast
  next
    case 2
    then show ?thesis using d(3) unfolding mutex_wf_def mutex_ring_def task_states_def by blast
  next
    case 3
    then show ?thesis using queue_wf_waiter [OF d(4) 3] by (simp add: task_states_def)
  qed
  then show "task_states k j = HRT_BLOCKED" "j < HARDRT_MAX_TASKS B" by simp_all
qed

lemma wf_waiting:
  assumes "\<forall>i \<in> set (waiting B s m q). task_states k' i = HRT_BLOCKED"
  shows "sem_wf B s k \<Longrightarrow> sem_wf B s k'" "mutex_wf B m k \<Longrightarrow> mutex_wf B m k'" "queue_wf B q k \<Longrightarrow> queue_wf B q k'"
  using assms by (auto simp: sem_wf_def mutex_wf_def queue_wf_def waiting_def task_states_def)

text \<open>How the states of the tasks change together with the waiting lists: not at all but for a task that goes
  to sleep, by one task that starts to wait, or by one that stops waiting.\<close>

definition moved :: "nat \<Rightarrow> (nat \<Rightarrow> hrt_state) \<Rightarrow> (nat \<Rightarrow> hrt_state) \<Rightarrow> nat list \<Rightarrow> nat list \<Rightarrow> bool" where
  "moved c f f' W W' \<longleftrightarrow>
     (f' = f \<or> f' = f(c := HRT_SLEEP)) \<and> mset W' = mset W \<or>
     f' = f(c := HRT_BLOCKED) \<and> mset W' = add_mset c (mset W) \<or>
     (\<exists>w. f' = f(w := HRT_READY) \<and> mset W = add_mset w (mset W'))"

lemma moved_waiting:
  assumes "moved c f f' W W'" "distinct W" "\<forall>j \<in> set W. f j = HRT_BLOCKED" "f c = HRT_READY"
  shows "distinct W'" "\<forall>j \<in> set W'. f' j = HRT_BLOCKED" "f' j = HRT_UNUSED \<longleftrightarrow> f j = HRT_UNUSED"
    "\<forall>j. f j = HRT_BLOCKED \<longrightarrow> j < n \<longrightarrow> j \<in> set W \<Longrightarrow> \<forall>j. f' j = HRT_BLOCKED \<longrightarrow> j < n \<longrightarrow> j \<in> set W'"
proof -
  have c: "c \<notin> set W" using assms(3,4) by auto
  consider (same) "f' = f \<or> f' = f(c := HRT_SLEEP)" "mset W' = mset W"
    | (block) "f' = f(c := HRT_BLOCKED)" "mset W' = mset (c # W)"
    | (wake) w where "f' = f(w := HRT_READY)" "mset W = mset (w # W')"
    using assms(1) by (auto simp: moved_def)
  then have "distinct W' \<and> (\<forall>j \<in> set W'. f' j = HRT_BLOCKED) \<and> (f' j = HRT_UNUSED \<longleftrightarrow> f j = HRT_UNUSED) \<and>
    ((\<forall>j. f j = HRT_BLOCKED \<longrightarrow> j < n \<longrightarrow> j \<in> set W) \<longrightarrow> (\<forall>j. f' j = HRT_BLOCKED \<longrightarrow> j < n \<longrightarrow> j \<in> set W'))"
  proof cases
    case same
    then show ?thesis using assms(2,3,4) c mset_eq_setD [OF same(2)] mset_eq_imp_distinct_iff [OF same(2)]
      by (auto split: if_splits)
  next
    case block
    then show ?thesis using assms(2,3,4) c mset_eq_setD [OF block(2)] mset_eq_imp_distinct_iff [OF block(2)]
      by (auto split: if_splits)
  next
    case wake
    have d: "distinct (w # W')" "set W = insert w (set W')"
      using assms(2) mset_eq_imp_distinct_iff [OF wake(2)] mset_eq_setD [OF wake(2)] by simp_all
    then show ?thesis using assms(3,4) wake(1) by (auto split: if_splits)
  qed
  then show "distinct W'" "\<forall>j \<in> set W'. f' j = HRT_BLOCKED" "f' j = HRT_UNUSED \<longleftrightarrow> f j = HRT_UNUSED"
    "\<forall>j. f j = HRT_BLOCKED \<longrightarrow> j < n \<longrightarrow> j \<in> set W \<Longrightarrow> \<forall>j. f' j = HRT_BLOCKED \<longrightarrow> j < n \<longrightarrow> j \<in> set W'"
    by blast+
qed

lemma objs_call:
  assumes "objs_inv B s m q k" "cpu k = InTask c" "call_ok B c k f r k'"
    "moved c (task_states k) f (waiting B s m q) (waiting B s' m' q')"
    "sem_wf B s' k' \<or> s' = s" "mutex_wf B m' k' \<or> m' = m" "queue_wf B q' k' \<or> q' = q" "item_size q' = item_size q"
  shows "objs_inv B s' m' q' k'"
proof -
  note d = objs_invD [OF assms(1)]
  have c: "task_states k c = HRT_READY" using d(1) assms(2) by (simp add: loop_inv_def cpu_inv_def)
  have b: "\<forall>j \<in> set (waiting B s m q). task_states k j = HRT_BLOCKED" using waiting_blocked(1) [OF assms(1)] by blast
  note mv = moved_waiting [OF assms(4) d(5) b c]
  have f: "task_states k' = f" using assms(3) by (simp add: call_ok_def)
  have w: "\<forall>j \<in> set (waiting B s' m' q'). task_states k' j = HRT_BLOCKED" using mv(2) f by simp
  have "sem_wf B s' k'" "mutex_wf B m' k'" "queue_wf B q' k'"
    using wf_waiting [OF w] assms(5-7) d(2-4) by blast+
  moreover have "loop_inv B k'" using call_ok_inv [OF d(1) assms(2,3)] mv(3) by simp
  moreover have "\<forall>j. f j = HRT_BLOCKED \<longrightarrow> j < HARDRT_MAX_TASKS B \<longrightarrow> j \<in> set (waiting B s' m' q')"
    by (rule mv(4)) (use assms(1) in \<open>simp add: objs_inv_def\<close>)
  ultimately show ?thesis using mv(1) assms(8) d(6) f by (simp add: objs_inv_def)
qed

lemma objs_call_running:
  assumes "objs_inv B s m q k" "cpu k = InTask c" "call_ok B c k f r k'"
    "f = task_states k \<or> f = (task_states k)(c := HRT_SLEEP)"
  shows "objs_inv B s m q k'"
  using assms(4) by (intro objs_call [OF assms(1-3)]) (simp_all add: moved_def)

text \<open>The three shapes of a call on an object.\<close>

lemma objs_quiet:
  assumes "objs_inv (posix_build n p dbg tramp) s m q k" "cpu k = InTask c" "port_frame k' = port_frame k"
    "cpu k' = cpu k" "g_tcbs k' = g_tcbs k" "g_fault k' = g_fault k" "kinv (posix_build n p dbg tramp) {c} k'"
    "sem_wf (posix_build n p dbg tramp) s' k \<or> s' = s" "mutex_wf (posix_build n p dbg tramp) m' k \<or> m' = m"
    "queue_wf (posix_build n p dbg tramp) q' k \<or> q' = q" "item_size q' = item_size q"
    "waiting (posix_build n p dbg tramp) s' m' q' = waiting (posix_build n p dbg tramp) s m q"
  shows "objs_inv (posix_build n p dbg tramp) s' m' q' k'"
proof -
  let ?B = "posix_build n p dbg tramp"
  note ok = quiet_call [OF objs_invD(1) [OF assms(1)] assms(2-7)]
  have "sem_wf ?B s' k' \<or> s' = s" "mutex_wf ?B m' k' \<or> m' = m" "queue_wf ?B q' k' \<or> q' = q"
    using assms(8-10) sem_wf_tcbs [of ?B s' k k'] mutex_wf_tcbs [of ?B m' k k'] queue_wf_tcbs [of ?B q' k k'] assms(5)
    by auto
  then show ?thesis using assms(11,12) by (intro objs_call [OF assms(1,2) ok]) (simp_all add: moved_def)
qed

lemma objs_block:
  assumes "objs_inv (posix_build n p dbg tramp) s m q k" "cpu k = InTask c" "left k True k'" "g_fault k' = g_fault k"
    "kinv (posix_build n p dbg tramp) {} k'" "g_tcbs k' = (g_tcbs k)[c := (g_tcbs k ! c)\<lparr>state := HRT_BLOCKED\<rparr>]"
    "mset (waiting (posix_build n p dbg tramp) s' m' q') = add_mset c (mset (waiting (posix_build n p dbg tramp) s m q))"
    "sem_wf (posix_build n p dbg tramp) s' k' \<or> s' = s" "mutex_wf (posix_build n p dbg tramp) m' k' \<or> m' = m"
    "queue_wf (posix_build n p dbg tramp) q' k' \<or> q' = q" "item_size q' = item_size q"
  shows "objs_inv (posix_build n p dbg tramp) s' m' q' k'"
proof -
  note t = loop_inv_task [OF objs_invD(1) [OF assms(1)] assms(2)]
  have "call_ok (posix_build n p dbg tramp) c k ((task_states k)(c := HRT_BLOCKED)) True k'"
    unfolding call_ok_def using assms(3-5) task_states_upd [OF assms(6)] t(3,6) by simp
  then show ?thesis using assms(7-11) by (intro objs_call [OF assms(1,2)]) (simp_all add: moved_def)
qed

lemma objs_wake:
  assumes "objs_inv (posix_build n p dbg tramp) s m q k" "cpu k = InTask c" "left k True k'" "g_fault k' = g_fault k"
    "kinv (posix_build n p dbg tramp) {} k'"
    "g_tcbs k' = (g_tcbs k)[w := ready_tcb (g_tcbs k ! w),
       c := (g_tcbs k ! c)\<lparr>slice_left := timeslice_cfg (g_tcbs k ! c)\<rparr>]"
    "mset (waiting (posix_build n p dbg tramp) s m q) = add_mset w (mset (waiting (posix_build n p dbg tramp) s' m' q'))"
    "sem_wf (posix_build n p dbg tramp) s' k' \<or> s' = s" "mutex_wf (posix_build n p dbg tramp) m' k' \<or> m' = m"
    "queue_wf (posix_build n p dbg tramp) q' k' \<or> q' = q" "item_size q' = item_size q"
  shows "objs_inv (posix_build n p dbg tramp) s' m' q' k'"
proof -
  have "w \<in> set (waiting (posix_build n p dbg tramp) s m q)" using assms(7) by (metis set_mset_mset union_single_eq_member add_mset_add_single)
  then have w: "w < n" "state (g_tcbs k ! w) = HRT_BLOCKED"
    using waiting_blocked [OF assms(1), of w] by (simp_all add: task_states_def)
  note ok = wake_call [OF objs_invD(1) [OF assms(1)] assms(2) w assms(3-6)]
  show ?thesis by (rule objs_call [OF assms(1,2) ok]) (use assms(7-11) in \<open>auto simp: moved_def\<close>)
qed

section \<open>The calls on the objects\<close>

lemma sem_take_inv:
  assumes "objs_inv (posix_build n p dbg tramp) s m q k" "cpu k = InTask c"
    "hrt_sem_take (posix_build n p dbg tramp) s k = (r, s', k')"
  shows "objs_inv (posix_build n p dbg tramp) s' m q k'"
proof -
  let ?B = "posix_build n p dbg tramp"
  note i = objs_invD [OF assms(1)]
  note t = loop_inv_task [OF i(1) assms(2)]
  show ?thesis
  proof (cases "sem_count s = 0")
    case True
    note b = posix.sem_take_blocks [of n p dbg tramp, simplified, OF t(1-4) i(2) True, unfolded assms(3), simplified]
    have l: "left k True k'"
      using sem_take_left [of k n p dbg tramp s] sem_take_hops [OF t(5) True, of p dbg tramp] by (simp add: assms(3))
    show ?thesis
      by (rule objs_block [OF assms(1,2) l b(7,3,4)]) (use b(1,2) in \<open>simp_all add: sem_abs_def waiting_def\<close>)
  next
    case False
    have eq: "s' = s\<lparr>sem_count := sem_count s - 1\<rparr>" "k' = posix_crit_exit (posix_crit_enter k)"
      using posix.sem_take_token [of s n p dbg tramp k, OF False] assms(3) by simp_all
    show ?thesis
      by (rule objs_quiet [OF assms(1,2)]) (use t(1) sem_wf_spend [OF i(2) False] in \<open>simp_all add: eq waiting_def\<close>)
  qed
qed

lemma sem_try_take_inv:
  assumes "objs_inv (posix_build n p dbg tramp) s m q k" "cpu k = InTask c"
    "hrt_sem_try_take (posix_build n p dbg tramp) s k = (r, s', k')"
  shows "objs_inv (posix_build n p dbg tramp) s' m q k'"
proof -
  note i = objs_invD [OF assms(1)]
  have eq: "k' = posix_crit_exit (posix_crit_enter k)" "s' = (if sem_count s \<noteq> 0 then s\<lparr>sem_count := sem_count s - 1\<rparr> else s)"
    using posix.sem_try_take_cases [of n p dbg tramp s k] assms(3) by (auto split: if_splits)
  show ?thesis
    by (rule objs_quiet [OF assms(1,2)])
      (use loop_inv_task(1) [OF i(1) assms(2)] sem_wf_spend [OF i(2)] in \<open>simp_all add: eq waiting_def\<close>)
qed

lemma sem_give_inv:
  assumes "objs_inv (posix_build n p dbg tramp) s m q k" "cpu k = InTask c"
    "hrt_sem_give (posix_build n p dbg tramp) s k = (r, s', k')"
  shows "objs_inv (posix_build n p dbg tramp) s' m q k'"
proof -
  let ?B = "posix_build n p dbg tramp"
  note i = objs_invD [OF assms(1)]
  note t = loop_inv_task [OF i(1) assms(2)]
  show ?thesis
  proof (cases "sem_waiters ?B s")
    case (Cons w ws)
    note g = posix.sem_give_wakes [of n p dbg tramp, simplified, OF t(1-4) i(2) Cons, unfolded assms(3), simplified]
    have l: "left k True k'" using sem_give_left [of k n p dbg tramp s] g(7) yield_hops [OF runs_woken [OF t(5)]]
      by (simp add: assms(3))
    show ?thesis
      by (rule objs_wake [OF assms(1,2) l g(6,3,8)]) (use g(1,2) Cons in \<open>simp_all add: sem_abs_def waiting_def\<close>)
  next
    case Nil
    obtain s1 where s1: "hrt_sem_give ?B s k = (Ret 0, s1, posix_crit_exit (posix_crit_enter k))"
      "sem_waiters ?B s1 = []" "sem_wf ?B s1 k"
      using posix.sem_give_banks [of n p dbg tramp s k, OF i(2) Nil] by (auto simp: sem_abs_def)
    then have eq: "s' = s1" "k' = posix_crit_exit (posix_crit_enter k)" using assms(3) by simp_all
    show ?thesis
      by (rule objs_quiet [OF assms(1,2)]) (use t(1) s1(2,3) Nil in \<open>simp_all add: eq waiting_def\<close>)
  qed
qed

lemma mutex_free_waiters: "mutex_wf B m k \<Longrightarrow> locked m = 0 \<Longrightarrow> mutex_waiters B m = []"
  by (simp add: mutex_wf_def)

lemma mutex_own_waiters [simp]:
  "mutex_waiters B (m\<lparr>locked := l, owner := x\<rparr>) = mutex_waiters B m"
  by (simp add: mutex_waiters_def)

lemma mutex_try_lock_inv:
  assumes "objs_inv (posix_build n p dbg tramp) s m q k" "cpu k = InTask c"
    "hrt_mutex_try_lock (posix_build n p dbg tramp) m k = (r, m', k')"
  shows "objs_inv (posix_build n p dbg tramp) s m' q k'"
proof -
  note i = objs_invD [OF assms(1)]
  note t = loop_inv_task [OF i(1) assms(2)]
  note Q = objs_quiet [OF assms(1,2), of k' s m' q]
  consider "locked m = 0" | "locked m \<noteq> 0" "sint (owner m) = int c" | "locked m \<noteq> 0" "sint (owner m) \<noteq> int c" by blast
  then show ?thesis
  proof cases
    case 1
    then show ?thesis
      using posix.mutex_lock_free(2) [of m k c n p dbg tramp] assms(3) t(1-3) mutex_wf_own [OF i(3), of c]
        mutex_free_waiters [OF i(3)] by (intro Q) (auto simp: waiting_def)
  next
    case 2
    then show ?thesis
      using posix.mutex_lock_recursive(2) [of m k c n p dbg tramp] assms(3) t(1-3) i(3) by (intro Q) auto
  next
    case 3
    then show ?thesis
      using posix.mutex_try_lock_busy [of m k c n p dbg tramp] assms(3) t(1-3) i(3) by (intro Q) auto
  qed
qed

lemma mutex_lock_inv:
  assumes "objs_inv (posix_build n p dbg tramp) s m q k" "cpu k = InTask c"
    "hrt_mutex_lock (posix_build n p dbg tramp) m k = (r, m', k')"
  shows "objs_inv (posix_build n p dbg tramp) s m' q k'"
proof -
  let ?B = "posix_build n p dbg tramp"
  note i = objs_invD [OF assms(1)]
  note t = loop_inv_task [OF i(1) assms(2)]
  note Q = objs_quiet [OF assms(1,2), of k' s m' q]
  consider "locked m = 0" | "locked m \<noteq> 0" "sint (owner m) = int c" | "locked m \<noteq> 0" "sint (owner m) \<noteq> int c" by blast
  then show ?thesis
  proof cases
    case 1
    then show ?thesis
      using posix.mutex_lock_free(1) [of m k c n p dbg tramp] assms(3) t(1-3) mutex_wf_own [OF i(3), of c]
        mutex_free_waiters [OF i(3)] by (intro Q) (auto simp: waiting_def)
  next
    case 2
    then show ?thesis
      using posix.mutex_lock_recursive(1) [of m k c n p dbg tramp] assms(3) t(1-3) i(3) by (intro Q) auto
  next
    case 3
    let ?k = "posix_crit_exit (posix_crit_enter k)"
    have eq: "mutex_lock_slow ?B (int c) m ?k = (r, m', k')"
      using posix.mutex_lock_busy [of m k c n p dbg tramp] 3 t(2,3) assms(3) by simp
    have wf: "mutex_wf ?B m ?k" using i(3) by (rule mutex_wf_tcbs) simp
    note b = posix.mutex_slow_blocks [of n p dbg tramp c ?k m, simplified, OF t(1,3,4) wf 3, unfolded eq, simplified]
    have l: "left k True k'"
      using mutex_lock_left [of k n p dbg tramp m] mutex_lock_hops [OF t(5) 3, of p dbg tramp] by (simp add: assms(3))
    show ?thesis
      by (rule objs_block [OF assms(1,2) l b(7,3,4)]) (use b(1,2) in \<open>simp_all add: mutex_abs_def waiting_def\<close>)
  qed
qed

lemma mutex_unlock_inv:
  assumes "objs_inv (posix_build n p dbg tramp) s m q k" "cpu k = InTask c"
    "hrt_mutex_unlock (posix_build n p dbg tramp) m k = (r, m', k')"
  shows "objs_inv (posix_build n p dbg tramp) s m' q k'"
proof -
  let ?B = "posix_build n p dbg tramp"
  note i = objs_invD [OF assms(1)]
  note t = loop_inv_task [OF i(1) assms(2)]
  note Q = objs_quiet [OF assms(1,2), of k' s m' q]
  consider "mutex_owner m \<noteq> Some c" | "mutex_owner m = Some c" "mutex_waiters ?B m = []"
    | w ws where "mutex_owner m = Some c" "mutex_waiters ?B m = w # ws" by (cases "mutex_waiters ?B m") auto
  then show ?thesis
  proof cases
    case 1
    then show ?thesis
      using posix.mutex_unlock_refused [of k c n p dbg tramp m] assms(3) t(1-3) i(3) by (intro Q) auto
  next
    case 2
    then show ?thesis
      using posix.mutex_unlock_free [of k c n p dbg tramp m] assms(3) t(1-3) i(3) mutex_wf_release [OF i(3)]
      by (intro Q) (auto simp: waiting_def)
  next
    case 3
    note g = posix.mutex_unlock_handoff [of n p dbg tramp, simplified, OF t(1-4) i(3) 3, unfolded assms(3), simplified]
    have l: "left k True k'" using mutex_unlock_left [of k n p dbg tramp m] g(8) yield_hops [OF runs_woken [OF t(5)]]
      by (simp add: assms(3))
    show ?thesis
      by (rule objs_wake [OF assms(1,2) l g(7,3,9)]) (use g(1,2) 3 in \<open>simp_all add: mutex_abs_def waiting_def\<close>)
  qed
qed

lemma queue_slow_left:
  "\<not> q_count q < capacity q \<Longrightarrow>
     left k (snd (fst (queue_send_slow (posix_build n p dbg tramp) q x k)))
       (snd (snd (queue_send_slow (posix_build n p dbg tramp) q x k)))"
  "q_count q = 0 \<Longrightarrow>
     left k (fst (snd (fst (queue_recv_slow (posix_build n p dbg tramp) q x k))))
       (snd (snd (queue_recv_slow (posix_build n p dbg tramp) q x k)))"
  by (simp_all add: queue_send_slow_def queue_recv_slow_def Let_def split_beta left_hop)

lemma queue_slow_sizes:
  "\<not> q_count q < capacity q \<Longrightarrow> item_size (fst (snd (queue_send_slow B q x k))) = item_size q"
  "q_count q = 0 \<Longrightarrow> item_size (fst (snd (queue_recv_slow B q x k))) = item_size q"
  by (simp_all add: queue_send_slow_def queue_recv_slow_def tx_push_def rx_push_def Let_def split_beta)

text \<open>A queue call either finishes at once, or the task waits and the queue stays as it is.\<close>

lemma queue_send_now:
  fixes v :: u32
  assumes "objs_inv (posix_build n p dbg tramp) s m q k" "cpu k = InTask c" "length (queue_msgs q) < unat (capacity q)"
  obtains r q' k' where
    "hrt_queue_send (posix_build n p dbg tramp) q (Some (to_bytes u32_rep v)) k = Some (r, q', k')" "r \<noteq> QRetry"
    "objs_inv (posix_build n p dbg tramp) s m q' k'" "queue_msgs q' = queue_msgs q @ [to_bytes u32_rep v]"
proof -
  let ?B = "posix_build n p dbg tramp" and ?x = "to_bytes u32_rep v"
  note i = objs_invD [OF assms(1)]
  note t = loop_inv_task [OF i(1) assms(2)]
  have len: "length ?x = unat (item_size q)" using u32.length_to_bytes i(6) by simp
  obtain r q' k' where eq: "hrt_queue_try_send ?B q (Some ?x) k = (r, q', k')" by (metis prod.exhaust)
  have snd': "hrt_queue_send ?B q (Some ?x) k = Some (r, q', k')"
    using posix.queue_send_room [of n p dbg tramp, simplified, OF t(1-4) i(4) len assms(3)] eq by simp
  note f = posix.try_send_refines [of n p dbg tramp, simplified, OF t(1-4) i(4) len, unfolded eq, simplified]
  have a: "spec_send (unat (capacity q)) ?x (queue_abs ?B q) =
      (True, oldest (rx_waiters ?B q), queue_msgs q @ [?x], tl (rx_waiters ?B q), tx_waiters ?B q)"
    using assms(3) by (simp add: spec_send_def queue_abs_def)
  have q': "queue_msgs q' = queue_msgs q @ [?x]" "rx_waiters ?B q' = tl (rx_waiters ?B q)" "tx_waiters ?B q' = tx_waiters ?B q"
    "queue_wf ?B q' k'" "item_size q' = item_size q"
    using f(2,3) a send_sizes(1) [of ?B q ?x k] by (simp_all add: queue_abs_def eq)
  have "objs_inv ?B s m q' k' \<and> r \<noteq> QRetry"
  proof (cases "rx_waiters ?B q")
    case Nil
    have k': "k' = posix_crit_exit (posix_crit_enter k)" "r = QRet 0" using f(8) a Nil by (simp_all add: oldest_def)
    have "queue_wf ?B q' k" using q'(4) by (rule queue_wf_tcbs) (simp add: k')
    then have "objs_inv ?B s m q' k'"
      by (intro objs_quiet [OF assms(1,2)]) (use t(1) q' Nil in \<open>simp_all add: k' waiting_def\<close>)
    then show ?thesis using k' by simp
  next
    case (Cons w ws)
    have k': "k' = snd (hrt_yield ?B (woken ?B w k))" "r \<noteq> QRetry" using f(9) [of w] a Cons by (simp_all add: oldest_def)
    have w: "w < n" "state (g_tcbs k ! w) = HRT_BLOCKED" using f(7) a Cons by (simp_all add: oldest_def)
    note y = posix.wake_yield [of n p dbg tramp, simplified, OF t(1-4) w, folded k'(1)]
    have "objs_inv ?B s m q' k'"
      by (rule objs_wake [OF assms(1,2) woken_left [OF t(5), of p dbg tramp w, folded k'(1)] y(5,1,2)])
        (use q' Cons in \<open>simp_all add: waiting_def\<close>)
    then show ?thesis using k' by simp
  qed
  then show thesis using that [OF snd'] q'(1) by simp
qed

lemma queue_send_waits:
  fixes v :: u32
  assumes "objs_inv (posix_build n p dbg tramp) s m q k" "cpu k = InTask c" "length (queue_msgs q) = unat (capacity q)"
  obtains q' k' where
    "hrt_queue_send (posix_build n p dbg tramp) q (Some (to_bytes u32_rep v)) k = Some (QRetry, q', k')"
    "objs_inv (posix_build n p dbg tramp) s m q' k'" "queue_msgs q' = queue_msgs q"
proof -
  let ?B = "posix_build n p dbg tramp" and ?x = "to_bytes u32_rep v" and ?k = "posix_crit_exit (posix_crit_enter k)"
  note i = objs_invD [OF assms(1)]
  note t = loop_inv_task [OF i(1) assms(2)]
  have len: "length ?x = unat (item_size q)" using u32.length_to_bytes i(6) by simp
  have full: "\<not> q_count q < capacity q" using assms(3) by (simp add: length_queue_msgs word_less_nat_alt)
  have ki: "kinv ?B {c} ?k" "g_current ?k = int c" "state (g_tcbs ?k ! c) = HRT_READY" using t by simp_all
  have wf: "queue_wf ?B q ?k" using i(4) by (rule queue_wf_tcbs) simp
  have runs: "runs n c ?k" using t(5) by (simp add: runs_def)
  note park = parked_left(1) [OF runs, of p dbg tramp]
  obtain q' k' where eq: "snd (queue_send_slow ?B q ?x ?k) = (q', k')" by (metis prod.exhaust)
  have snd': "hrt_queue_send ?B q (Some ?x) k = Some (QRetry, q', k')"
    using posix.queue_send_full [of n p dbg tramp, simplified, OF t(1-4) i(4) len assms(3) park] eq by simp
  note f = posix.send_slow_parks [of n p dbg tramp, simplified, OF ki(1,2) t(3) ki(3) wf assms(3), of ?x, unfolded eq, simplified]
  have hop: "snd (fst (queue_send_slow ?B q ?x ?k))" using f(1) park by simp
  have l: "left k True k'"
    by (rule left_trans [of ?k]) (use queue_slow_left(1) [OF full, of ?k n p dbg tramp ?x] hop in \<open>simp_all add: eq\<close>)
  have "objs_inv ?B s m q' k'"
    by (rule objs_block [OF assms(1,2) l f(8,4,5)])
      (use f(2,3) queue_slow_sizes(1) [OF full, of ?B ?x ?k] in \<open>simp_all add: queue_abs_def waiting_def eq\<close>)
  then show thesis using that [OF snd'] f(2) by (simp add: queue_abs_def)
qed

lemma queue_recv_now:
  fixes y :: u32
  assumes "objs_inv (posix_build n p dbg tramp) s m q k" "cpu k = InTask c" "queue_msgs q = b # bs"
  obtains r q' k' where
    "hrt_queue_recv (posix_build n p dbg tramp) q (Some (to_bytes u32_rep y)) k = Some ((r, Some b), q', k')" "r \<noteq> QRetry"
    "objs_inv (posix_build n p dbg tramp) s m q' k'" "queue_msgs q' = bs"
proof -
  let ?B = "posix_build n p dbg tramp" and ?x = "to_bytes u32_rep y"
  note i = objs_invD [OF assms(1)]
  note t = loop_inv_task [OF i(1) assms(2)]
  have len: "length ?x = unat (item_size q)" using u32.length_to_bytes i(6) by simp
  obtain r out q' k' where eq: "hrt_queue_try_recv ?B q (Some ?x) k = ((r, out), q', k')" by (metis prod.exhaust)
  have ne: "queue_msgs q \<noteq> []" using assms(3) by simp
  note f = posix.try_recv_refines [of n p dbg tramp, simplified, OF t(1-4) i(4) len, unfolded eq, simplified]
  have a: "spec_recv (queue_abs ?B q) = (Some b, oldest (tx_waiters ?B q), bs, rx_waiters ?B q, tl (tx_waiters ?B q))"
    using assms(3) by (simp add: spec_recv_def queue_abs_def)
  have snd': "hrt_queue_recv ?B q (Some ?x) k = Some ((r, Some b), q', k')"
    using posix.queue_recv_ready [of n p dbg tramp, simplified, OF t(1-4) i(4) len ne] eq f(2) a by simp
  have q': "queue_msgs q' = bs" "rx_waiters ?B q' = rx_waiters ?B q" "tx_waiters ?B q' = tl (tx_waiters ?B q)"
    "queue_wf ?B q' k'" "item_size q' = item_size q"
    using f(3,4) a send_sizes(3) [of ?B q ?x k] by (simp_all add: queue_abs_def eq)
  have "objs_inv ?B s m q' k' \<and> r \<noteq> QRetry"
  proof (cases "tx_waiters ?B q")
    case Nil
    have k': "k' = posix_crit_exit (posix_crit_enter k)" "r = QRet 0" using f(9) a Nil by (simp_all add: oldest_def)
    have "queue_wf ?B q' k" using q'(4) by (rule queue_wf_tcbs) (simp add: k')
    then have "objs_inv ?B s m q' k'"
      by (intro objs_quiet [OF assms(1,2)]) (use t(1) q' Nil in \<open>simp_all add: k' waiting_def\<close>)
    then show ?thesis using k' by simp
  next
    case (Cons w ws)
    have k': "k' = snd (hrt_yield ?B (woken ?B w k))" "r \<noteq> QRetry" using f(10) [of w] a Cons by (simp_all add: oldest_def)
    have w: "w < n" "state (g_tcbs k ! w) = HRT_BLOCKED" using f(8) a Cons by (simp_all add: oldest_def)
    note y = posix.wake_yield [of n p dbg tramp, simplified, OF t(1-4) w, folded k'(1)]
    have "objs_inv ?B s m q' k'"
      by (rule objs_wake [OF assms(1,2) woken_left [OF t(5), of p dbg tramp w, folded k'(1)] y(5,1,2)])
        (use q' Cons in \<open>simp_all add: waiting_def\<close>)
    then show ?thesis using k' by simp
  qed
  then show thesis using that [OF snd'] q'(1) by simp
qed

lemma queue_recv_waits:
  fixes y :: u32
  assumes "objs_inv (posix_build n p dbg tramp) s m q k" "cpu k = InTask c" "queue_msgs q = []"
  obtains q' k' where
    "hrt_queue_recv (posix_build n p dbg tramp) q (Some (to_bytes u32_rep y)) k = Some ((QRetry, Some (to_bytes u32_rep y)), q', k')"
    "objs_inv (posix_build n p dbg tramp) s m q' k'" "queue_msgs q' = queue_msgs q"
proof -
  let ?B = "posix_build n p dbg tramp" and ?x = "to_bytes u32_rep y" and ?k = "posix_crit_exit (posix_crit_enter k)"
  note i = objs_invD [OF assms(1)]
  note t = loop_inv_task [OF i(1) assms(2)]
  have len: "length ?x = unat (item_size q)" using u32.length_to_bytes i(6) by simp
  have full: "q_count q = 0" using assms(3) by (simp add: queue_msgs_Nil_iff)
  have ki: "kinv ?B {c} ?k" "g_current ?k = int c" "state (g_tcbs ?k ! c) = HRT_READY" using t by simp_all
  have wf: "queue_wf ?B q ?k" using i(4) by (rule queue_wf_tcbs) simp
  have runs: "runs n c ?k" using t(5) by (simp add: runs_def)
  note park = parked_left(1) [OF runs, of p dbg tramp]
  obtain q' k' where eq: "snd (queue_recv_slow ?B q ?x ?k) = (q', k')" by (metis prod.exhaust)
  have snd': "hrt_queue_recv ?B q (Some ?x) k = Some ((QRetry, Some ?x), q', k')"
    using posix.queue_recv_empty [of n p dbg tramp, simplified, OF t(1-4) i(4) assms(3) park] eq by simp
  note f = posix.recv_slow_parks [of n p dbg tramp, simplified, OF ki(1,2) t(3) ki(3) wf assms(3), of ?x, unfolded eq, simplified]
  have hop: "fst (snd (fst (queue_recv_slow ?B q ?x ?k)))" using f(1) park by simp
  have l: "left k True k'"
    by (rule left_trans [of ?k]) (use queue_slow_left(2) [OF full, of ?k n p dbg tramp ?x] hop in \<open>simp_all add: eq\<close>)
  have "objs_inv ?B s m q' k'"
    by (rule objs_block [OF assms(1,2) l f(8,4,5)])
      (use f(2,3) queue_slow_sizes(2) [OF full, of ?B ?x ?k] in \<open>simp_all add: queue_abs_def waiting_def eq\<close>)
  then show thesis using that [OF snd'] f(2) by (simp add: queue_abs_def)
qed

section \<open>The loop and the tick\<close>

lemma objs_step:
  assumes "objs_inv B s m q k" "loop_inv B k'" "\<forall>j. task_states k' j = HRT_BLOCKED \<longleftrightarrow> task_states k j = HRT_BLOCKED"
  shows "objs_inv B s m q k'"
proof -
  have "\<forall>i \<in> set (waiting B s m q). task_states k' i = HRT_BLOCKED" using waiting_blocked(1) [OF assms(1)] assms(3) by simp
  then show ?thesis using assms wf_waiting [of B s m q k' k] by (auto simp: objs_inv_def)
qed

lemma loop_inv_back:
  assumes "loop_inv B k" "cpu k = LoopBack"
  shows "loop_inv B (posix_sched_back B k)" "task_states (posix_sched_back B k) = task_states k"
proof -
  have i: "kinv B {} k" "0 \<le> g_current k" "g_current k < int (HARDRT_MAX_TASKS B)"
    "state (g_tcbs k ! nat (g_current k)) = HRT_READY \<Longrightarrow>
       slice_left (g_tcbs k ! nat (g_current k)) = timeslice_cfg (g_tcbs k ! nat (g_current k))"
    using assms by (auto simp: loop_inv_def cpu_inv_def Let_def)
  have eq: "posix_sched_back B k = k\<lparr>sig_blocked := g_sched_old k, cpu := LoopTop\<rparr>"
    by (rule sched_back_quiet [of B k "nat (g_current k)"]) (use i in auto)
  show "task_states (posix_sched_back B k) = task_states k" by (simp add: eq task_states_def fun_eq_iff)
  then show "loop_inv B (posix_sched_back B k)"
    using assms i(1) by (auto simp: loop_inv_def cpu_inv_def eq task_states_def)
qed

lemma spec_pick_in: "spec_pick qs = (Some i, qs') \<Longrightarrow> \<exists>q \<in> set qs. i \<in> set q"
proof (induction qs arbitrary: qs')
  case (Cons q qs)
  then show ?case by (cases q) (auto split: prod.splits)
qed simp

lemma spec_pick_ready:
  assumes "kwf B k" "spec_pick (abs_rq B k) = (Some i, qs)"
  shows "state (g_tcbs k ! i) = HRT_READY" "i < HARDRT_MAX_TASKS B"
  using spec_pick_in [OF assms(2)] assms(1) by (auto simp: abs_rq_def kwf_def)

lemma loop_inv_idle:
  assumes "loop_inv B k" "cpu k = LoopTop" "g_tcbs k' = g_tcbs k" "kinv B {} k'" "g_ctxs k' = g_ctxs k"
    "g_sigalrm_set k' = g_sigalrm_set k" "g_fault k' = g_fault k" "g_current k' = g_current k" "cpu k' \<in> {LoopTop, InMain}"
  shows "loop_inv B k'" "task_states k' = task_states k"
proof -
  show "task_states k' = task_states k" by (rule task_states_same [OF assms(3)])
  then show "loop_inv B k'" using assms by (auto simp: loop_inv_def cpu_inv_def)
qed

lemma loop_inv_pass:
  assumes "loop_inv B k" "cpu k = LoopTop"
  shows "loop_inv B (posix_sched_pass hooks B k)" "task_states (posix_sched_pass hooks B k) = task_states k"
proof -
  let ?k' = "posix_sched_pass hooks B k"
  have inv: "kinv B {} k" using assms by (simp add: loop_inv_def cpu_inv_def)
  consider (stop) "hooks" "g_test_stop k" | (quiet) "\<not> (hooks \<and> g_test_stop k)" "\<not> g_switch_pending k"
    | (idle) "\<not> (hooks \<and> g_test_stop k)" "g_switch_pending k" "fst (spec_pick (abs_rq B k)) = None"
    | (switch) i qs where "\<not> (hooks \<and> g_test_stop k)" "g_switch_pending k" "spec_pick (abs_rq B k) = (Some i, qs)"
    by (metis not_None_eq surj_pair fst_conv)
  then have "loop_inv B ?k' \<and> task_states ?k' = task_states k"
  proof cases
    case stop
    then show ?thesis using loop_inv_idle [OF assms, of ?k'] inv sched_pass_stop [of hooks k B] by simp
  next
    case quiet
    then show ?thesis
      using loop_inv_idle [OF assms, of ?k'] inv assms(2) sched_pass_quiet [of hooks k B] by (simp add: posix_idle_wait_def)
  next
    case idle
    then show ?thesis
      using loop_inv_idle [OF assms, of ?k'] inv assms(2) sched_pass_idle [of hooks k B, OF idle(1,2) inv idle(3)]
      by (simp add: posix_idle_wait_def)
  next
    case switch
    have r: "state (g_tcbs k ! i) = HRT_READY" "i < HARDRT_MAX_TASKS B"
      using spec_pick_ready [OF kinv_kwf [OF inv] switch(3)] .
    have v: "Suc i < HARDRT_MAX_TASKS B" using assms(1) r by (auto simp: loop_inv_def task_states_def)
    have id: "int i \<noteq> HRT_IDLE_ID B" using v by (simp add: HRT_IDLE_ID_def)
    note sw = sched_pass_switch [OF switch(1,2) inv switch(3) id]
    have st: "task_states ?k' = task_states k" by (rule task_states_same [OF sw(8)])
    show ?thesis
      using st sw assms r by (simp add: loop_inv_def cpu_inv_def task_states_def)
  qed
  then show "loop_inv B ?k'" "task_states ?k' = task_states k" by simp_all
qed

lemma charged_state [simp]: "state (charged_tcb pol t) = state t"
  by (simp add: charged_tcb_def)

lemma tick_effect:
  assumes "kinv (posix_build n p dbg tramp) R k" "g_current k < int n" "R \<subseteq> {i. task_states k i = HRT_READY}"
  defines "k' \<equiv> tick_sighandler (posix_build n p dbg tramp) k"
  shows "kinv (posix_build n p dbg tramp) R k'"
    "task_states k' j = (if j < n \<and> due k (g_tick k + 1) j then HRT_READY else task_states k j)"
    "g_current k' = g_current k" "g_fault k' = g_fault k"
proof -
  let ?B = "posix_build n p dbg tramp"
  define D where "D = {i. i < n \<and> due k (g_tick k + 1) i}"
  have R: "R - D = R" using assms(3) by (auto simp: D_def due_def task_states_def)
  have eq: "k' = (hrt__tick_isr ?B k)\<lparr>g_switch_pending := True\<rparr>" by (simp add: k'_def tick_sighandler_def)
  have "kinv ?B R (hrt__tick_isr ?B k) \<and> g_current (hrt__tick_isr ?B k) = g_current k \<and>
      g_fault (hrt__tick_isr ?B k) = g_fault k \<and>
      state (g_tcbs (hrt__tick_isr ?B k) ! j) = (if j \<in> D then HRT_READY else state (g_tcbs k ! j))"
  proof (cases "g_current k < 0")
    case True
    note b = posix.tick_isr_boot [of n p dbg tramp R k, simplified, OF assms(1) True, folded D_def]
    show ?thesis using b(1,3,5) b(2) [of j] R by (simp add: ready_tcb_def D_def)
  next
    case False
    then have c: "g_current k = int (nat (g_current k))" "nat (g_current k) < n" using assms(2) by auto
    note b = posix.tick_isr_effect [of n p dbg tramp R k, simplified, OF assms(1) c, folded D_def]
    show ?thesis using b(1,5,7) b(4) [of j] R by (simp add: ready_tcb_def Let_def D_def)
  qed
  then show "kinv ?B R k'" "g_current k' = g_current k" "g_fault k' = g_fault k"
    "task_states k' j = (if j < n \<and> due k (g_tick k + 1) j then HRT_READY else task_states k j)"
    by (simp_all add: eq task_states_def D_def)
qed

lemma loop_inv_tick:
  assumes "loop_inv (posix_build n p dbg tramp) k" "\<not> sig_blocked k"
  defines "k' \<equiv> tick_sighandler (posix_build n p dbg tramp) k"
  shows "loop_inv (posix_build n p dbg tramp) k'" "task_states k' j = HRT_BLOCKED \<longleftrightarrow> task_states k j = HRT_BLOCKED"
proof -
  let ?B = "posix_build n p dbg tramp"
  let ?R = "case cpu k of InTask c \<Rightarrow> {c} | _ \<Rightarrow> {}"
  have R: "kinv ?B ?R k" "?R \<subseteq> {i. task_states k i = HRT_READY}" "g_current k < int n"
    using assms(1) by (auto simp: loop_inv_def cpu_inv_def split: where_cpu.splits)
  note t = tick_effect [OF R(1,3,2), folded k'_def]
  note f = tick_handler_frame [OF t(3) [unfolded k'_def], folded k'_def]
  have st: "task_states k' j = HRT_READY" if "task_states k j = HRT_READY" for j using t(2) [of j] that by simp
  have un: "task_states k' j = HRT_UNUSED \<longleftrightarrow> task_states k j = HRT_UNUSED" for j
    using t(2) [of j] by (auto simp: due_def task_states_def)
  have "cpu_inv ?B k'"
    using assms(1,2) t(1,3) st f(2) port_frameD(2) [OF f(1)]
    by (auto simp: loop_inv_def cpu_inv_def Let_def split: where_cpu.splits)
  then show "loop_inv ?B k'"
    using assms(1) t(3,4) un port_frameD(3-5) [OF f(1)] by (auto simp: loop_inv_def)
  show "task_states k' j = HRT_BLOCKED \<longleftrightarrow> task_states k j = HRT_BLOCKED"
    using t(2) [of j] by (auto simp: due_def task_states_def)
qed

section \<open>The whole system\<close>

text \<open>What has been received and what is still in the buffer are together what was sent, in that order.\<close>

definition queue_hist :: "world \<Rightarrow> bool" where
  "queue_hist w \<longleftrightarrow> map (to_bytes u32_rep) (sent w) = map (to_bytes u32_rep) (rcvd w) @ queue_msgs (the_queue w)"

definition sys_inv :: "posix build \<Rightarrow> world \<Rightarrow> bool" where
  "sys_inv B w \<longleftrightarrow> objs_inv B (the_sem w) (the_mutex w) (the_queue w) (knl w) \<and> queue_hist w"

lemma u32_bytes_inj: "to_bytes u32_rep x = to_bytes u32_rep y \<longleftrightarrow> x = y"
  by (metis u32.of_to_bytes)

lemma map_bytes_append:
  assumes "map (to_bytes u32_rep) xs = map (to_bytes u32_rep) ys @ bs"
  shows "\<exists>zs. xs = ys @ zs \<and> bs = map (to_bytes u32_rep) zs"
  using assms
proof (induction ys arbitrary: xs)
  case (Cons y ys)
  then obtain x xs' where "xs = x # xs'" by (cases xs) auto
  then show ?case using Cons by (auto simp: u32_bytes_inj)
qed auto

lemma exec_send_inv:
  assumes "sys_inv (posix_build n p dbg tramp) w" "cpu (knl w) = InTask c"
  shows "sys_inv (posix_build n p dbg tramp) (exec_cmd (posix_build n p dbg tramp) c Queue_Send w)"
proof -
  let ?B = "posix_build n p dbg tramp"
  have i: "objs_inv ?B (the_sem w) (the_mutex w) (the_queue w) (knl w)" using assms(1) by (simp add: sys_inv_def)
  have le: "length (queue_msgs (the_queue w)) \<le> unat (capacity (the_queue w))"
    using msg_ring_facts(4) [OF queue_wf_rings(1) [OF objs_invD(4) [OF i]]] by (simp add: length_queue_msgs)
  show ?thesis
  proof (cases "length (queue_msgs (the_queue w)) < unat (capacity (the_queue w))")
    case True
    then show ?thesis
      by (rule queue_send_now [OF i assms(2), of "locals w c"]) (use assms(1) in \<open>simp add: sys_inv_def queue_hist_def Let_def\<close>)
  next
    case False
    then have "length (queue_msgs (the_queue w)) = unat (capacity (the_queue w))" using le by simp
    then show ?thesis
      by (rule queue_send_waits [OF i assms(2), of "locals w c"])
        (use assms(1) in \<open>simp add: sys_inv_def queue_hist_def Let_def jump_def\<close>)
  qed
qed

lemma exec_recv_inv:
  assumes "sys_inv (posix_build n p dbg tramp) w" "cpu (knl w) = InTask c"
  shows "sys_inv (posix_build n p dbg tramp) (exec_cmd (posix_build n p dbg tramp) c Queue_Recv w)"
proof -
  let ?B = "posix_build n p dbg tramp"
  have i: "objs_inv ?B (the_sem w) (the_mutex w) (the_queue w) (knl w)" and
    h: "map (to_bytes u32_rep) (sent w) = map (to_bytes u32_rep) (rcvd w) @ queue_msgs (the_queue w)"
    using assms(1) by (simp_all add: sys_inv_def queue_hist_def)
  show ?thesis
  proof (cases "queue_msgs (the_queue w)")
    case (Cons b bs)
    obtain x where x: "b = to_bytes u32_rep x" using map_bytes_append [OF h] Cons by auto
    show ?thesis
      by (rule queue_recv_now [OF i assms(2) Cons, of "locals w c"])
        (use h Cons x u32.of_to_bytes in \<open>simp add: sys_inv_def queue_hist_def Let_def\<close>)
  next
    case Nil
    then show ?thesis
      by (rule queue_recv_waits [OF i assms(2), of "locals w c"])
        (use h in \<open>simp add: sys_inv_def queue_hist_def Let_def jump_def\<close>)
  qed
qed

lemma exec_cmd_inv:
  assumes "sys_inv (posix_build n p dbg tramp) w" "cpu (knl w) = InTask c"
  shows "sys_inv (posix_build n p dbg tramp) (exec_cmd (posix_build n p dbg tramp) c x w)"
proof -
  let ?B = "posix_build n p dbg tramp"
  have o': "objs_inv ?B (the_sem w) (the_mutex w) (the_queue w) (knl w)" and l: "loop_inv ?B (knl w)"
    using assms(1) by (simp_all add: sys_inv_def objs_inv_def)
  note call = objs_call_running [OF o' assms(2)]
  show ?thesis
  proof (cases x)
    case (Sleep ms)
    then show ?thesis using call [OF sleep_call [OF l assms(2)]] assms(1) by (simp add: sys_inv_def queue_hist_def)
  next
    case Yield
    then show ?thesis using call [OF yield_call [OF l assms(2)]] assms(1) by (simp add: sys_inv_def queue_hist_def)
  next
    case Queue_Send
    then show ?thesis using exec_send_inv [OF assms] by simp
  next
    case Queue_Recv
    then show ?thesis using exec_recv_inv [OF assms] by simp
  qed (use o' assms in \<open>auto simp: sys_inv_def queue_hist_def jump_def split: prod.splits
    intro: sem_take_inv sem_try_take_inv sem_give_inv mutex_lock_inv mutex_try_lock_inv mutex_unlock_inv\<close>)
qed

lemma sys_step_inv:
  assumes "sys_step hooks (posix_build n p dbg tramp) bodies w w'" "sys_inv (posix_build n p dbg tramp) w"
  shows "sys_inv (posix_build n p dbg tramp) w'"
proof -
  let ?B = "posix_build n p dbg tramp"
  have o': "objs_inv ?B (the_sem w) (the_mutex w) (the_queue w) (knl w)" and l: "loop_inv ?B (knl w)" and h: "queue_hist w"
    using assms(2) by (simp_all add: sys_inv_def objs_inv_def)
  show ?thesis using assms(1)
  proof cases
    case (task_step c x r)
    have "sys_inv ?B (w\<lparr>conts := (conts w)(c := r)\<rparr>)" using assms(2) by (simp add: sys_inv_def queue_hist_def)
    then show ?thesis using exec_cmd_inv task_step by simp
  next
    case loop_back
    then show ?thesis using objs_step [OF o'] loop_inv_back [OF l] h by (simp add: sys_inv_def queue_hist_def)
  next
    case loop_pass
    then show ?thesis using objs_step [OF o'] loop_inv_pass [OF l] h by (simp add: sys_inv_def queue_hist_def)
  next
    case tick
    then show ?thesis using objs_step [OF o'] loop_inv_tick [OF l] h by (simp add: sys_inv_def queue_hist_def)
  qed
qed

lemma sys_steps_inv:
  assumes "sys_steps hooks (posix_build n p dbg tramp) bodies w w'" "sys_inv (posix_build n p dbg tramp) w"
  shows "sys_inv (posix_build n p dbg tramp) w'"
  using assms by (induction rule: rtranclp_induct) (auto intro: sys_step_inv)

section \<open>A run\<close>

text \<open>A run of the system that follows a schedule: \<open>True\<close> asks for a tick, \<open>False\<close> for the next part of the task
  or of the loop.\<close>

definition run_step :: "bool \<Rightarrow> posix build \<Rightarrow> (nat \<Rightarrow> cmd list) \<Rightarrow> world \<Rightarrow> world" where
  "run_step hooks B bodies w =
     (case cpu (knl w) of
        InTask c \<Rightarrow> (case next_cmds bodies c w of [] \<Rightarrow> w | x # r \<Rightarrow> exec_cmd B c x (w\<lparr>conts := (conts w)(c := r)\<rparr>))
      | LoopBack \<Rightarrow> w\<lparr>knl := posix_sched_back B (knl w)\<rparr>
      | LoopTop \<Rightarrow> w\<lparr>knl := posix_sched_pass hooks B (knl w)\<rparr>
      | InMain \<Rightarrow> w)"

fun run :: "bool \<Rightarrow> posix build \<Rightarrow> (nat \<Rightarrow> cmd list) \<Rightarrow> bool list \<Rightarrow> world \<Rightarrow> world" where
  "run hooks B bodies [] w = w"
| "run hooks B bodies (t # ts) w =
     run hooks B bodies ts
       (if t \<and> \<not> sig_blocked (knl w) \<and> sig_handler (knl w) then w\<lparr>knl := tick_sighandler B (knl w)\<rparr>
        else run_step hooks B bodies w)"

lemma run_step_steps: "sys_steps hooks B bodies w (run_step hooks B bodies w)"
  by (auto simp: run_step_def intro: sys_step.intros r_into_rtranclp split: where_cpu.splits list.splits)

lemma run_steps: "sys_steps hooks B bodies w (run hooks B bodies ts w)"
proof (induction ts arbitrary: w)
  case (Cons t ts)
  let ?w = "if t \<and> \<not> sig_blocked (knl w) \<and> sig_handler (knl w) then w\<lparr>knl := tick_sighandler B (knl w)\<rparr>
    else run_step hooks B bodies w"
  have "sys_steps hooks B bodies w ?w" using run_step_steps sys_step.tick [of w] by (auto intro: r_into_rtranclp)
  then show ?case using Cons [of ?w] by (simp del: if_split)
qed simp

end
