(* ===== verification/HRT_Exclusion.thy ===== *)
theory HRT_Exclusion
  imports HRT_System
begin

text \<open>
  What the system of \<open>HRT_System\<close> guarantees to programs: the tasks inside a section between
  \<open>hrt_mutex_lock\<close> and \<open>hrt_mutex_unlock\<close> exclude one another, a lock never fails and an unlock is never refused.
\<close>

section \<open>Well-bracketed programs\<close>

text \<open>\<open>closed h cs\<close>: run by a task that holds the mutex (\<open>h\<close>) or does not, \<open>cs\<close> takes it only when it does not
  hold it, gives it only when it does, and ends without it.\<close>

fun closed :: "bool \<Rightarrow> cmd list \<Rightarrow> bool" where
  "closed h [] = (\<not> h)"
| "closed h (Mutex_Lock a b # cs) = (\<not> h \<and> closed True (a @ cs) \<and> closed False (b @ cs))"
| "closed h (Mutex_Try_Lock a b # cs) = (\<not> h \<and> closed True (a @ cs) \<and> closed False (b @ cs))"
| "closed h (Mutex_Unlock # cs) = (h \<and> closed False cs)"
| "closed h (Sem_Try_Take a b # cs) = (closed h (a @ cs) \<and> closed h (b @ cs))"
| "closed h (_ # cs) = closed h cs"

lemma closed_unique: "closed True cs \<Longrightarrow> \<not> closed False cs"
  by (induction True cs rule: closed.induct) auto

definition in_section :: "world \<Rightarrow> nat \<Rightarrow> bool" where
  "in_section w c \<longleftrightarrow> closed True (conts w c)"

definition holders :: "posix build \<Rightarrow> hrt_mutex \<Rightarrow> nat set" where
  "holders B m = set_option (mutex_owner m) \<union> set (mutex_waiters B m)"

definition excl_inv :: "posix build \<Rightarrow> world \<Rightarrow> bool" where
  "excl_inv B w \<longleftrightarrow> (\<forall>c. closed (c \<in> holders B (the_mutex w)) (conts w c))"

section \<open>The mutex calls and the holders\<close>

lemma lock_holders:
  assumes "objs_inv (posix_build n p dbg tramp) s m q k" "cpu k = InTask c"
    "hrt_mutex_lock (posix_build n p dbg tramp) m k = (r, m', k')" "c \<notin> holders (posix_build n p dbg tramp) m"
  shows "r = Ret 0 \<or> r = Hop" "holders (posix_build n p dbg tramp) m' = insert c (holders (posix_build n p dbg tramp) m)"
proof -
  let ?B = "posix_build n p dbg tramp"
  note i = objs_invD [OF assms(1)]
  note t = loop_inv_task [OF i(1) assms(2)]
  note b = posix.mutex_lock_refines [of n p dbg tramp, simplified, OF t(1-4) i(3), unfolded assms(3), simplified]
  have own: "mutex_owner m \<noteq> Some c" using assms(4) by (auto simp: holders_def)
  show "holders ?B m' = insert c (holders ?B m)"
    using b(1) own by (cases "mutex_owner m") (auto simp: holders_def mutex_abs_def spec_lock_def)
  show "r = Ret 0 \<or> r = Hop"
  proof (cases "locked m = 0")
    case True
    then show ?thesis using posix.mutex_lock_free(1) [of m k c n p dbg tramp] assms(3) t(2,3) by simp
  next
    case False
    then have "sint (owner m) \<noteq> int c" using own mutex_owner_eq [OF i(3)] by blast
    then show ?thesis using mutex_lock_hops [OF t(5) False, of p dbg tramp] assms(3) by simp
  qed
qed

lemma try_lock_holders:
  assumes "objs_inv (posix_build n p dbg tramp) s m q k" "cpu k = InTask c"
    "hrt_mutex_try_lock (posix_build n p dbg tramp) m k = (r, m', k')" "c \<notin> holders (posix_build n p dbg tramp) m"
  shows "holders (posix_build n p dbg tramp) m' =
     (if r = 0 then insert c (holders (posix_build n p dbg tramp) m) else holders (posix_build n p dbg tramp) m)"
proof -
  let ?B = "posix_build n p dbg tramp"
  note i = objs_invD [OF assms(1)]
  note t = loop_inv_task [OF i(1) assms(2)]
  show ?thesis
  proof (cases "locked m = 0")
    case True
    then have eq: "r = 0" "m' = m\<lparr>locked := 1, owner := word_of_nat c\<rparr>"
      using posix.mutex_lock_free(2) [of m k c n p dbg tramp] assms(3) t(2,3) by simp_all
    have w: "mutex_waiters ?B m = []" "mutex_owner m = None"
      using mutex_free_waiters [OF i(3) True] True by (simp_all add: mutex_owner_def)
    have "mutex_abs ?B m' = (Some c, [])" using mutex_wf_own(2) [OF i(3) w(1)] t(3) eq(2) by simp
    then show ?thesis using eq(1) w by (simp add: holders_def mutex_abs_def)
  next
    case False
    then have "sint (owner m) \<noteq> int c" using assms(4) mutex_owner_eq [OF i(3), of c] by (auto simp: holders_def)
    then show ?thesis using posix.mutex_try_lock_busy [of m k c n p dbg tramp] False assms(3) t(2,3) by simp
  qed
qed

lemma running_holder_owns:
  assumes "objs_inv B s m q k" "task_states k c \<noteq> HRT_BLOCKED" "c \<in> holders B m"
  shows "mutex_owner m = Some c"
  using assms waiting_blocked(1) [OF assms(1), of c] by (auto simp: holders_def waiting_def)

lemma unlock_holders:
  assumes "objs_inv (posix_build n p dbg tramp) s m q k" "cpu k = InTask c"
    "hrt_mutex_unlock (posix_build n p dbg tramp) m k = (r, m', k')" "c \<in> holders (posix_build n p dbg tramp) m"
  shows "r \<noteq> Ret (-1)" "holders (posix_build n p dbg tramp) m' = holders (posix_build n p dbg tramp) m - {c}"
proof -
  let ?B = "posix_build n p dbg tramp"
  note i = objs_invD [OF assms(1)]
  note t = loop_inv_task [OF i(1) assms(2)]
  have own: "mutex_owner m = Some c"
    by (rule running_holder_owns [OF assms(1) _ assms(4)]) (use t(4) in \<open>simp add: task_states_def\<close>)
  have "c \<notin> set (mutex_waiters ?B m)"
    using waiting_blocked(1) [OF assms(1), of c] t(4) by (auto simp: waiting_def task_states_def)
  then show "r \<noteq> Ret (-1)" "holders ?B m' = holders ?B m - {c}"
    using posix.mutex_unlock_refines(1,4) [of n p dbg tramp, simplified, OF t(1-4) i(3), unfolded assms(3), simplified]
      own i(5) by (auto simp: mutex_abs_def spec_unlock_def holders_def waiting_def split: list.splits)
qed

section \<open>Mutual exclusion\<close>

lemma closed_jump:
  assumes "\<And>d. d \<noteq> c \<Longrightarrow> closed (d \<in> H) (f d)" "closed (c \<in> H) cs"
  shows "\<forall>d. closed (d \<in> H) ((f(c := cs)) d)"
  using assms by simp

lemma exec_cmd_excl:
  assumes "sys_inv (posix_build n p dbg tramp) w" "cpu (knl w) = InTask c"
    "closed (c \<in> holders (posix_build n p dbg tramp) (the_mutex w)) (x # conts w c)"
    "\<And>d. d \<noteq> c \<Longrightarrow> closed (d \<in> holders (posix_build n p dbg tramp) (the_mutex w)) (conts w d)"
  shows "excl_inv (posix_build n p dbg tramp) (exec_cmd (posix_build n p dbg tramp) c x w)"
proof -
  let ?B = "posix_build n p dbg tramp"
  have i: "objs_inv ?B (the_sem w) (the_mutex w) (the_queue w) (knl w)" using assms(1) by (simp add: sys_inv_def)
  have all: "\<forall>d. closed (d \<in> holders ?B (the_mutex w)) (conts w d)"
    if "closed (c \<in> holders ?B (the_mutex w)) (conts w c)" using assms(4) that by metis
  note J = closed_jump [of c, OF assms(4)]
  show ?thesis
  proof (cases x)
    case (Mutex_Lock a b)
    obtain r m k where eq: "hrt_mutex_lock ?B (the_mutex w) (knl w) = (r, m, k)" by (metis prod.exhaust)
    have c: "c \<notin> holders ?B (the_mutex w)" "closed True (a @ conts w c)" using assms(3) Mutex_Lock by simp_all
    note h = lock_holders [OF i assms(2) eq c(1)]
    show ?thesis using h c(2) assms(4) Mutex_Lock by (auto simp: excl_inv_def eq jump_def)
  next
    case (Mutex_Try_Lock a b)
    obtain r m k where eq: "hrt_mutex_try_lock ?B (the_mutex w) (knl w) = (r, m, k)" by (metis prod.exhaust)
    have c: "c \<notin> holders ?B (the_mutex w)" "closed True (a @ conts w c)" "closed False (b @ conts w c)"
      using assms(3) Mutex_Try_Lock by simp_all
    note h = try_lock_holders [OF i assms(2) eq c(1)]
    show ?thesis using h c assms(4) Mutex_Try_Lock by (auto simp: excl_inv_def eq jump_def)
  next
    case Mutex_Unlock
    obtain r m k where eq: "hrt_mutex_unlock ?B (the_mutex w) (knl w) = (r, m, k)" by (metis prod.exhaust)
    have c: "c \<in> holders ?B (the_mutex w)" "closed False (conts w c)" using assms(3) Mutex_Unlock by simp_all
    have "closed (d \<in> holders ?B m) (conts w d)" for d
      using unlock_holders(2) [OF i assms(2) eq c(1)] c(2) assms(4) [of d] by (cases "d = c") simp_all
    then show ?thesis using Mutex_Unlock by (simp add: excl_inv_def eq)
  qed (use assms(3) all J in \<open>auto simp: excl_inv_def jump_def Let_def split: prod.splits option.splits\<close>)
qed

lemma sys_step_excl:
  assumes "sys_step hooks (posix_build n p dbg tramp) bodies w w'" "sys_inv (posix_build n p dbg tramp) w"
    "excl_inv (posix_build n p dbg tramp) w" "\<forall>c. closed False (bodies c)"
  shows "excl_inv (posix_build n p dbg tramp) w'"
  using assms(1)
proof cases
  case (task_step c x r)
  let ?B = "posix_build n p dbg tramp"
  have "closed (c \<in> holders ?B (the_mutex w)) (conts w c)" using assms(3) by (simp add: excl_inv_def)
  then have "closed (c \<in> holders ?B (the_mutex w)) (next_cmds bodies c w)" using assms(4) by (auto simp: next_cmds_def)
  then have x: "closed (c \<in> holders ?B (the_mutex w)) (x # r)" using task_step(3) by simp
  show ?thesis unfolding task_step(1)
    by (rule exec_cmd_excl) (use assms(2,3) x task_step(2) in \<open>simp_all add: sys_inv_def queue_hist_def excl_inv_def\<close>)
qed (use assms(3) in \<open>simp_all add: excl_inv_def\<close>)

lemma sys_steps_excl:
  assumes "sys_steps hooks (posix_build n p dbg tramp) bodies w w'" "sys_inv (posix_build n p dbg tramp) w"
    "excl_inv (posix_build n p dbg tramp) w" "\<forall>c. closed False (bodies c)"
  shows "excl_inv (posix_build n p dbg tramp) w'"
  using assms(1)
proof (induction rule: rtranclp_induct)
  case (step v v')
  then show ?case using sys_step_excl [OF _ sys_steps_inv [OF step(1) assms(2)] _ assms(4)] by blast
qed (rule assms(3))

lemma excl_owner:
  assumes "sys_inv B w" "excl_inv B w" "in_section w c" "task_states (knl w) c \<noteq> HRT_BLOCKED"
  shows "mutex_owner (the_mutex w) = Some c"
proof -
  have "c \<in> holders B (the_mutex w)"
    using assms(2,3) closed_unique by (metis excl_inv_def in_section_def)
  then show ?thesis using assms(1,4) running_holder_owns by (auto simp: sys_inv_def)
qed

end
