(* ===== verification/HRT_Boot.thy ===== *)
theory HRT_Boot
  imports HRT_Demo
begin

text \<open>
  The start of a program with two tasks, as every example has it: \<open>hrt_init\<close>, two calls of
  \<open>hrt_create_task\<close> and \<open>hrt_start\<close>, on any port.
\<close>

record task_args =
  t_fn :: uintptr
  t_arg :: uintptr
  t_stack :: uintptr
  t_words :: size_t
  t_attr :: hrt_task_attr

definition create :: "'p env \<Rightarrow> task_args \<Rightarrow> 'p kernel_scheme \<Rightarrow> int \<times> 'p kernel_scheme" where
  "create B t k = hrt_create_task B (t_fn t) (t_arg t) (t_stack t) (t_words t) (Some (t_attr t)) k"

definition args_ok :: "'p env \<Rightarrow> task_args \<Rightarrow> bool" where
  "args_ok B t \<longleftrightarrow> t_fn t \<noteq> 0 \<and> t_stack t \<noteq> 0 \<and> 64 \<le> t_words t \<and>
     unat (ucast (priority (t_attr t)) :: u8) < HARDRT_MAX_PRIO B"

definition t_prio :: "task_args \<Rightarrow> nat" where
  "t_prio t = unat (ucast (priority (t_attr t)) :: u8)"

definition boot2 :: "'p env \<Rightarrow> hrt_config \<Rightarrow> task_args \<Rightarrow> task_args \<Rightarrow> 'p kernel_scheme \<Rightarrow> 'p kernel_scheme" where
  "boot2 B cfg a b k = snd (create B b (snd (create B a (snd (hrt_init B (Some cfg) k)))))"

context hrt_port
begin

lemma create_current:
  assumes "kinv B R k" "args_ok B t" "first_unused B k = Some i"
  shows "g_current (snd (create B t k)) = g_current k" "g_tick_src (snd (create B t k)) = g_tick_src k"
proof -
  have l: "length (g_tcbs k) = HARDRT_MAX_TASKS B" "HARDRT_MAX_TASKS B < 256"
    using kwf_sizes [OF kinv_kwf [OF assms(1)]] valid_build_bounds by auto
  obtain k3 where "hrt_create_task B (t_fn t) (t_arg t) (t_stack t) (t_words t) (Some (t_attr t)) k =
      (int i, rq_push B (attr_prio (Some (t_attr t))) (int i) k3)"
    "sched_core k3 = sched_core (k\<lparr>g_tcbs := (g_tcbs k)
       [i := task_tcb (t_fn t) (t_arg t) (t_stack t) (t_words t) (attr_prio (Some (t_attr t))) (attr_slice k (Some (t_attr t)))]\<rparr>)"
    using create_task_eq [OF l, of "t_fn t" "t_stack t" "t_words t" i "t_arg t" "Some (t_attr t)"] assms(2,3)
    by (auto simp: args_ok_def)
  then show "g_current (snd (create B t k)) = g_current k" "g_tick_src (snd (create B t k)) = g_tick_src k"
    using sched_core_fields(2,8) by (fastforce simp: create_def)+
qed

lemma create_ready:
  assumes "kinv B R k" "args_ok B t" "first_unused B k = Some i"
  defines "k' \<equiv> snd (create B t k)"
  shows "fst (create B t k) = int i" "kinv B (R - {i}) k'"
    "rq_list B k' r = rq_list B k r @ (if r = t_prio t then [i] else [])"
    "state (g_tcbs k' ! i) = HRT_READY" "timeslice_cfg (g_tcbs k' ! i) = timeslice (t_attr t)"
    "j \<noteq> i \<Longrightarrow> j < HARDRT_MAX_TASKS B \<Longrightarrow> state (g_tcbs k' ! j) = state (g_tcbs k ! j)"
    "g_fault k' = g_fault k"
proof -
  have pr: "unat (attr_prio (Some (t_attr t))) < HARDRT_MAX_PRIO B" using assms(2) by (simp add: args_ok_def attr_prio_def)
  have a: "t_fn t \<noteq> 0" "t_stack t \<noteq> 0" "64 \<le> t_words t" using assms(2) by (simp_all add: args_ok_def)
  note c = create_task_ready [where a = "t_arg t", OF assms(1) a assms(3) pr, folded create_def, folded k'_def]
  have eq: "(g_tcbs k' ! i)\<lparr>sp := 0\<rparr> = (task_tcb (t_fn t) (t_arg t) (t_stack t) (t_words t)
      (attr_prio (Some (t_attr t))) (attr_slice k (Some (t_attr t))))\<lparr>sp := 0\<rparr>"
    using c(4) by (simp add: task_tcb_def zero_tcb_def)
  show "fst (create B t k) = int i" "kinv B (R - {i}) k'" "g_fault k' = g_fault k"
    "rq_list B k' r = rq_list B k r @ (if r = t_prio t then [i] else [])"
    using c by (simp_all add: t_prio_def attr_prio_def)
  show "state (g_tcbs k' ! i) = HRT_READY" "timeslice_cfg (g_tcbs k' ! i) = timeslice (t_attr t)"
    using tcb_sp_eqD [OF eq] by (simp_all add: task_tcb_def attr_slice_def)
  show "state (g_tcbs k' ! j) = state (g_tcbs k ! j)" if "j \<noteq> i" "j < HARDRT_MAX_TASKS B"
    using tcb_sp_eqD(1) [OF c(5) [OF that]] .
qed

text \<open>The two tasks get the first two slots.\<close>

lemma boot2_slots:
  fixes cfg :: hrt_config and k :: "'p kernel_scheme"
  assumes "valid_build B" "2 \<le> HARDRT_MAX_TASKS B" "args_ok B a"
  defines "k0 \<equiv> snd (hrt_init B (Some cfg) k)"
  shows "kinv B {} k0" "first_unused B k0 = Some 0" "kinv B {} (snd (create B a k0))"
    "first_unused B (snd (create B a k0)) = Some 1"
proof -
  note i = init_establishes [OF assms(1), where cfg = "Some cfg" and k = k, folded k0_def]
  show k0: "kinv B {} k0" by (rule i)
  show u0: "first_unused B k0 = Some 0" using i(3) [of 0] assms(2) by (simp add: first_unused_def upt_rec)
  note c = create_ready [OF k0 assms(3) u0]
  show "kinv B {} (snd (create B a k0))" using c(2) by simp
  show "first_unused B (snd (create B a k0)) = Some 1"
    using c(4) c(6) [of 1] i(3) [of 1] assms(2) by (simp add: first_unused_def upt_rec)
qed

lemma boot2_ready:
  fixes cfg :: hrt_config and k :: "'p kernel_scheme"
  assumes "valid_build B" "2 \<le> HARDRT_MAX_TASKS B" "args_ok B a" "args_ok B b"
  defines "k' \<equiv> boot2 B cfg a b k"
  shows "kinv B {} k'" "g_current k' = -1" "g_fault k' = g_fault k"
    "r < HARDRT_MAX_PRIO B \<Longrightarrow> rq_list B k' r = (if r = t_prio a then [0] else []) @ (if r = t_prio b then [1] else [])"
    "j < HARDRT_MAX_TASKS B \<Longrightarrow> state (g_tcbs k' ! j) = (if j < 2 then HRT_READY else HRT_UNUSED)"
    "timeslice_cfg (g_tcbs k' ! 1) = timeslice (t_attr b)"
proof -
  let ?k0 = "snd (hrt_init B (Some cfg) k)"
  note i = init_establishes [OF assms(1), where cfg = "Some cfg" and k = k]
  have cur: "g_current ?k0 = -1" by (rule i)
  note sl = boot2_slots [OF assms(1-3), where cfg = cfg and k = k]
  let ?k1 = "snd (create B a ?k0)"
  note c = create_ready [OF sl(1) assms(3) sl(2)]
  note d = create_ready [OF sl(3) assms(4) sl(4), folded boot2_def, folded k'_def]
  show "kinv B {} k'" using d(2) by simp
  show "g_current k' = -1" "g_fault k' = g_fault k"
    using create_current [OF sl(3) assms(4) sl(4)] create_current [OF sl(1) assms(3) sl(2)] cur d(7) c(7) i(8)
    by (simp_all add: k'_def boot2_def)
  show "timeslice_cfg (g_tcbs k' ! 1) = timeslice (t_attr b)" by (rule d(5))
  show "rq_list B k' r = (if r = t_prio a then [0] else []) @ (if r = t_prio b then [1] else [])"
    if "r < HARDRT_MAX_PRIO B" using d(3) c(3) i(2) [OF that] by simp
  show "state (g_tcbs k' ! j) = (if j < 2 then HRT_READY else HRT_UNUSED)" if j: "j < HARDRT_MAX_TASKS B"
  proof -
    consider "j = 0" | "j = 1" | "2 \<le> j" by linarith
    then show ?thesis using d(4) d(6) [OF _ j] c(4) c(6) [OF _ j] i(3) [OF j] by cases simp_all
  qed
qed

lemma start_core: "core (hrt_start B k) = core k"
  by (simp add: hrt_start_def enter_core pend_core)

lemma start_same [simp]:
  "kinv B R (hrt_start B k) = kinv B R k" "rq_list B (hrt_start B k) = rq_list B k"
  "g_tcbs (hrt_start B k) = g_tcbs k" "g_current (hrt_start B k) = g_current k" "g_fault (hrt_start B k) = g_fault k"
  using kinv_same_core [OF start_core] rq_list_core [OF sched_core_of_core [OF start_core]] core_fields [OF start_core]
  by simp_all

end

end
