(* ===== verification/HRT_Cpp.thy ===== *)
theory HRT_Cpp
  imports HRT_Demo HRT_Info HRT_Rep
begin

text \<open>
  The C++ wrapper \<open>cpp/hardrtpp.hpp\<close>. A class with one C object as its only member is the model of that
  object; a static member function is a function of the kernel. The element type of a queue is given by
  its object representation, the bytes that \<open>memcpy\<close> copies.
\<close>

unbundle bit_operations_syntax

section \<open>Class Task\<close>

text \<open>\<open>stacks w t\<close> is the address of the static array of the instance \<open>create<w, t>\<close>, which the linker
  chooses.\<close>

definition Task_create ::
  "'p env \<Rightarrow> (nat \<Rightarrow> int \<Rightarrow> uintptr) \<Rightarrow> nat \<Rightarrow> int \<Rightarrow> uintptr \<Rightarrow> uintptr \<Rightarrow> hrt_prio \<Rightarrow> u16 \<Rightarrow> 'p kernel_scheme \<Rightarrow>
   int \<times> 'p kernel_scheme" where
  "Task_create B stacks StackWords Tag fn a pr ts k =
     (let attr = \<lparr>priority = pr, timeslice = ts\<rparr>
      in hrt_create_task B fn a (stacks StackWords Tag) (word_of_nat StackWords) (Some attr) k)"

definition Task_create_with_stack ::
  "'p env \<Rightarrow> uintptr \<Rightarrow> uintptr \<Rightarrow> uintptr \<Rightarrow> size_t \<Rightarrow> hrt_prio \<Rightarrow> u16 \<Rightarrow> 'p kernel_scheme \<Rightarrow> int \<times> 'p kernel_scheme" where
  "Task_create_with_stack B fn a stack words pr ts k =
     (let attr = \<lparr>priority = pr, timeslice = ts\<rparr>
      in hrt_create_task B fn a stack words (Some attr) k)"

definition Task_sleep :: "'p env \<Rightarrow> u32 \<Rightarrow> 'p kernel_scheme \<Rightarrow> bool \<times> 'p kernel_scheme" where
  "Task_sleep B ms k = hrt_sleep B ms k"

definition Task_yield :: "'p env \<Rightarrow> 'p kernel_scheme \<Rightarrow> bool \<times> 'p kernel_scheme" where
  "Task_yield B k = hrt_yield B k"

definition Task_delete_current :: "'p env \<Rightarrow> 'p kernel_scheme \<Rightarrow> bool \<times> 'p kernel_scheme" where
  "Task_delete_current B k = hrt_task_delete B k"

section \<open>Class System\<close>

definition System_init :: "'p env \<Rightarrow> hrt_config \<Rightarrow> 'p kernel_scheme \<Rightarrow> int \<times> 'p kernel_scheme" where
  "System_init B cfg k = hrt_init B (Some cfg) k"

definition System_start :: "'p env \<Rightarrow> 'p kernel_scheme \<Rightarrow> 'p kernel_scheme" where
  "System_start B k = hrt_start B k"

definition System_tick_now :: "'p kernel_scheme \<Rightarrow> u32" where
  "System_tick_now k = hrt_tick_now k"

definition System_now_ms :: "'p kernel_scheme \<Rightarrow> u32" where
  "System_now_ms k = hrt_now_ms k"

definition System_version_string :: "build_info \<Rightarrow> string" where
  "System_version_string I = hrt_version_string I"

definition System_version_u32 :: "build_info \<Rightarrow> u32" where
  "System_version_u32 I = hrt_version_u32 I"

definition System_port_name :: "build_info \<Rightarrow> string" where
  "System_port_name I = hrt_port_name I"

definition System_port_id :: "build_info \<Rightarrow> int" where
  "System_port_id I = hrt_port_id I"

section \<open>Class Semaphore\<close>

definition Semaphore_ctor :: "u32 \<Rightarrow> u8 \<Rightarrow> hrt_sem \<Rightarrow> hrt_sem" where
  "Semaphore_ctor init max_count s =
     (if max_count \<le> 1 then hrt_sem_init init s else hrt_sem_init_counting init max_count s)"

definition Semaphore_take ::
  "'p env \<Rightarrow> hrt_sem \<Rightarrow> 'p kernel_scheme \<Rightarrow> outcome \<times> hrt_sem \<times> 'p kernel_scheme" where
  "Semaphore_take B s k = hrt_sem_take B s k"

definition Semaphore_try_take ::
  "'p env \<Rightarrow> hrt_sem \<Rightarrow> 'p kernel_scheme \<Rightarrow> int \<times> hrt_sem \<times> 'p kernel_scheme" where
  "Semaphore_try_take B s k = hrt_sem_try_take B s k"

definition Semaphore_give ::
  "'p env \<Rightarrow> hrt_sem \<Rightarrow> 'p kernel_scheme \<Rightarrow> outcome \<times> hrt_sem \<times> 'p kernel_scheme" where
  "Semaphore_give B s k = hrt_sem_give B s k"

definition Semaphore_give_from_isr ::
  "'p env \<Rightarrow> hrt_sem \<Rightarrow> 'p kernel_scheme \<Rightarrow> (outcome \<times> bool) \<times> hrt_sem \<times> 'p kernel_scheme" where
  "Semaphore_give_from_isr B s k = hrt_sem_give_from_isr B s k"

section \<open>Class Mutex\<close>

definition Mutex_ctor :: "hrt_mutex \<Rightarrow> hrt_mutex" where
  "Mutex_ctor m = hrt_mutex_init m"

definition Mutex_lock ::
  "'p env \<Rightarrow> hrt_mutex \<Rightarrow> 'p kernel_scheme \<Rightarrow> outcome \<times> hrt_mutex \<times> 'p kernel_scheme" where
  "Mutex_lock B m k = hrt_mutex_lock B m k"

definition Mutex_try_lock ::
  "'p env \<Rightarrow> hrt_mutex \<Rightarrow> 'p kernel_scheme \<Rightarrow> int \<times> hrt_mutex \<times> 'p kernel_scheme" where
  "Mutex_try_lock B m k = hrt_mutex_try_lock B m k"

definition Mutex_unlock ::
  "'p env \<Rightarrow> hrt_mutex \<Rightarrow> 'p kernel_scheme \<Rightarrow> outcome \<times> hrt_mutex \<times> 'p kernel_scheme" where
  "Mutex_unlock B m k = hrt_mutex_unlock B m k"

section \<open>Class templates QueueRef and StaticQueue\<close>

text \<open>The value-initialised member \<open>_q{}\<close>.\<close>

definition zero_queue :: "nat \<Rightarrow> hrt_queue" where
  "zero_queue n = \<lparr>buf = [], item_size = 0, capacity = 0, q_head = 0, q_tail = 0, q_count = 0,
     rx_q = replicate n 0, rx_head = 0, rx_tail = 0, rx_wait = 0,
     tx_q = replicate n 0, tx_head = 0, tx_tail = 0, tx_wait = 0\<rparr>"

definition QueueRef_init :: "'a rep \<Rightarrow> u8 list option \<Rightarrow> u16 \<Rightarrow> hrt_queue \<Rightarrow> hrt_queue" where
  "QueueRef_init R storage cap q = snd (hrt_queue_init storage cap (word_of_nat (sizeof_T R)) q)"

definition QueueRef_send ::
  "'a rep \<Rightarrow> 'p env \<Rightarrow> 'a \<Rightarrow> hrt_queue \<Rightarrow> 'p kernel_scheme \<Rightarrow> (queue_out \<times> hrt_queue \<times> 'p kernel_scheme) option" where
  "QueueRef_send R B item q k = hrt_queue_send B q (Some (to_bytes R item)) k"

definition QueueRef_try_send ::
  "'a rep \<Rightarrow> 'p env \<Rightarrow> 'a \<Rightarrow> hrt_queue \<Rightarrow> 'p kernel_scheme \<Rightarrow> queue_out \<times> hrt_queue \<times> 'p kernel_scheme" where
  "QueueRef_try_send R B item q k = hrt_queue_try_send B q (Some (to_bytes R item)) k"

text \<open>The object behind a reference \<open>T& out\<close> is rewritten by the bytes the call stores in it.\<close>

definition QueueRef_recv ::
  "'a rep \<Rightarrow> 'p env \<Rightarrow> 'a \<Rightarrow> hrt_queue \<Rightarrow> 'p kernel_scheme \<Rightarrow> ((queue_out \<times> 'a) \<times> hrt_queue \<times> 'p kernel_scheme) option" where
  "QueueRef_recv R B out q k =
     (case hrt_queue_recv B q (Some (to_bytes R out)) k of
        None \<Rightarrow> None
      | Some ((r, bs), q, k) \<Rightarrow> Some ((r, of_bytes R (the bs)), q, k))"

definition QueueRef_try_recv ::
  "'a rep \<Rightarrow> 'p env \<Rightarrow> 'a \<Rightarrow> hrt_queue \<Rightarrow> 'p kernel_scheme \<Rightarrow> (queue_out \<times> 'a) \<times> hrt_queue \<times> 'p kernel_scheme" where
  "QueueRef_try_recv R B out q k =
     (case hrt_queue_try_recv B q (Some (to_bytes R out)) k of
        ((r, bs), q, k) \<Rightarrow> ((r, of_bytes R (the bs)), q, k))"

definition QueueRef_try_send_from_isr ::
  "'a rep \<Rightarrow> 'p env \<Rightarrow> 'a \<Rightarrow> hrt_queue \<Rightarrow> 'p kernel_scheme \<Rightarrow> (queue_out \<times> bool) \<times> hrt_queue \<times> 'p kernel_scheme" where
  "QueueRef_try_send_from_isr R B item q k = hrt_queue_try_send_from_isr B q (Some (to_bytes R item)) k"

definition QueueRef_try_recv_from_isr ::
  "'a rep \<Rightarrow> 'p env \<Rightarrow> 'a \<Rightarrow> hrt_queue \<Rightarrow> 'p kernel_scheme \<Rightarrow> (queue_out \<times> bool \<times> 'a) \<times> hrt_queue \<times> 'p kernel_scheme" where
  "QueueRef_try_recv_from_isr R B out q k =
     (case hrt_queue_try_recv_from_isr B q (Some (to_bytes R out)) k of
        ((r, need_switch, bs), q, k) \<Rightarrow> ((r, need_switch, of_bytes R (the bs)), q, k))"

text \<open>\<open>StaticQueue\<close> owns its zeroed storage; the capacity is cast to 16 bits.\<close>

definition StaticQueue_ctor :: "'a rep \<Rightarrow> nat \<Rightarrow> nat \<Rightarrow> queue_out \<times> hrt_queue" where
  "StaticQueue_ctor R max_tasks Capacity =
     hrt_queue_init (Some (replicate (Capacity * sizeof_T R) 0)) (word_of_nat Capacity) (word_of_nat (sizeof_T R))
       (zero_queue max_tasks)"

definition StaticQueue_send ::
  "'a rep \<Rightarrow> 'p env \<Rightarrow> 'a \<Rightarrow> hrt_queue \<Rightarrow> 'p kernel_scheme \<Rightarrow> (queue_out \<times> hrt_queue \<times> 'p kernel_scheme) option" where
  "StaticQueue_send R B item q k = hrt_queue_send B q (Some (to_bytes R item)) k"

definition StaticQueue_try_send ::
  "'a rep \<Rightarrow> 'p env \<Rightarrow> 'a \<Rightarrow> hrt_queue \<Rightarrow> 'p kernel_scheme \<Rightarrow> queue_out \<times> hrt_queue \<times> 'p kernel_scheme" where
  "StaticQueue_try_send R B item q k = hrt_queue_try_send B q (Some (to_bytes R item)) k"

definition StaticQueue_recv ::
  "'a rep \<Rightarrow> 'p env \<Rightarrow> 'a \<Rightarrow> hrt_queue \<Rightarrow> 'p kernel_scheme \<Rightarrow> ((queue_out \<times> 'a) \<times> hrt_queue \<times> 'p kernel_scheme) option" where
  "StaticQueue_recv R B out q k =
     (case hrt_queue_recv B q (Some (to_bytes R out)) k of
        None \<Rightarrow> None
      | Some ((r, bs), q, k) \<Rightarrow> Some ((r, of_bytes R (the bs)), q, k))"

definition StaticQueue_try_recv ::
  "'a rep \<Rightarrow> 'p env \<Rightarrow> 'a \<Rightarrow> hrt_queue \<Rightarrow> 'p kernel_scheme \<Rightarrow> (queue_out \<times> 'a) \<times> hrt_queue \<times> 'p kernel_scheme" where
  "StaticQueue_try_recv R B out q k =
     (case hrt_queue_try_recv B q (Some (to_bytes R out)) k of
        ((r, bs), q, k) \<Rightarrow> ((r, of_bytes R (the bs)), q, k))"

definition StaticQueue_try_send_from_isr ::
  "'a rep \<Rightarrow> 'p env \<Rightarrow> 'a \<Rightarrow> hrt_queue \<Rightarrow> 'p kernel_scheme \<Rightarrow> (queue_out \<times> bool) \<times> hrt_queue \<times> 'p kernel_scheme" where
  "StaticQueue_try_send_from_isr R B item q k = hrt_queue_try_send_from_isr B q (Some (to_bytes R item)) k"

definition StaticQueue_try_recv_from_isr ::
  "'a rep \<Rightarrow> 'p env \<Rightarrow> 'a \<Rightarrow> hrt_queue \<Rightarrow> 'p kernel_scheme \<Rightarrow> (queue_out \<times> bool \<times> 'a) \<times> hrt_queue \<times> 'p kernel_scheme" where
  "StaticQueue_try_recv_from_isr R B out q k =
     (case hrt_queue_try_recv_from_isr B q (Some (to_bytes R out)) k of
        ((r, need_switch, bs), q, k) \<Rightarrow> ((r, need_switch, of_bytes R (the bs)), q, k))"

section \<open>Queues of values\<close>

locale typed_queue = object_rep R + hrt_port B for R :: "'a rep" and B :: "'p env"
begin

lemma typed_send:
  fixes x :: 'a
  assumes "kinv B {c} k" "g_current k = int c" "c < HARDRT_MAX_TASKS B" "state (g_tcbs k ! c) = HRT_READY"
    "queue_wf B q k" "holds R q xs"
  defines "r \<equiv> hrt_queue_try_send B q (Some (to_bytes R x)) k"
  shows "fst r \<in> (if length xs < unat (capacity q) then {QRet 0, QHop} else {QRet (-1)})"
    and "holds R (fst (snd r)) (if length xs < unat (capacity q) then xs @ [x] else xs)"
    and "queue_wf B (fst (snd r)) (snd (snd r))"
proof -
  have len: "length (to_bytes R x) = unat (item_size q)" using assms(6) length_to_bytes by (simp add: holds_def)
  note t = try_send_refines [OF assms(1-5) len, folded r_def]
  have ms: "queue_abs B q = (map (to_bytes R) xs, rx_waiters B q, tx_waiters B q)"
    using assms(6) by (simp add: queue_abs_def holds_def)
  show "fst r \<in> (if length xs < unat (capacity q) then {QRet 0, QHop} else {QRet (-1)})"
    using t(1) by (auto simp: ms spec_send_def split: if_splits)
  show "queue_wf B (fst (snd r)) (snd (snd r))" by (rule t(3))
  show "holds R (fst (snd r)) (if length xs < unat (capacity q) then xs @ [x] else xs)"
    using t(2) assms(6) by (auto simp: ms spec_send_def holds_def queue_abs_def r_def split: if_splits)
qed

lemma typed_recv:
  fixes y :: 'a
  assumes "kinv B {c} k" "g_current k = int c" "c < HARDRT_MAX_TASKS B" "state (g_tcbs k ! c) = HRT_READY"
    "queue_wf B q k" "holds R q xs"
  defines "r \<equiv> hrt_queue_try_recv B q (Some (to_bytes R y)) k"
  shows "fst (fst r) \<in> (if xs = [] then {QRet (-1)} else {QRet 0, QHop})"
    and "of_bytes R (the (snd (fst r))) = (if xs = [] then y else hd xs)"
    and "holds R (fst (snd r)) (tl xs)" and "queue_wf B (fst (snd r)) (snd (snd r))"
proof -
  have len: "length (to_bytes R y) = unat (item_size q)" using assms(6) length_to_bytes by (simp add: holds_def)
  note t = try_recv_refines [OF assms(1-5) len, folded r_def]
  have ms: "queue_abs B q = (map (to_bytes R) xs, rx_waiters B q, tx_waiters B q)"
    using assms(6) by (simp add: queue_abs_def holds_def)
  show "fst (fst r) \<in> (if xs = [] then {QRet (-1)} else {QRet 0, QHop})"
    using t(1) by (cases xs) (auto simp: ms spec_recv_def split: if_splits)
  show "of_bytes R (the (snd (fst r))) = (if xs = [] then y else hd xs)"
    using t(2) by (cases xs) (simp_all add: ms spec_recv_def of_to_bytes)
  show "queue_wf B (fst (snd r)) (snd (snd r))" by (rule t(4))
  show "holds R (fst (snd r)) (tl xs)"
    using t(3) assms(6) by (cases xs) (auto simp: ms spec_recv_def holds_def queue_abs_def r_def)
qed

lemma ctor_ok:
  assumes "valid_build B" "0 < Capacity" "Capacity < 2 ^ 16" "Capacity * sizeof_T R < 2 ^ 32"
  shows "fst (StaticQueue_ctor R (HARDRT_MAX_TASKS B) Capacity) = QRet 0"
    "queue_wf B (snd (StaticQueue_ctor R (HARDRT_MAX_TASKS B) Capacity)) k"
    "holds R (snd (StaticQueue_ctor R (HARDRT_MAX_TASKS B) Capacity)) []"
    "unat (capacity (snd (StaticQueue_ctor R (HARDRT_MAX_TASKS B) Capacity))) = Capacity"
proof -
  have c: "unat (word_of_nat Capacity :: u16) = Capacity" using assms(3) by (simp add: unat_of_nat)
  have "sizeof_T R \<le> Capacity * sizeof_T R" using assms(2) by simp
  then have "sizeof_T R < 2 ^ 32" using assms(4) by linarith
  then have s: "unat (word_of_nat (sizeof_T R) :: size_t) = sizeof_T R" by (simp add: unat_of_nat)
  have pos: "0 < (word_of_nat Capacity :: u16)" "0 < (word_of_nat (sizeof_T R) :: size_t)"
    using c s assms(2) sizeof_pos by (auto simp: word_less_nat_alt)
  let ?bytes = "replicate (Capacity * sizeof_T R) (0 :: u8)"
  have len: "length (rx_q (zero_queue (HARDRT_MAX_TASKS B))) = HARDRT_MAX_TASKS B"
    "length (tx_q (zero_queue (HARDRT_MAX_TASKS B))) = HARDRT_MAX_TASKS B" by (simp_all add: zero_queue_def)
  have bytes: "length ?bytes = unat (word_of_nat Capacity :: u16) * unat (word_of_nat (sizeof_T R) :: size_t)"
    "length ?bytes < 2 ^ 32" using assms(4) by (simp_all add: c s)
  note i = queue_init_wf [OF assms(1) len pos bytes, folded StaticQueue_ctor_def]
  show "fst (StaticQueue_ctor R (HARDRT_MAX_TASKS B) Capacity) = QRet 0"
    "queue_wf B (snd (StaticQueue_ctor R (HARDRT_MAX_TASKS B) Capacity)) k" by (rule i)+
  show "holds R (snd (StaticQueue_ctor R (HARDRT_MAX_TASKS B) Capacity)) []"
    "unat (capacity (snd (StaticQueue_ctor R (HARDRT_MAX_TASKS B) Capacity))) = Capacity"
    using i(3-5) by (simp_all add: holds_def queue_abs_def c s)
qed

end

interpretation u32q: typed_queue u32_rep "posix_build n p dbg tramp" for n p dbg tramp
  by unfold_locales

section \<open>Properties of the wrapper\<close>

text \<open>C19: \<open>StaticQueue<uint32_t, Capacity>\<close> is a bounded FIFO of values. The constructor of a queue of 1 to 65535
  elements succeeds and leaves it empty; \<open>try_send\<close> appends the value when there is room and refuses it
  otherwise; \<open>try_recv\<close> gives back the oldest value sent, or leaves the caller's variable alone when the
  queue is empty.\<close>

theorem static_queue_is_typed_fifo:
  fixes x y :: u32
  assumes "valid_build (posix_build n p dbg tramp)" "0 < Capacity" "Capacity < 2 ^ 16"
    and "kinv (posix_build n p dbg tramp) {c} k" "g_current k = int c" "c < n" "state (g_tcbs k ! c) = HRT_READY"
    "queue_wf (posix_build n p dbg tramp) q k" "holds u32_rep q xs"
  defines "B \<equiv> posix_build n p dbg tramp"
  defines "q0 \<equiv> StaticQueue_ctor u32_rep n Capacity"
  defines "s \<equiv> StaticQueue_try_send u32_rep B x q k" and "r \<equiv> StaticQueue_try_recv u32_rep B y q k"
  shows "(fst q0 = QRet 0 \<and> queue_wf B (snd q0) k \<and> holds u32_rep (snd q0) [] \<and> unat (capacity (snd q0)) = Capacity) \<and>
    (fst s \<in> (if length xs < unat (capacity q) then {QRet 0, QHop} else {QRet (-1)}) \<and>
     holds u32_rep (fst (snd s)) (if length xs < unat (capacity q) then xs @ [x] else xs) \<and>
     queue_wf B (fst (snd s)) (snd (snd s))) \<and>
    (fst (fst r) \<in> (if xs = [] then {QRet (-1)} else {QRet 0, QHop}) \<and> snd (fst r) = (if xs = [] then y else hd xs) \<and>
     holds u32_rep (fst (snd r)) (tl xs) \<and> queue_wf B (fst (snd r)) (snd (snd r)))"
proof -
  have "Capacity * sizeof_T u32_rep < 2 ^ 32" using assms(3) by (simp add: u32_rep_def)
  note i = u32q.ctor_ok [of n p dbg tramp, OF assms(1-3) this, unfolded posix_build_fields, folded q0_def B_def]
  note t = u32q.typed_send [of n p dbg tramp, unfolded posix_build_fields, OF assms(4-9), of x,
      folded StaticQueue_try_send_def, folded B_def, folded s_def]
  note v = u32q.typed_recv [of n p dbg tramp, unfolded posix_build_fields, OF assms(4-9), of y, folded B_def]
  have r: "r = (case hrt_queue_try_recv B q (Some (to_bytes u32_rep y)) k of
      ((o', bs), q, k) \<Rightarrow> ((o', of_bytes u32_rep (the bs)), q, k))"
    by (simp add: r_def StaticQueue_try_recv_def)
  have r': "fst (fst r) = fst (fst (hrt_queue_try_recv B q (Some (to_bytes u32_rep y)) k))"
    "snd (fst r) = of_bytes u32_rep (the (snd (fst (hrt_queue_try_recv B q (Some (to_bytes u32_rep y)) k))))"
    "snd r = snd (hrt_queue_try_recv B q (Some (to_bytes u32_rep y)) k)"
    by (simp_all add: r split_beta)
  show ?thesis unfolding r' using i t v by blast
qed

theorem static_queue_is_typed_fifo_witness:
  "snd (fst (StaticQueue_try_recv u32_rep PB 9 (snd (StaticQueue_ctor u32_rep 3 32)) P_one)) = 9 \<and>
   fst (StaticQueue_try_send u32_rep PB 7 (snd (StaticQueue_ctor u32_rep 3 32)) P_one) \<in> {QRet 0, QHop}"
proof -
  let ?q = "snd (StaticQueue_ctor u32_rep 3 32)"
  have v: "valid_build PB" and h: "g_current P_one = int 0" "state (g_tcbs P_one ! 0) = HRT_READY" by code_simp+
  have q: "queue_wf PB ?q P_one" "holds u32_rep ?q []" "unat (capacity ?q) = 32"
    using u32q.ctor_ok [of 3 2 True "0x100" 32, folded PB_def, OF v] by (simp_all add: PB_def u32_rep_def)
  show ?thesis
    using static_queue_is_typed_fifo [of 3 2 True "0x100" 32 0 P_one ?q "[]" 7 9, folded PB_def,
        OF v _ _ demo_kinv(5) h(1) _ h(2) q(1,2)] q(3) by simp
qed

text \<open>The constructor of \<open>Semaphore\<close>, which calls \<open>hrt_sem_init\<close> for a maximum of 0 or 1 and
  \<open>hrt_sem_init_counting\<close> above, sets the semaphore up as \<open>hrt_sem_init_counting\<close> does for every maximum
  and every initial value.\<close>

theorem semaphore_ctor_is_counting:
  "Semaphore_ctor init max_count s = hrt_sem_init_counting init max_count s"
proof (cases "max_count \<le> 1")
  case True
  then have m: "max_count = 0 \<or> max_count = 1" by (simp add: word_le_nat_alt unat_word_ariths) (metis One_nat_def le_Suc_eq le_zero_eq unat_1 unat_eq_zero word_unat_eq_iff)
  have "init > 1 \<longleftrightarrow> init \<noteq> 0 \<and> init \<noteq> 1" by (metis word_gt_0 word_less_1 word_not_simps(1) linorder_neqE not_less_iff_gr_or_eq)
  then show ?thesis using m by (auto simp: Semaphore_ctor_def hrt_sem_init_def hrt_sem_init_counting_def Let_def)
qed (simp add: Semaphore_ctor_def)

text \<open>\<open>Task::create\<close> returns the slot of the new task, not 0, and stores its arguments as they are: the
  stack is the static array of the instance, so a second call with the same template arguments shares it,
  and a time slice of 0 stays 0, which is cooperative scheduling, where the comment promises the default
  slice.\<close>

theorem cpp_create_is_literal:
  fixes a :: uintptr and ts :: u16
  assumes "kinv (posix_build n p dbg tramp) R k" "fn \<noteq> 0" "stacks W Tag \<noteq> 0" "64 \<le> W" "W < 2 ^ 32"
    "first_unused (posix_build n p dbg tramp) k = Some i" "unat (ucast pr :: u8) < p"
  defines "r \<equiv> Task_create (posix_build n p dbg tramp) stacks W Tag fn a pr ts k"
  shows "fst r = int i \<and> kinv (posix_build n p dbg tramp) (R - {i}) (snd r) \<and>
    state (g_tcbs (snd r) ! i) = HRT_READY \<and> stack_base (g_tcbs (snd r) ! i) = stacks W Tag \<and>
    timeslice_cfg (g_tcbs (snd r) ! i) = ts \<and> slice_left (g_tcbs (snd r) ! i) = ts"
proof -
  let ?B = "posix_build n p dbg tramp" and ?attr = "Some \<lparr>priority = pr, timeslice = ts\<rparr>"
  have w: "64 \<le> (word_of_nat W :: size_t)" using assms(4,5) by (simp add: word_le_nat_alt unat_of_nat)
  have pr: "unat (attr_prio ?attr) < p" using assms(7) by (simp add: attr_prio_def)
  have r: "r = hrt_create_task ?B fn a (stacks W Tag) (word_of_nat W) ?attr k" by (simp add: r_def Task_create_def)
  note c = posix.create_task_ready [where a = a, OF assms(1-3) w assms(6), unfolded posix_build_fields, OF pr, folded r]
  have eq: "(g_tcbs (snd r) ! i)\<lparr>sp := 0\<rparr> =
      (task_tcb fn a (stacks W Tag) (word_of_nat W) (attr_prio ?attr) ts)\<lparr>sp := 0\<rparr>"
    using c(4) by (simp add: task_tcb_def attr_slice_def zero_tcb_def)
  show ?thesis using c(1,2) tcb_sp_eqD [OF eq] by (simp add: task_tcb_def)
qed

theorem cpp_create_is_literal_witness:
  "fst (Task_create PB (\<lambda>_ _. 0x2000) 2048 0 0x400 0 1 0 P_one) = 1 \<and>
   timeslice_cfg (g_tcbs (snd (Task_create PB (\<lambda>_ _. 0x2000) 2048 0 0x400 0 1 0 P_one)) ! 1) = 0 \<and>
   g_default_slice P_one = 5"
proof -
  have u: "first_unused PB P_one = Some 1" and d: "g_default_slice P_one = 5" by code_simp+
  show ?thesis
    using cpp_create_is_literal [of 3 2 True "0x100" "{0}" P_one "0x400" "\<lambda>_ _. 0x2000" 2048 0 1 1 0 0,
        folded PB_def, OF demo_kinv(5) _ _ _ _ u] d by simp
qed

end
