(* ===== verification/HRT_Examples.thy ===== *)
theory HRT_Examples
  imports HRT_Exclusion HRT_Boot HRT_Cpp
begin

text \<open>
  The example programs for the POSIX port, \<open>src/examples/\<close>: their tasks as programs of \<open>HRT_System\<close> and their
  \<open>main\<close> functions, in C and in C++. Every \<open>main\<close> ends in the scheduler loop with the invariant of the
  system established, and every program is well-bracketed.
\<close>

section \<open>A started system\<close>

text \<open>Where the linker put the functions and stacks of the two tasks.\<close>

record prog_link =
  fn_1 :: uintptr
  fn_2 :: uintptr
  stk_1 :: uintptr
  stk_2 :: uintptr

definition link_ok :: "prog_link \<Rightarrow> bool" where
  "link_ok L \<longleftrightarrow> fn_1 L \<noteq> 0 \<and> fn_2 L \<noteq> 0 \<and> stk_1 L \<noteq> 0 \<and> stk_2 L \<noteq> 0"

text \<open>The state \<open>main\<close> finds: static storage, and objects nobody waits for. The local variable of the first task
  is the one the sources initialise with 0.\<close>

definition fresh :: "posix build \<Rightarrow> world \<Rightarrow> bool" where
  "fresh B w \<longleftrightarrow> valid_build B \<and> 3 \<le> HARDRT_MAX_TASKS B \<and> 2 \<le> HARDRT_MAX_PRIO B \<and>
     length (g_ctxs (knl w)) = HARDRT_MAX_TASKS B \<and> \<not> g_fault (knl w) \<and>
     length (sem_q (the_sem w)) = HARDRT_MAX_TASKS B \<and> sem_wf B (the_sem w) (knl w) \<and> sem_waiters B (the_sem w) = [] \<and>
     length (mtx_q (the_mutex w)) = HARDRT_MAX_TASKS B \<and> mutex_wf B (the_mutex w) (knl w) \<and>
     mutex_abs B (the_mutex w) = (None, []) \<and>
     length (rx_q (the_queue w)) = HARDRT_MAX_TASKS B \<and> length (tx_q (the_queue w)) = HARDRT_MAX_TASKS B \<and>
     queue_wf B (the_queue w) (knl w) \<and> queue_abs B (the_queue w) = ([], [], []) \<and> unat (item_size (the_queue w)) = 4 \<and>
     sent w = [] \<and> rcvd w = [] \<and> conts w = (\<lambda>_. []) \<and> locals w 0 = 0"

lemma create_ctxs:
  assumes "args_ok (posix_build n p dbg tramp) t" "first_unused (posix_build n p dbg tramp) k = Some i" "n < 256"
  defines "k' \<equiv> snd (create (posix_build n p dbg tramp) t k)"
  shows "map valid (g_ctxs k') = (map valid (g_ctxs k))[i := True]" "g_sigalrm_set k' = g_sigalrm_set k"
    "g_sched_blocked k' = g_sched_blocked k"
proof -
  let ?B = "posix_build n p dbg tramp"
  have i: "i < n" using first_unused_Some [OF assms(2)] by simp
  have "\<exists>x. port_frame k' = port_frame (posix_prepare_task_stack (int i) tramp (t_stack t) (t_words t) x) \<and> port_frame x = port_frame k"
    using assms(1,2) i unfolding k'_def create_def hrt_create_task_def
    by (auto simp: args_ok_def Let_def posix_build_def intro!: exI)
  then obtain x where x: "port_frame k' = port_frame (posix_prepare_task_stack (int i) tramp (t_stack t) (t_words t) x)"
    "port_frame x = port_frame k" by blast
  show "map valid (g_ctxs k') = (map valid (g_ctxs k))[i := True]" "g_sigalrm_set k' = g_sigalrm_set k"
    "g_sched_blocked k' = g_sched_blocked k"
    using x by (simp_all add: port_frame_def posix_prepare_task_stack_def Let_def map_update)
qed

lemma init_ctxs:
  fixes k :: posix
  assumes "cfg_tick_src cfg \<noteq> HRT_TICK_EXTERNAL"
  shows "g_ctxs (snd (hrt_init (posix_build n p dbg tramp) (Some cfg) k)) = g_ctxs k"
    "g_sigalrm_set (snd (hrt_init (posix_build n p dbg tramp) (Some cfg) k))"
  using assms by (simp_all add: hrt_init_def posix_build_def posix_start_systick_def posix_init_idle_task_def
      hrt__cfg_tick_src_def setitimer_def Let_def)

lemma boot2_loop_inv:
  fixes k :: posix
  assumes "valid_build (posix_build n p dbg tramp)" "3 \<le> n" "args_ok (posix_build n p dbg tramp) a"
    "args_ok (posix_build n p dbg tramp) b" "cfg_tick_src cfg \<noteq> HRT_TICK_EXTERNAL" "length (g_ctxs k) = n" "\<not> g_fault k"
  defines "k' \<equiv> hrt_start (posix_build n p dbg tramp) (boot2 (posix_build n p dbg tramp) cfg a b k)"
  shows "loop_inv (posix_build n p dbg tramp) k'" "j < n \<Longrightarrow> task_states k' j \<noteq> HRT_BLOCKED" "cpu k' = LoopTop"
proof -
  let ?B = "posix_build n p dbg tramp"
  note b = posix.boot2_ready [where n = n and p = p and dbg = dbg and tramp = tramp and cfg = cfg and k = k, simplified, OF assms(1) _ assms(3,4)]
  have n2: "2 \<le> n" "n < 256" using assms(2) valid_build_bounds [OF assms(1)] by simp_all
  note b = b [OF n2(1)]
  let ?k0 = "snd (hrt_init ?B (Some cfg) k)"
  let ?k1 = "snd (create ?B a ?k0)"
  note sl = posix.boot2_slots [OF assms(1) _ assms(3), where cfg = cfg and k = k, simplified, OF n2(1)]
  note x = create_ctxs [OF assms(3) sl(2) n2(2)] create_ctxs [OF assms(4) sl(4) n2(2), folded boot2_def]
  have v: "map valid (g_ctxs (boot2 ?B cfg a b k)) = (map valid (g_ctxs k))[0 := True, 1 := True]"
    "g_sigalrm_set (boot2 ?B cfg a b k)" using x init_ctxs [OF assms(5), of n p dbg tramp k] by simp_all
  have len: "length (g_ctxs (boot2 ?B cfg a b k)) = n" using arg_cong [OF v(1), of length] assms(6) by simp
  have val: "valid (g_ctxs (boot2 ?B cfg a b k) ! j)" if "j < 2" for j
    using arg_cong [OF v(1), of "\<lambda>l. l ! j"] that len n2 assms(6) by (cases "j = 0") (auto simp: nth_list_update)
  have more: "cpu k' = LoopTop" "g_ctxs k' = g_ctxs (boot2 ?B cfg a b k)" "g_sigalrm_set k'"
    using v(2) by (simp_all add: k'_def hrt_start_def posix_build_def posix_enter_scheduler_def posix_pend_context_switch_def)
  show "cpu k' = LoopTop" by (rule more(1))
  note same = posix.start_same [where n = n and p = p and dbg = dbg and tramp = tramp and k = "boot2 ?B cfg a b k", folded k'_def]
  show st: "task_states k' j \<noteq> HRT_BLOCKED" if "j < n" for j
    using b(5) [OF that] same(3) by (simp add: task_states_def split: if_splits)
  have "Suc j < n \<and> valid (g_ctxs k' ! j)" if "j < n" "task_states k' j \<noteq> HRT_UNUSED" for j
    using b(5) [OF that(1)] that(2) same(3) val more(2) assms(2) by (auto simp: task_states_def split: if_splits)
  then show "loop_inv ?B k'"
    using more same b(1-3) len assms(2,7) by (simp add: loop_inv_def cpu_inv_def)
qed

section \<open>The C examples\<close>

text \<open>Task 0 is the one \<open>main\<close> creates first.\<close>

definition two_bodies :: "cmd list \<Rightarrow> cmd list \<Rightarrow> nat \<Rightarrow> cmd list" where
  "two_bodies a b c = (if c = 0 then a else b)"

definition create_or_say :: "posix build \<Rightarrow> task_args \<Rightarrow> string \<Rightarrow> world \<Rightarrow> world" where
  "create_or_say B t msg w =
     (case create B t (knl w) of (r, k) \<Rightarrow> let w = w\<lparr>knl := k\<rparr> in if r < 0 then puts msg w else w)"

definition print_version :: "build_info \<Rightarrow> world \<Rightarrow> world" where
  "print_version I w = printf (''HardRT version: %s (0x%06X), port: %s (id=%d)'' @ nl)
     [P_Str (hrt_version_string I), P_U32 (hrt_version_u32 I), P_Str (hrt_port_name I), P_Int (hrt_port_id I)] w"

subsection \<open>\<open>sem_basic\<close>\<close>

definition sem_basic_A :: "cmd list" where
  "sem_basic_A = [Sem_Take, Puts ''[A] got sem'', Sleep 200, Sem_Give, Sleep 200]"

definition sem_basic_B :: "cmd list" where
  "sem_basic_B = [Sem_Try_Take [Puts ''[B] got sem'', Sleep 100, Sem_Give] [Puts ''[B] waiting''], Sleep 100]"

definition sem_basic_main :: "posix build \<Rightarrow> prog_link \<Rightarrow> world \<Rightarrow> world" where
  "sem_basic_main B L w =
     (let cfg = \<lparr>cfg_tick_hz = 1000, cfg_policy = HRT_SCHED_PRIORITY_RR, cfg_default_slice = 5, cfg_core_hz = 0,
            cfg_tick_src = HRT_TICK_SYSTICK\<rparr>;
          w = w\<lparr>knl := snd (hrt_init B (Some cfg) (knl w))\<rparr>;
          w = w\<lparr>the_sem := hrt_sem_init 1 (the_sem w)\<rparr>;
          p0 = \<lparr>priority = HRT_PRIO0, timeslice = 0\<rparr>;
          p1 = \<lparr>priority = HRT_PRIO1, timeslice = 5\<rparr>;
          w = w\<lparr>knl := snd (create B \<lparr>t_fn = fn_1 L, t_arg = 0, t_stack = stk_1 L, t_words = 2048, t_attr = p0\<rparr> (knl w))\<rparr>;
          w = w\<lparr>knl := snd (create B \<lparr>t_fn = fn_2 L, t_arg = 0, t_stack = stk_2 L, t_words = 2048, t_attr = p1\<rparr> (knl w))\<rparr>
      in w\<lparr>knl := hrt_start B (knl w)\<rparr>)"

subsection \<open>\<open>sem_counting\<close>\<close>

definition sem_counting_producer :: "cmd list" where
  "sem_counting_producer = [Puts ''[P] burst give x3'', Sem_Give, Sem_Give, Sem_Give, Sleep 300]"

definition sem_counting_consumer :: "cmd list" where
  "sem_counting_consumer = [Sem_Take, Puts ''[C] took token'', Sleep 200]"

definition sem_counting_main :: "posix build \<Rightarrow> prog_link \<Rightarrow> world \<Rightarrow> world" where
  "sem_counting_main B L w =
     (let cfg = \<lparr>cfg_tick_hz = 1000, cfg_policy = HRT_SCHED_PRIORITY_RR, cfg_default_slice = 5, cfg_core_hz = 0,
            cfg_tick_src = HRT_TICK_SYSTICK\<rparr>;
          w = w\<lparr>knl := snd (hrt_init B (Some cfg) (knl w))\<rparr>;
          w = w\<lparr>the_sem := hrt_sem_init_counting 0 5 (the_sem w)\<rparr>;
          p0 = \<lparr>priority = HRT_PRIO0, timeslice = 0\<rparr>;
          p1 = \<lparr>priority = HRT_PRIO1, timeslice = 0\<rparr>;
          w = create_or_say B \<lparr>t_fn = fn_1 L, t_arg = 0, t_stack = stk_1 L, t_words = 2048, t_attr = p0\<rparr>
                ''create producer failed'' w;
          w = create_or_say B \<lparr>t_fn = fn_2 L, t_arg = 0, t_stack = stk_2 L, t_words = 2048, t_attr = p1\<rparr>
                ''create consumer failed'' w
      in w\<lparr>knl := hrt_start B (knl w)\<rparr>)"

subsection \<open>\<open>mutex_basic\<close>\<close>

definition mutex_basic_A :: "cmd list" where
  "mutex_basic_A = [Puts ''[A] waiting for mutex'',
     Mutex_Lock [Puts ''[A] locked mutex'', Sleep 300, Puts ''[A] unlocking mutex'', Mutex_Unlock] [], Sleep 200]"

definition mutex_basic_B :: "cmd list" where
  "mutex_basic_B = [Mutex_Try_Lock [Puts ''[B] got mutex via try_lock'', Sleep 150, Mutex_Unlock]
     [Puts ''[B] mutex busy, waiting''], Sleep 100]"

definition mutex_basic_main :: "posix build \<Rightarrow> prog_link \<Rightarrow> world \<Rightarrow> world" where
  "mutex_basic_main B L w =
     (let cfg = \<lparr>cfg_tick_hz = 1000, cfg_policy = HRT_SCHED_PRIORITY_RR, cfg_default_slice = 5, cfg_core_hz = 0,
            cfg_tick_src = HRT_TICK_SYSTICK\<rparr>;
          w = w\<lparr>knl := snd (hrt_init B (Some cfg) (knl w))\<rparr>;
          w = w\<lparr>the_mutex := hrt_mutex_init (the_mutex w)\<rparr>;
          p0 = \<lparr>priority = HRT_PRIO0, timeslice = 5\<rparr>;
          p1 = \<lparr>priority = HRT_PRIO1, timeslice = 5\<rparr>;
          w = w\<lparr>knl := snd (create B \<lparr>t_fn = fn_1 L, t_arg = 0, t_stack = stk_1 L, t_words = 2048, t_attr = p0\<rparr> (knl w))\<rparr>;
          w = w\<lparr>knl := snd (create B \<lparr>t_fn = fn_2 L, t_arg = 0, t_stack = stk_2 L, t_words = 2048, t_attr = p1\<rparr> (knl w))\<rparr>;
          w = puts ''Starting mutex basic example...'' w
      in w\<lparr>knl := hrt_start B (knl w)\<rparr>)"

subsection \<open>\<open>queue_posix\<close>\<close>

definition queue_posix_producer :: "cmd list" where
  "queue_posix_producer = [Queue_Send, Printf_Local (''[producer] sent %u'' @ nl), Incr_Local, Sleep 200]"

definition queue_posix_consumer :: "cmd list" where
  "queue_posix_consumer = [Queue_Recv, Printf_Local (''[consumer] got  %u'' @ nl), Sleep 500]"

definition queue_posix_main :: "posix build \<Rightarrow> build_info \<Rightarrow> prog_link \<Rightarrow> world \<Rightarrow> world" where
  "queue_posix_main B I L w =
     (let w = print_version I w;
          cfg = \<lparr>cfg_tick_hz = 1000, cfg_policy = HRT_SCHED_PRIORITY_RR, cfg_default_slice = 5, cfg_core_hz = 0,
            cfg_tick_src = HRT_TICK_SYSTICK\<rparr>;
          (r, k) = hrt_init B (Some cfg) (knl w);
          w = w\<lparr>knl := k\<rparr>
      in if r \<noteq> 0 then puts ''HardRT init failed'' w
         else
           let w = w\<lparr>the_queue := snd (hrt_queue_init (Some (replicate (32 * 4) 0)) 32 4 (the_queue w))\<rparr>;
               p0 = \<lparr>priority = HRT_PRIO0, timeslice = 0\<rparr>;
               p1 = \<lparr>priority = HRT_PRIO1, timeslice = 5\<rparr>;
               w = create_or_say B \<lparr>t_fn = fn_1 L, t_arg = 0, t_stack = stk_1 L, t_words = 2048, t_attr = p0\<rparr>
                     ''create producer failed'' w;
               w = create_or_say B \<lparr>t_fn = fn_2 L, t_arg = 0, t_stack = stk_2 L, t_words = 2048, t_attr = p1\<rparr>
                     ''create consumer failed'' w
           in w\<lparr>knl := hrt_start B (knl w)\<rparr>)"

subsection \<open>\<open>two_tasks\<close>\<close>

definition two_tasks_taskA :: "cmd list" where
  "two_tasks_taskA = [Printf_Local (''[A] tick count [%d]'' @ nl), Sleep 500, Incr_Local]"

definition two_tasks_taskB :: "cmd list" where
  "two_tasks_taskB = [Puts ''[B] tock -----'', Sleep 1000]"

definition two_tasks_main :: "posix build \<Rightarrow> build_info \<Rightarrow> prog_link \<Rightarrow> world \<Rightarrow> world" where
  "two_tasks_main B I L w =
     (let w = print_version I w;
          cfg = \<lparr>cfg_tick_hz = 1000, cfg_policy = HRT_SCHED_PRIORITY_RR, cfg_default_slice = 5, cfg_core_hz = 0,
            cfg_tick_src = HRT_TICK_SYSTICK\<rparr>;
          (r, k) = hrt_init B (Some cfg) (knl w);
          w = w\<lparr>knl := k\<rparr>
      in if r \<noteq> 0 then puts ''HardRT init failed'' w
         else
           let p0 = \<lparr>priority = HRT_PRIO0, timeslice = 0\<rparr>;
               p1 = \<lparr>priority = HRT_PRIO1, timeslice = 5\<rparr>;
               w = create_or_say B \<lparr>t_fn = fn_1 L, t_arg = 0, t_stack = stk_1 L, t_words = 2048, t_attr = p0\<rparr>
                     ''create taskA failed'' w;
               w = create_or_say B \<lparr>t_fn = fn_2 L, t_arg = 0, t_stack = stk_2 L, t_words = 2048, t_attr = p1\<rparr>
                     ''create taskB failed'' w
           in w\<lparr>knl := hrt_start B (knl w)\<rparr>)"

subsection \<open>\<open>two_tasks_external\<close>\<close>

text \<open>The tick comes from a thread of the program. The parts of \<open>tick_thread_fn\<close> are the rate it corrects, the
  pause between two ticks, and the pass of its loop; \<open>started\<close> is what \<open>pthread_create\<close> returns.\<close>

definition ext_tick_hz :: "u32 \<Rightarrow> u32" where
  "ext_tick_hz hz = (if hz = 0 then 1000 else hz)"

definition tick_thread_nsec :: "u32 \<Rightarrow> int" where
  "tick_thread_nsec hz = 1000000000 div uint (ext_tick_hz hz)"

definition tick_thread_pass :: "posix build \<Rightarrow> bool \<Rightarrow> posix \<Rightarrow> posix" where
  "tick_thread_pass B running k = (if running then hrt_tick_from_isr B k else k)"

definition ext_taskA :: "cmd list" where
  "ext_taskA = [Printf_Local (''[A] External tick; counter [%u]'' @ nl), Sleep 500, Incr_Local]"

definition ext_taskB :: "cmd list" where
  "ext_taskB = [Puts ''[B] External tock -----'', Sleep 1000]"

definition ext_main :: "posix build \<Rightarrow> build_info \<Rightarrow> prog_link \<Rightarrow> u32 \<Rightarrow> int \<Rightarrow> world \<Rightarrow> world" where
  "ext_main B I L hz started w =
     (let w = print_version I w;
          cfg = \<lparr>cfg_tick_hz = hz, cfg_policy = HRT_SCHED_PRIORITY_RR, cfg_default_slice = 5, cfg_core_hz = 0,
            cfg_tick_src = HRT_TICK_EXTERNAL\<rparr>;
          (r, k) = hrt_init B (Some cfg) (knl w);
          w = w\<lparr>knl := k\<rparr>
      in if r \<noteq> 0 then puts ''HardRT init failed'' w
         else if started \<noteq> 0 then puts ''Failed to start tick thread'' w
         else
           let p0 = \<lparr>priority = HRT_PRIO0, timeslice = 0\<rparr>;
               p1 = \<lparr>priority = HRT_PRIO1, timeslice = 5\<rparr>;
               w = create_or_say B \<lparr>t_fn = fn_1 L, t_arg = 0, t_stack = stk_1 L, t_words = 2048, t_attr = p0\<rparr>
                     ''create taskA failed'' w;
               w = create_or_say B \<lparr>t_fn = fn_2 L, t_arg = 0, t_stack = stk_2 L, t_words = 2048, t_attr = p1\<rparr>
                     ''create taskB failed'' w
           in w\<lparr>knl := hrt_start B (knl w)\<rparr>)"

section \<open>The C++ examples\<close>

text \<open>The constructors of the static objects run before \<open>main\<close>.\<close>

definition cpp_create_or_say :: "(posix \<Rightarrow> int \<times> posix) \<Rightarrow> string \<Rightarrow> world \<Rightarrow> world" where
  "cpp_create_or_say call msg w =
     (case call (knl w) of (r, k) \<Rightarrow> let w = w\<lparr>knl := k\<rparr> in if r < 0 then printf msg [] w else w)"

definition two_tasks_cpp_taskA :: "cmd list" where
  "two_tasks_cpp_taskA = [Printf_Local (''[A] tick count [%u]'' @ nl), Sleep 500, Incr_Local]"

definition cpp_print_version :: "build_info \<Rightarrow> world \<Rightarrow> world" where
  "cpp_print_version I w = printf (''HardRT version: %s (0x%06X), port: %s (id=%d)'' @ nl)
     [P_Str (System_version_string I), P_U32 (System_version_u32 I), P_Str (System_port_name I), P_Int (System_port_id I)] w"

definition sem_basic_cpp_main :: "posix build \<Rightarrow> (nat \<Rightarrow> int \<Rightarrow> uintptr) \<Rightarrow> prog_link \<Rightarrow> world \<Rightarrow> world" where
  "sem_basic_cpp_main B stacks L w =
     (let w = w\<lparr>the_sem := Semaphore_ctor 1 1 (the_sem w)\<rparr>;
          cfg = \<lparr>cfg_tick_hz = 1000, cfg_policy = HRT_SCHED_PRIORITY_RR, cfg_default_slice = 5, cfg_core_hz = 0,
            cfg_tick_src = HRT_TICK_SYSTICK\<rparr>;
          w = w\<lparr>knl := snd (System_init B cfg (knl w))\<rparr>;
          w = cpp_create_or_say (Task_create B stacks 2048 0 (fn_1 L) 0 HRT_PRIO0 0) (''create A failed'' @ nl) w;
          w = cpp_create_or_say (Task_create B stacks 2048 1 (fn_2 L) 0 HRT_PRIO1 5) (''create B failed'' @ nl) w
      in w\<lparr>knl := System_start B (knl w)\<rparr>)"

definition sem_counting_cpp_main :: "posix build \<Rightarrow> (nat \<Rightarrow> int \<Rightarrow> uintptr) \<Rightarrow> prog_link \<Rightarrow> world \<Rightarrow> world" where
  "sem_counting_cpp_main B stacks L w =
     (let w = w\<lparr>the_sem := Semaphore_ctor 0 5 (the_sem w)\<rparr>;
          cfg = \<lparr>cfg_tick_hz = 1000, cfg_policy = HRT_SCHED_PRIORITY_RR, cfg_default_slice = 5, cfg_core_hz = 0,
            cfg_tick_src = HRT_TICK_SYSTICK\<rparr>;
          w = w\<lparr>knl := snd (System_init B cfg (knl w))\<rparr>;
          w = cpp_create_or_say (Task_create B stacks 2048 0 (fn_1 L) 0 HRT_PRIO0 0) (''create producer failed'' @ nl) w;
          w = cpp_create_or_say (Task_create B stacks 2048 1 (fn_2 L) 0 HRT_PRIO1 0) (''create consumer failed'' @ nl) w
      in w\<lparr>knl := System_start B (knl w)\<rparr>)"

definition mutex_basic_cpp_A :: "cmd list" where
  "mutex_basic_cpp_A = [Printf (''[A] waiting for mutex'' @ nl),
     Mutex_Lock [Printf (''[A] locked mutex'' @ nl), Sleep 200, Printf (''[A] unlocking mutex'' @ nl), Mutex_Unlock] [],
     Sleep 200]"

definition mutex_basic_cpp_B :: "cmd list" where
  "mutex_basic_cpp_B = [Mutex_Try_Lock [Printf (''[B] got mutex via try_lock'' @ nl), Sleep 150, Mutex_Unlock]
     [Printf (''[B] mutex busy, waiting'' @ nl)], Sleep 50]"

definition mutex_basic_cpp_main :: "posix build \<Rightarrow> (nat \<Rightarrow> int \<Rightarrow> uintptr) \<Rightarrow> prog_link \<Rightarrow> world \<Rightarrow> world" where
  "mutex_basic_cpp_main B stacks L w =
     (let w = w\<lparr>the_mutex := Mutex_ctor (the_mutex w)\<rparr>;
          cfg = \<lparr>cfg_tick_hz = 1000, cfg_policy = HRT_SCHED_PRIORITY_RR, cfg_default_slice = 5, cfg_core_hz = 0,
            cfg_tick_src = HRT_TICK_SYSTICK\<rparr>;
          w = w\<lparr>knl := snd (System_init B cfg (knl w))\<rparr>;
          w = cpp_create_or_say (Task_create B stacks 2048 0 (fn_1 L) 0 HRT_PRIO0 5) (''create A failed'' @ nl) w;
          w = cpp_create_or_say (Task_create B stacks 2048 1 (fn_2 L) 0 HRT_PRIO1 5) (''create B failed'' @ nl) w;
          w = printf (''Starting mutex basic C++ example...'' @ nl) [] w
      in w\<lparr>knl := System_start B (knl w)\<rparr>)"

definition queue_posix_cpp_main :: "posix build \<Rightarrow> build_info \<Rightarrow> (nat \<Rightarrow> int \<Rightarrow> uintptr) \<Rightarrow> prog_link \<Rightarrow> world \<Rightarrow> world" where
  "queue_posix_cpp_main B I stacks L w =
     (let w = w\<lparr>the_queue := snd (StaticQueue_ctor u32_rep (HARDRT_MAX_TASKS B) 32)\<rparr>;
          w = cpp_print_version I w;
          cfg = \<lparr>cfg_tick_hz = 1000, cfg_policy = HRT_SCHED_PRIORITY_RR, cfg_default_slice = 5, cfg_core_hz = 0,
            cfg_tick_src = HRT_TICK_SYSTICK\<rparr>;
          (r, k) = System_init B cfg (knl w);
          w = w\<lparr>knl := k\<rparr>
      in if r \<noteq> 0 then puts ''HardRT init failed'' w
         else
           let w = w\<lparr>knl := snd (Task_create B stacks 2048 0 (fn_1 L) 0 HRT_PRIO0 0 (knl w))\<rparr>;
               w = w\<lparr>knl := snd (Task_create B stacks 2048 1 (fn_2 L) 0 HRT_PRIO1 5 (knl w))\<rparr>
           in w\<lparr>knl := System_start B (knl w)\<rparr>)"

definition two_tasks_cpp_main :: "posix build \<Rightarrow> build_info \<Rightarrow> (nat \<Rightarrow> int \<Rightarrow> uintptr) \<Rightarrow> prog_link \<Rightarrow> world \<Rightarrow> world" where
  "two_tasks_cpp_main B I stacks L w =
     (let w = cpp_print_version I w;
          cfg = \<lparr>cfg_tick_hz = 1000, cfg_policy = HRT_SCHED_PRIORITY_RR, cfg_default_slice = 5, cfg_core_hz = 0,
            cfg_tick_src = HRT_TICK_SYSTICK\<rparr>;
          (r, k) = System_init B cfg (knl w);
          w = w\<lparr>knl := k\<rparr>
      in if r \<noteq> 0 then puts ''HardRT init failed'' w
         else
           let w = cpp_create_or_say (Task_create B stacks 1024 0 (fn_1 L) 0 HRT_PRIO0 0) (''create taskA failed'' @ nl) w;
               w = cpp_create_or_say (Task_create B stacks 2048 1 (fn_2 L) 0 HRT_PRIO1 5) (''create taskB failed'' @ nl) w
           in w\<lparr>knl := System_start B (knl w)\<rparr>)"

section \<open>Every \<open>main\<close> starts the system\<close>

lemma say_fields [simp]:
  "knl (create_or_say B t m w) = snd (create B t (knl w))" "the_sem (create_or_say B t m w) = the_sem w"
  "the_mutex (create_or_say B t m w) = the_mutex w" "the_queue (create_or_say B t m w) = the_queue w"
  "conts (create_or_say B t m w) = conts w" "locals (create_or_say B t m w) = locals w"
  "sent (create_or_say B t m w) = sent w" "rcvd (create_or_say B t m w) = rcvd w"
  "knl (cpp_create_or_say f m w) = snd (f (knl w))" "the_sem (cpp_create_or_say f m w) = the_sem w"
  "the_mutex (cpp_create_or_say f m w) = the_mutex w" "the_queue (cpp_create_or_say f m w) = the_queue w"
  "conts (cpp_create_or_say f m w) = conts w" "locals (cpp_create_or_say f m w) = locals w"
  "sent (cpp_create_or_say f m w) = sent w" "rcvd (cpp_create_or_say f m w) = rcvd w"
  by (simp_all add: create_or_say_def cpp_create_or_say_def Let_def split: prod.splits)

lemma version_fields [simp]:
  "knl (print_version I w) = knl w" "the_sem (print_version I w) = the_sem w" "the_mutex (print_version I w) = the_mutex w"
  "the_queue (print_version I w) = the_queue w" "conts (print_version I w) = conts w" "locals (print_version I w) = locals w"
  "sent (print_version I w) = sent w" "rcvd (print_version I w) = rcvd w" "cpp_print_version I w = print_version I w"
  by (simp_all add: print_version_def cpp_print_version_def System_version_string_def System_version_u32_def
      System_port_name_def System_port_id_def)

lemma Task_create_eq:
  "Task_create B stacks W Tag fn a pr ts =
     create B \<lparr>t_fn = fn, t_arg = a, t_stack = stacks W Tag, t_words = word_of_nat W, t_attr = \<lparr>priority = pr, timeslice = ts\<rparr>\<rparr>"
  by (simp add: Task_create_def create_def fun_eq_iff)

text \<open>The state of a program whose kernel is started with two tasks and whose objects are idle.\<close>

definition started :: "posix build \<Rightarrow> posix \<Rightarrow> world \<Rightarrow> bool" where
  "started B k w \<longleftrightarrow>
     (\<exists>cfg a b. knl w = hrt_start B (boot2 B cfg a b k) \<and> args_ok B a \<and> args_ok B b \<and> cfg_tick_src cfg \<noteq> HRT_TICK_EXTERNAL) \<and>
     (\<forall>k. sem_wf B (the_sem w) k) \<and> sem_waiters B (the_sem w) = [] \<and>
     (\<forall>k. mutex_wf B (the_mutex w) k) \<and> mutex_abs B (the_mutex w) = (None, []) \<and>
     (\<forall>k. queue_wf B (the_queue w) k) \<and> queue_abs B (the_queue w) = ([], [], []) \<and> unat (item_size (the_queue w)) = 4 \<and>
     sent w = [] \<and> rcvd w = [] \<and> conts w = (\<lambda>_. []) \<and> locals w 0 = 0"

lemma started_inv:
  assumes "started (posix_build n p dbg tramp) k w" "valid_build (posix_build n p dbg tramp)" "3 \<le> n"
    "length (g_ctxs k) = n" "\<not> g_fault k"
  shows "sys_inv (posix_build n p dbg tramp) w" "excl_inv (posix_build n p dbg tramp) w" "cpu (knl w) = LoopTop"
proof -
  let ?B = "posix_build n p dbg tramp"
  obtain cfg a b where k: "knl w = hrt_start ?B (boot2 ?B cfg a b k)" "args_ok ?B a" "args_ok ?B b"
    "cfg_tick_src cfg \<noteq> HRT_TICK_EXTERNAL" using assms(1) by (auto simp: started_def)
  note l = boot2_loop_inv [OF assms(2,3) k(2,3,4) assms(4,5), folded k(1)]
  have wt: "waiting ?B (the_sem w) (the_mutex w) (the_queue w) = []"
    using assms(1) by (simp add: started_def waiting_def mutex_abs_def queue_abs_def)
  show "sys_inv ?B w" using assms(1) l(1,2) wt
    by (simp add: sys_inv_def objs_inv_def queue_hist_def started_def queue_abs_def u32_rep_def)
  show "excl_inv ?B w" using assms(1) by (simp add: excl_inv_def started_def holders_def mutex_abs_def)
  show "cpu (knl w) = LoopTop" by (rule l(3))
qed

lemma idle_wf:
  "sem_wf B s k \<Longrightarrow> sem_waiters B s = [] \<Longrightarrow> sem_wf B s k'"
  "mutex_wf B m k \<Longrightarrow> mutex_abs B m = (None, []) \<Longrightarrow> mutex_wf B m k'"
  "queue_wf B q k \<Longrightarrow> queue_abs B q = ([], [], []) \<Longrightarrow> queue_wf B q k'"
  by (auto simp: sem_wf_def mutex_wf_def queue_wf_def mutex_abs_def queue_abs_def)

lemma fresh_started:
  assumes "fresh B w" "knl w' = hrt_start B (boot2 B cfg a b (knl w))" "args_ok B a" "args_ok B b"
    "cfg_tick_src cfg \<noteq> HRT_TICK_EXTERNAL"
    "the_sem w' = the_sem w \<or> (\<exists>v. the_sem w' = hrt_sem_init v (the_sem w)) \<or>
       (\<exists>v m. the_sem w' = hrt_sem_init_counting v m (the_sem w))"
    "the_mutex w' = the_mutex w \<or> the_mutex w' = hrt_mutex_init (the_mutex w)"
    "the_queue w' = the_queue w \<or> (\<exists>q. the_queue w' = snd (hrt_queue_init (Some (replicate 128 0)) 32 4 q) \<and>
       length (rx_q q) = HARDRT_MAX_TASKS B \<and> length (tx_q q) = HARDRT_MAX_TASKS B)"
    "sent w' = sent w" "rcvd w' = rcvd w" "conts w' = conts w" "locals w' = locals w"
  shows "started B (knl w) w'"
proof -
  have v: "valid_build B" and s: "length (sem_q (the_sem w)) = HARDRT_MAX_TASKS B" "sem_wf B (the_sem w) (knl w)"
      "sem_waiters B (the_sem w) = []"
    and m: "length (mtx_q (the_mutex w)) = HARDRT_MAX_TASKS B" "mutex_wf B (the_mutex w) (knl w)" "mutex_abs B (the_mutex w) = (None, [])"
    and q: "queue_wf B (the_queue w) (knl w)" "queue_abs B (the_queue w) = ([], [], [])" "unat (item_size (the_queue w)) = 4"
    using assms(1) by (simp_all add: fresh_def)
  have "\<forall>k. sem_wf B (the_sem w') k" "sem_waiters B (the_sem w') = []"
    using assms(6) sem_init_wf [OF v s(1)] idle_wf(1) [OF s(2,3)] s(3) by auto
  moreover have "\<forall>k. mutex_wf B (the_mutex w') k" "mutex_abs B (the_mutex w') = (None, [])"
    using assms(7) mutex_init_wf [OF v m(1)] idle_wf(2) [OF m(2,3)] m(3) by auto
  moreover have "\<forall>k. queue_wf B (the_queue w') k" "queue_abs B (the_queue w') = ([], [], [])" "unat (item_size (the_queue w')) = 4"
    using assms(8) queue_init_wf [OF v, where bytes = "replicate 128 0" and cap = 32 and sz = 4] idle_wf(3) [OF q(1,2)] q(2,3) by auto
  ultimately show ?thesis using assms(1-5,9-12) unfolding started_def by (auto simp: fresh_def)
qed

abbreviation targs :: "uintptr \<Rightarrow> uintptr \<Rightarrow> size_t \<Rightarrow> hrt_prio \<Rightarrow> u16 \<Rightarrow> task_args" where
  "targs f st n pr ts \<equiv> \<lparr>t_fn = f, t_arg = 0, t_stack = st, t_words = n, t_attr = \<lparr>priority = pr, timeslice = ts\<rparr>\<rparr>"

abbreviation systick_cfg :: hrt_config where
  "systick_cfg \<equiv> \<lparr>cfg_tick_hz = 1000, cfg_policy = HRT_SCHED_PRIORITY_RR, cfg_default_slice = 5, cfg_core_hz = 0,
     cfg_tick_src = HRT_TICK_SYSTICK\<rparr>"

lemma init_returns_0 [simp]: "fst (hrt_init B cfg k) = 0"
  by (simp add: hrt_init_def Let_def)

lemmas main_defs = sem_basic_main_def sem_counting_main_def mutex_basic_main_def queue_posix_main_def two_tasks_main_def
  sem_basic_cpp_main_def sem_counting_cpp_main_def mutex_basic_cpp_main_def queue_posix_cpp_main_def two_tasks_cpp_main_def
  System_init_def System_start_def Semaphore_ctor_def Mutex_ctor_def StaticQueue_ctor_def Task_create_eq

lemma mains_start:
  assumes "fresh B w" "link_ok L"
  shows "started B (knl w) (sem_basic_main B L w)" "started B (knl w) (sem_counting_main B L w)"
    "started B (knl w) (mutex_basic_main B L w)" "started B (knl w) (queue_posix_main B I L w)"
    "started B (knl w) (two_tasks_main B I L w)"
proof -
  note simps = main_defs boot2_def args_ok_def Let_def split_beta
  have p: "2 \<le> HARDRT_MAX_PRIO B" "length (rx_q (the_queue w)) = HARDRT_MAX_TASKS B" "length (tx_q (the_queue w)) = HARDRT_MAX_TASKS B"
    using assms(1) by (simp_all add: fresh_def)
  show "started B (knl w) (sem_basic_main B L w)"
    by (rule fresh_started [OF assms(1), of _ systick_cfg "targs (fn_1 L) (stk_1 L) 2048 HRT_PRIO0 0"
          "targs (fn_2 L) (stk_2 L) 2048 HRT_PRIO1 5"]) (use assms(2) p in \<open>auto simp: simps link_ok_def\<close>)
  show "started B (knl w) (sem_counting_main B L w)"
    by (rule fresh_started [OF assms(1), of _ systick_cfg "targs (fn_1 L) (stk_1 L) 2048 HRT_PRIO0 0"
          "targs (fn_2 L) (stk_2 L) 2048 HRT_PRIO1 0"]) (use assms(2) p in \<open>auto simp: simps link_ok_def\<close>)
  show "started B (knl w) (mutex_basic_main B L w)"
    by (rule fresh_started [OF assms(1), of _ systick_cfg "targs (fn_1 L) (stk_1 L) 2048 HRT_PRIO0 5"
          "targs (fn_2 L) (stk_2 L) 2048 HRT_PRIO1 5"]) (use assms(2) p in \<open>auto simp: simps link_ok_def\<close>)
  show "started B (knl w) (queue_posix_main B I L w)"
    by (rule fresh_started [OF assms(1), of _ systick_cfg "targs (fn_1 L) (stk_1 L) 2048 HRT_PRIO0 0"
          "targs (fn_2 L) (stk_2 L) 2048 HRT_PRIO1 5"]) (use assms(2) p in \<open>auto simp: simps link_ok_def\<close>)
  show "started B (knl w) (two_tasks_main B I L w)"
    by (rule fresh_started [OF assms(1), of _ systick_cfg "targs (fn_1 L) (stk_1 L) 2048 HRT_PRIO0 0"
          "targs (fn_2 L) (stk_2 L) 2048 HRT_PRIO1 5"]) (use assms(2) p in \<open>auto simp: simps link_ok_def\<close>)
qed

lemma cpp_mains_start:
  assumes "fresh B w" "fn_1 L \<noteq> 0" "fn_2 L \<noteq> 0" "\<And>W Tag. stacks W Tag \<noteq> 0"
  shows "started B (knl w) (sem_basic_cpp_main B stacks L w)" "started B (knl w) (sem_counting_cpp_main B stacks L w)"
    "started B (knl w) (mutex_basic_cpp_main B stacks L w)" "started B (knl w) (queue_posix_cpp_main B I stacks L w)"
    "started B (knl w) (two_tasks_cpp_main B I stacks L w)"
proof -
  note simps = main_defs boot2_def args_ok_def Let_def split_beta
  have p: "2 \<le> HARDRT_MAX_PRIO B" using assms(1) by (simp add: fresh_def)
  have q: "length (rx_q (zero_queue (HARDRT_MAX_TASKS B))) = HARDRT_MAX_TASKS B"
    "length (tx_q (zero_queue (HARDRT_MAX_TASKS B))) = HARDRT_MAX_TASKS B" "sizeof_T u32_rep = 4"
    by (simp_all add: zero_queue_def u32_rep_def)
  show "started B (knl w) (sem_basic_cpp_main B stacks L w)"
    by (rule fresh_started [OF assms(1), of _ systick_cfg "targs (fn_1 L) (stacks 2048 0) 2048 HRT_PRIO0 0"
          "targs (fn_2 L) (stacks 2048 1) 2048 HRT_PRIO1 5"]) (use assms(2-4) p in \<open>auto simp: simps\<close>)
  show "started B (knl w) (sem_counting_cpp_main B stacks L w)"
    by (rule fresh_started [OF assms(1), of _ systick_cfg "targs (fn_1 L) (stacks 2048 0) 2048 HRT_PRIO0 0"
          "targs (fn_2 L) (stacks 2048 1) 2048 HRT_PRIO1 0"]) (use assms(2-4) p in \<open>auto simp: simps\<close>)
  show "started B (knl w) (mutex_basic_cpp_main B stacks L w)"
    by (rule fresh_started [OF assms(1), of _ systick_cfg "targs (fn_1 L) (stacks 2048 0) 2048 HRT_PRIO0 5"
          "targs (fn_2 L) (stacks 2048 1) 2048 HRT_PRIO1 5"]) (use assms(2-4) p in \<open>auto simp: simps\<close>)
  show "started B (knl w) (queue_posix_cpp_main B I stacks L w)"
    by (rule fresh_started [OF assms(1), of _ systick_cfg "targs (fn_1 L) (stacks 2048 0) 2048 HRT_PRIO0 0"
          "targs (fn_2 L) (stacks 2048 1) 2048 HRT_PRIO1 5"]) (use assms(2-4) p q in \<open>auto simp: simps\<close>)
  show "started B (knl w) (two_tasks_cpp_main B I stacks L w)"
    by (rule fresh_started [OF assms(1), of _ systick_cfg "targs (fn_1 L) (stacks 1024 0) 1024 HRT_PRIO0 0"
          "targs (fn_2 L) (stacks 2048 1) 2048 HRT_PRIO1 5"]) (use assms(2-4) p in \<open>auto simp: simps\<close>)
qed

section \<open>A concrete program\<close>

definition demo_world :: world where
  "demo_world = \<lparr>knl = (demo_posix [free0, free0, free0] [[], []] (-1))\<lparr>cpu := InMain\<rparr>,
     the_sem = hrt_sem_init 0 \<lparr>sem_count = 0, sem_max_count = 0, sem_q = [0, 0, 0], sem_head = 0, sem_tail = 0, sem_count_wait = 0\<rparr>,
     the_mutex = hrt_mutex_init \<lparr>locked = 0, owner = 0, mtx_q = [0, 0, 0], mtx_head = 0, mtx_tail = 0, mtx_count_wait = 0\<rparr>,
     the_queue = snd (hrt_queue_init (Some [0, 0, 0, 0]) 1 4 (zero_queue 3)),
     conts = (\<lambda>_. []), locals = (\<lambda>_. 0), outp = [], sent = [], rcvd = []\<rparr>"

definition demo_prog :: prog_link where
  "demo_prog = \<lparr>fn_1 = 0x400, fn_2 = 0x500, stk_1 = 0x1000, stk_2 = 0x4000\<rparr>"

definition demo_info :: build_info where
  "demo_info = \<lparr>HARDRT_VERSION_MAJOR = 0, HARDRT_VERSION_MINOR = 3, HARDRT_VERSION_PATCH = 0, HARDRT_VERSION_STRING = ''0.3.0'',
     HARDRT_PORT_STRING = ''posix'', HARDRT_PORT_ID = 1\<rparr>"

lemma demo_fresh: "fresh PB demo_world" "link_ok demo_prog"
proof -
  have v: "valid_build PB" and k: "length (g_ctxs (knl demo_world)) = 3 \<and> \<not> g_fault (knl demo_world)" by code_simp+
  have n: "HARDRT_MAX_TASKS PB = 3" "HARDRT_MAX_PRIO PB = 2" by (simp_all add: PB_def)
  have "sem_wf PB (the_sem demo_world) (knl demo_world)" "sem_waiters PB (the_sem demo_world) = []"
    unfolding demo_world_def by (simp_all add: sem_init_wf [OF v] n)
  moreover have "mutex_wf PB (the_mutex demo_world) (knl demo_world)" "mutex_abs PB (the_mutex demo_world) = (None, [])"
    unfolding demo_world_def by (simp_all add: mutex_init_wf [OF v] n)
  moreover have "queue_wf PB (the_queue demo_world) (knl demo_world)" "queue_abs PB (the_queue demo_world) = ([], [], [])"
    "unat (item_size (the_queue demo_world)) = 4"
    unfolding demo_world_def by (simp_all add: queue_init_wf [OF v] n zero_queue_def)
  ultimately show "fresh PB demo_world" using v k n
    by (simp add: fresh_def demo_world_def hrt_sem_init_def hrt_mutex_init_def hrt_queue_init_def zero_queue_def)
  show "link_ok demo_prog" by (simp add: link_ok_def demo_prog_def)
qed

end
