(* ===== verification/HRT_System_Props.thy ===== *)
theory HRT_System_Props
  imports HRT_Examples "HOL-Library.Sublist"
begin

text \<open>
  The properties of whole programs on the POSIX port: of the step relation of \<open>HRT_System\<close>, and of the examples
  of \<open>src/examples/\<close> run by it.
\<close>

section \<open>The queue example\<close>

abbreviation "queue_bodies \<equiv> two_bodies queue_posix_producer queue_posix_consumer"

text \<open>The producer has sent 0, 1, 2, ... and its variable is the next one, except between its
  \<open>hrt_queue_send\<close> and its \<open>v++\<close>.\<close>

definition sent_pending :: "cmd list \<Rightarrow> u32" where
  "sent_pending cs = (if Incr_Local \<in> set cs \<and> Queue_Send \<notin> set cs then 1 else 0)"

definition prod_inv :: "world \<Rightarrow> bool" where
  "prod_inv w \<longleftrightarrow> suffix (conts w 0) queue_posix_producer \<and> (\<forall>c. c \<noteq> 0 \<longrightarrow> suffix (conts w c) queue_posix_consumer) \<and>
     locals w 0 + sent_pending (conts w 0) = word_of_nat (length (sent w)) \<and>
     sent w = map word_of_nat [0..<length (sent w)]"








lemma prod_inv_knl [simp]: "prod_inv (w\<lparr>knl := k\<rparr>) = prod_inv w"
  by (simp add: prod_inv_def)






section \<open>Mutual exclusion\<close>


abbreviation "mutex_bodies \<equiv> two_bodies mutex_basic_A mutex_basic_B"



section \<open>Where each task is\<close>





section \<open>The start of the examples\<close>





end
