(* ===== verification/HRT_Board.thy ===== *)
theory HRT_Board
  imports HRT_Boot
begin

text \<open>
  The programs for the STM32H755 board: \<open>SystemInit\<close>, which resets the clocks, \<open>hold_cm4\<close>, the set-up of
  the LEDs, the tasks and main functions of \<open>hardrt_h755_demo\<close> and \<open>hardrt_h755_blinky\<close>, and the heap
  break \<open>_sbrk\<close>. The vendor headers are not part of the repository: the addresses of the registers they
  name, their bit masks and the NVIC functions are a parameter. A register holds the value last written
  to it.
\<close>

unbundle bit_operations_syntax

section \<open>Registers\<close>

datatype reg =
    SCB_CPACR | SCB_SCR | SCB_VTOR | RCC_CR | RCC_CFGR | RCC_D1CFGR | RCC_D2CFGR | RCC_D3CFGR
  | RCC_PLLCKSELR | RCC_PLLCFGR | RCC_PLL1DIVR | RCC_PLL1FRACR | RCC_PLL2DIVR | RCC_PLL2FRACR
  | RCC_PLL3DIVR | RCC_PLL3FRACR | RCC_CIER | EXTI_D2_EMR3 | DBGMCU_IDCODE | FMC_BTCR0
  | RCC_AHB4ENR | GPIOB_MODER | GPIOB_OTYPER | GPIOB_ODR | GPIOE_MODER | GPIOE_OTYPER | GPIOE_ODR
  | RCC_APB1LENR | RCC_APB1LRSTR
  | TIM2_PSC | TIM2_ARR | TIM2_EGR | TIM2_SR | TIM2_DIER | TIM2_CR1
  | TIM3_PSC | TIM3_ARR | TIM3_EGR | TIM3_SR | TIM3_DIER | TIM3_CR1

datatype mask =
    SCB_SCR_SEVONPEND_Msk | RCC_CR_HSION | FLASH_BANK1_BASE | FLASH_BANK2_BASE | RCC_AHB4ENR_GPIOBEN | RCC_AHB4ENR_GPIOEEN
  | RCC_APB1LENR_TIM2EN | RCC_APB1LRSTR_TIM2RST | RCC_APB1LENR_TIM3EN | RCC_APB1LRSTR_TIM3RST
  | TIM_EGR_UG | TIM_DIER_UIE | TIM_CR1_CEN | TIM_SR_UIF

datatype irq = TIM2_IRQn | TIM3_IRQn

type_synonym bus = "u32 \<Rightarrow> u32"

record cmsis =
  adr :: "reg \<Rightarrow> u32"
  msk :: "mask \<Rightarrow> u32"
  fpu_used :: bool
  core_cm7 :: bool
  NVIC_SetPriority :: "irq \<Rightarrow> u32 \<Rightarrow> bus \<Rightarrow> bus"
  NVIC_ClearPendingIRQ :: "irq \<Rightarrow> bus \<Rightarrow> bus"
  NVIC_EnableIRQ :: "irq \<Rightarrow> bus \<Rightarrow> bus"

definition rd :: "cmsis \<Rightarrow> reg \<Rightarrow> bus \<Rightarrow> u32" where
  "rd C r m = m (adr C r)"

definition wr :: "cmsis \<Rightarrow> reg \<Rightarrow> u32 \<Rightarrow> bus \<Rightarrow> bus" where
  "wr C r v m = m(adr C r := v)"

definition set_bits :: "cmsis \<Rightarrow> reg \<Rightarrow> u32 \<Rightarrow> bus \<Rightarrow> bus" where
  "set_bits C r v m = wr C r (rd C r m OR v) m"

definition and_bits :: "cmsis \<Rightarrow> reg \<Rightarrow> u32 \<Rightarrow> bus \<Rightarrow> bus" where
  "and_bits C r v m = wr C r (rd C r m AND v) m"

definition VECT_TAB_OFFSET :: u32 where "VECT_TAB_OFFSET = 0"

section \<open>SystemInit and hold\_cm4\<close>

text \<open>The clocks are reset by the core M7 only; each core has its own vector table in flash.\<close>

definition reset_clocks :: "cmsis \<Rightarrow> bus \<Rightarrow> bus" where
  "reset_clocks C m =
     (let m = set_bits C RCC_CR (msk C RCC_CR_HSION) m;
          m = wr C RCC_CFGR 0 m;
          m = and_bits C RCC_CR 0xEAF6ED7F m;
          m = wr C RCC_D1CFGR 0 m;
          m = wr C RCC_D2CFGR 0 m;
          m = wr C RCC_D3CFGR 0 m;
          m = wr C RCC_PLLCKSELR 0 m;
          m = wr C RCC_PLLCFGR 0 m;
          m = wr C RCC_PLL1DIVR 0 m;
          m = wr C RCC_PLL1FRACR 0 m;
          m = wr C RCC_PLL2DIVR 0 m;
          m = wr C RCC_PLL2FRACR 0 m;
          m = wr C RCC_PLL3DIVR 0 m;
          m = wr C RCC_PLL3FRACR 0 m;
          m = and_bits C RCC_CR 0xFFFBFFFF m;
          m = wr C RCC_CIER 0 m;
          m = set_bits C EXTI_D2_EMR3 0x4000 m
      in if rd C DBGMCU_IDCODE m AND 0xFFFF0000 < 0x20000000 then m(0x51008108 := 1) else m)"

definition SystemInit :: "cmsis \<Rightarrow> bus \<Rightarrow> bus" where
  "SystemInit C m =
     (let m = (if fpu_used C then set_bits C SCB_CPACR (push_bit (10 * 2) 3 OR push_bit (11 * 2) 3) m else m);
          m = set_bits C SCB_SCR (msk C SCB_SCR_SEVONPEND_Msk) m
      in if core_cm7 C
         then wr C SCB_VTOR (msk C FLASH_BANK1_BASE OR VECT_TAB_OFFSET) (wr C FMC_BTCR0 0x000030D2 (reset_clocks C m))
         else wr C SCB_VTOR (msk C FLASH_BANK2_BASE OR VECT_TAB_OFFSET) m)"

definition RCC_BASE_NEW :: u32 where "RCC_BASE_NEW = 0x58024400"

definition hold_cm4 :: "bus \<Rightarrow> bus" where
  "hold_cm4 m =
     (let m = m(RCC_BASE_NEW + 0 := m (RCC_BASE_NEW + 0) AND NOT 1)
      in m(RCC_BASE_NEW + 8 := 1))"

section \<open>hardrt\_h755\_blinky\<close>

definition LED1_PIN :: nat where "LED1_PIN = 0"

definition LED2_PIN :: nat where "LED2_PIN = 1"

definition gpio_init :: "cmsis \<Rightarrow> bus \<Rightarrow> bus" where
  "gpio_init C m =
     (let m = set_bits C RCC_AHB4ENR (msk C RCC_AHB4ENR_GPIOBEN OR msk C RCC_AHB4ENR_GPIOEEN) m;
          m = and_bits C GPIOB_MODER (NOT (push_bit (LED1_PIN * 2) 3)) m;
          m = set_bits C GPIOB_MODER (push_bit (LED1_PIN * 2) 1) m;
          m = and_bits C GPIOB_OTYPER (NOT (push_bit LED1_PIN 1)) m;
          m = and_bits C GPIOE_MODER (NOT (push_bit (LED2_PIN * 2) 3)) m;
          m = set_bits C GPIOE_MODER (push_bit (LED2_PIN * 2) 1) m
      in and_bits C GPIOE_OTYPER (NOT (push_bit LED2_PIN 1)) m)"

text \<open>One turn of the loop of each task, up to its call of \<open>hrt_sleep\<close>.\<close>

definition blinky_TaskA :: "cmsis \<Rightarrow> cortexm build \<Rightarrow> bus \<times> cortexm \<Rightarrow> bus \<times> cortexm" where
  "blinky_TaskA C B s =
     (case s of (m, k) \<Rightarrow> (wr C GPIOB_ODR (rd C GPIOB_ODR m XOR push_bit LED1_PIN 1) m, snd (hrt_sleep B 250 k)))"

definition blinky_TaskB :: "cmsis \<Rightarrow> cortexm build \<Rightarrow> bus \<times> cortexm \<Rightarrow> bus \<times> cortexm" where
  "blinky_TaskB C B s =
     (case s of (m, k) \<Rightarrow> (wr C GPIOE_ODR (rd C GPIOE_ODR m XOR push_bit LED2_PIN 1) m, snd (hrt_sleep B 500 k)))"

text \<open>Addresses of the tasks and of their stacks, from the linker.\<close>

record task_syms =
  fn_A :: uintptr
  fn_B :: uintptr
  stack_A :: uintptr
  stack_B :: uintptr

definition board_config :: "cm_link \<Rightarrow> hrt_config" where
  "board_config L = \<lparr>cfg_tick_hz = 1000, cfg_policy = HRT_SCHED_PRIORITY_RR, cfg_default_slice = 5,
     cfg_core_hz = SystemCoreClock L, cfg_tick_src = HRT_TICK_SYSTICK\<rparr>"

definition blinky_main :: "cmsis \<Rightarrow> cm_link \<Rightarrow> task_syms \<Rightarrow> cortexm build \<Rightarrow> bus \<times> cortexm \<Rightarrow> bus \<times> cortexm" where
  "blinky_main C L S B s =
     (case s of (m, k) \<Rightarrow>
        let m = SystemInit C m;
            m = hold_cm4 m;
            m = gpio_init C m;
            k = snd (hrt_init B (Some (board_config L)) k);
            tA = \<lparr>priority = HRT_PRIO0, timeslice = 5\<rparr>;
            tB = \<lparr>priority = HRT_PRIO1, timeslice = 5\<rparr>;
            k = snd (hrt_create_task B (fn_A S) 0 (stack_A S) 512 (Some tA) k);
            k = snd (hrt_create_task B (fn_B S) 0 (stack_B S) 512 (Some tB) k)
        in (m, hrt_start B k))"

section \<open>hardrt\_h755\_demo\<close>

record demo_counters =
  dbg_counterA :: u32
  dbg_counterB :: u32
  dbg_exit_counterA :: u32
  dbg_exit_counterB :: u32

text \<open>The loop of each task is cut at its call of \<open>hrt_sleep\<close>: the flag tells whether the task is entered for
  the first time or resumes from the call.\<close>

definition demo_TaskA :: "cortexm build \<Rightarrow> bool \<Rightarrow> demo_counters \<times> cortexm \<Rightarrow> demo_counters \<times> cortexm" where
  "demo_TaskA B resumed s =
     (case s of (d, k) \<Rightarrow>
        let d = (if resumed then d\<lparr>dbg_exit_counterA := dbg_exit_counterA d + 1\<rparr> else d);
            d = d\<lparr>dbg_counterA := dbg_counterA d + 1\<rparr>
        in (d, snd (hrt_sleep B 500 k)))"

definition demo_TaskB :: "cortexm build \<Rightarrow> bool \<Rightarrow> demo_counters \<times> cortexm \<Rightarrow> demo_counters \<times> cortexm" where
  "demo_TaskB B resumed s =
     (case s of (d, k) \<Rightarrow>
        let d = (if resumed then d\<lparr>dbg_exit_counterB := dbg_exit_counterB d + 1\<rparr> else d);
            d = d\<lparr>dbg_counterB := dbg_counterB d + 1\<rparr>
        in (d, snd (hrt_sleep B 1000 k)))"

definition demo_main :: "cmsis \<Rightarrow> cm_link \<Rightarrow> task_syms \<Rightarrow> cortexm build \<Rightarrow> bus \<times> cortexm \<Rightarrow> bus \<times> cortexm" where
  "demo_main C L S B s =
     (case s of (m, k) \<Rightarrow>
        let m = SystemInit C m;
            m = hold_cm4 m;
            k = snd (hrt_init B (Some (board_config L)) k);
            a0 = \<lparr>priority = HRT_PRIO0, timeslice = 5\<rparr>;
            a1 = \<lparr>priority = HRT_PRIO1, timeslice = 5\<rparr>;
            k = snd (hrt_create_task B (fn_A S) 0 (stack_A S) 512 (Some a0) k);
            k = snd (hrt_create_task B (fn_B S) 0 (stack_B S) 512 (Some a1) k)
        in (m, hrt_start B k))"

section \<open>The heap break\<close>

text \<open>The symbols of the linker script; an absent optional symbol has address 0. A pointer is a 32-bit word,
  \<open>(void*)-1\<close> the largest.\<close>

record heap_syms =
  sym_end :: u32
  sym_estack :: u32
  sym_HeapBase :: u32
  sym_HeapLimit :: u32

definition sbrk :: "heap_syms \<Rightarrow> u32 \<Rightarrow> u32 \<Rightarrow> u32 \<times> u32" where
  "sbrk S incr heap =
     (let heap = (if heap = 0 then if sym_HeapBase S \<noteq> 0 then sym_HeapBase S else sym_end S else heap);
          prev = heap;
          next = heap + incr
      in if sym_HeapLimit S \<noteq> 0 \<and> next > sym_HeapLimit S then (-1, heap)
         else if sym_HeapLimit S = 0 \<and> next + 256 > sym_estack S then (-1, heap)
         else (prev, next))"

section \<open>Properties\<close>

definition args_A :: "task_syms \<Rightarrow> task_args" where
  "args_A S = \<lparr>t_fn = fn_A S, t_arg = 0, t_stack = stack_A S, t_words = 512,
     t_attr = \<lparr>priority = HRT_PRIO0, timeslice = 5\<rparr>\<rparr>"

definition args_B :: "task_syms \<Rightarrow> task_args" where
  "args_B S = \<lparr>t_fn = fn_B S, t_arg = 0, t_stack = stack_B S, t_words = 512,
     t_attr = \<lparr>priority = HRT_PRIO1, timeslice = 5\<rparr>\<rparr>"

lemma mains_boot:
  "snd (demo_main C L S B (m, k)) = hrt_start B (boot2 B (board_config L) (args_A S) (args_B S) k)"
  "snd (blinky_main C L S B (m, k)) = hrt_start B (boot2 B (board_config L) (args_A S) (args_B S) k)"
  by (simp_all add: demo_main_def blinky_main_def boot2_def create_def args_A_def args_B_def Let_def)

lemma cm_start_pends:
  "pendsv_set (hrt_start (cm_build L n p dbg) k)" "\<not> primask (hrt_start (cm_build L n p dbg) k)"
  by (simp_all add: hrt_start_def cm_build_def cm_enter_scheduler_def cm_pend_context_switch_def)

text \<open>C22: The main functions of \<open>hardrt_h755_demo\<close> and \<open>hardrt_h755_blinky\<close> leave the kernel in a state of its
  invariant with their two tasks ready, each alone in the queue of its priority, no other task, and the
  first context switch pended with interrupts enabled.\<close>

theorem board_mains_boot:
  assumes "valid_build (cm_build L n p dbg)" "2 \<le> p" "fn_A S \<noteq> 0" "fn_B S \<noteq> 0" "stack_A S \<noteq> 0" "stack_B S \<noteq> 0"
    "k' = snd (demo_main C L S (cm_build L n p dbg) (m, k)) \<or> k' = snd (blinky_main C L S (cm_build L n p dbg) (m, k))"
  shows "kinv (cm_build L n p dbg) {} k' \<and> g_current k' = -1 \<and> pendsv_set k' \<and> \<not> primask k' \<and>
    rq_list (cm_build L n p dbg) k' 0 = [0] \<and> rq_list (cm_build L n p dbg) k' 1 = [1] \<and>
    (\<forall>j < n. state (g_tcbs k' ! j) = (if j < 2 then HRT_READY else HRT_UNUSED)) \<and> g_fault k' = g_fault k"
proof -
  let ?B = "cm_build L n p dbg"
  have n: "2 \<le> n" using assms(1,2) by (simp add: valid_build_def)
  have ok: "args_ok ?B (args_A S)" "args_ok ?B (args_B S)" and pr: "t_prio (args_A S) = 0" "t_prio (args_B S) = 1"
    using assms(2-6) by (simp_all add: args_ok_def args_A_def args_B_def t_prio_def)
  have k': "k' = hrt_start ?B (boot2 ?B (board_config L) (args_A S) (args_B S) k)"
    using assms(7) by (auto simp: mains_boot)
  note b = cm.boot2_ready [of L n p dbg, unfolded cm_build_fields, OF assms(1) n ok, where cfg = "board_config L" and k = k]
  show ?thesis using b cm_start_pends [of L n p dbg] assms(2) pr by (simp add: k' cm.start_same)
qed

definition demo_syms :: task_syms where
  "demo_syms = \<lparr>fn_A = 0x8001001, fn_B = 0x8001101, stack_A = 0x20004000, stack_B = 0x20006000\<rparr>"

definition demo_cmsis :: cmsis where
  "demo_cmsis = \<lparr>adr = (\<lambda>r. if r = RCC_CR then 0x58024400 else 0xE000ED00), msk = (\<lambda>_. 1), fpu_used = True, core_cm7 = True,
     NVIC_SetPriority = \<lambda>_ _ m. m, NVIC_ClearPendingIRQ = \<lambda>_ m. m, NVIC_EnableIRQ = \<lambda>_ m. m\<rparr>"

theorem board_mains_boot_witness:
  "rq_list CB (snd (blinky_main demo_cmsis demo_link demo_syms CB (\<lambda>_. 0, C_ready))) 1 = [1] \<and>
   pendsv_set (snd (blinky_main demo_cmsis demo_link demo_syms CB (\<lambda>_. 0, C_ready)))"
proof -
  have v: "valid_build CB" by code_simp
  show ?thesis
    using board_mains_boot [of demo_link 3 2 True demo_syms _ demo_cmsis "\<lambda>_. 0" C_ready, folded CB_def,
        OF v _ _ _ _ _ disjI2, OF _ _ _ _ _ refl] by (simp add: demo_syms_def)
qed

text \<open>\<open>hold_cm4\<close> writes to the first word of the clock controller, calling it \<open>RCC_GCR\<close>. Where that word is
  the register \<open>RCC->CR\<close> with the enable bit of the internal oscillator as its bit 0, as the vendor
  documents, the call undoes what \<open>SystemInit\<close> has just set: the bit is on after \<open>SystemInit\<close> and off
  after \<open>hold_cm4\<close>.\<close>

theorem hold_cm4_clears_hsion:
  assumes "adr C RCC_CR = 0x58024400" "msk C RCC_CR_HSION = 1" "\<forall>r. r \<noteq> RCC_CR \<longrightarrow> adr C r \<noteq> 0x58024400" "core_cm7 C"
  shows "bit (rd C RCC_CR (SystemInit C m)) 0 \<and> \<not> bit (rd C RCC_CR (hold_cm4 (SystemInit C m))) 0"
proof -
  have other: "rd C RCC_CR (wr C r v m) = (if r = RCC_CR then v else rd C RCC_CR m)" for r v m
    using assms(1,3) by (simp add: rd_def wr_def)
  have ext: "rd C RCC_CR (m(0x51008108 := v)) = rd C RCC_CR m" for v m using assms(1) by (simp add: rd_def)
  have "rd C RCC_CR (SystemInit C m) = ((rd C RCC_CR m OR 1) AND 0xEAF6ED7F) AND 0xFFFBFFFF"
    by (simp add: SystemInit_def reset_clocks_def Let_def set_bits_def and_bits_def other ext assms(2,4))
  then have "bit (rd C RCC_CR (SystemInit C m)) 0" by (simp add: bit_simps)
  moreover have "rd C RCC_CR (hold_cm4 m) = rd C RCC_CR m AND NOT 1" for m
    using assms(1) by (simp add: rd_def hold_cm4_def RCC_BASE_NEW_def)
  ultimately show ?thesis by (simp add: bit_simps)
qed

theorem hold_cm4_clears_hsion_witness:
  "bit (rd demo_cmsis RCC_CR (SystemInit demo_cmsis (\<lambda>_. 0))) 0 \<and>
   \<not> bit (rd demo_cmsis RCC_CR (hold_cm4 (SystemInit demo_cmsis (\<lambda>_. 0)))) 0"
  using hold_cm4_clears_hsion [of demo_cmsis "\<lambda>_. 0"] by (simp add: demo_cmsis_def)

text \<open>\<open>_sbrk\<close> grows the heap by exactly the requested bytes or not at all. A call that succeeds returns the
  old break and stays below the limit of the linker script, or 256 bytes below the stack when there is
  none; a call that fails returns \<open>(void*)-1\<close> and leaves the break. The first call starts at the base the
  linker gives.\<close>

theorem sbrk_correct:
  fixes heap incr :: u32
  assumes "unat base + unat incr + 256 < 2 ^ 32" "base \<noteq> 0"
    "base = (if heap \<noteq> 0 then heap else if sym_HeapBase S \<noteq> 0 then sym_HeapBase S else sym_end S)"
  defines "fits \<equiv> if sym_HeapLimit S \<noteq> 0 then unat base + unat incr \<le> unat (sym_HeapLimit S)
      else unat base + unat incr + 256 \<le> unat (sym_estack S)"
  shows "sbrk S incr heap = (if fits then (base, base + incr) else (-1, base)) \<and>
    unat (base + incr) = unat base + unat incr"
proof -
  have s: "unat (base + incr) = unat base + unat incr" using assms(1) by (simp add: unat_word_ariths)
  have s': "unat (base + incr + 256) = unat base + unat incr + 256" using assms(1) s by (simp add: unat_word_ariths)
  have "sbrk S incr heap = (if sym_HeapLimit S \<noteq> 0 \<and> base + incr > sym_HeapLimit S then (-1, base)
      else if sym_HeapLimit S = 0 \<and> base + incr + 256 > sym_estack S then (-1, base) else (base, base + incr))"
    using assms(3) by (simp add: sbrk_def Let_def)
  then show ?thesis using s s' by (simp add: fits_def word_less_nat_alt not_less)
qed

theorem sbrk_correct_witness:
  "sbrk \<lparr>sym_end = 0x24000100, sym_estack = 0x24080000, sym_HeapBase = 0, sym_HeapLimit = 0\<rparr> 0x40 0 =
     (0x24000100, 0x24000140)"
  using sbrk_correct [of "0x24000100" "0x40" 0 "\<lparr>sym_end = 0x24000100, sym_estack = 0x24080000, sym_HeapBase = 0, sym_HeapLimit = 0\<rparr>"]
  by simp

end
