(* ===== verification/HRT_Timing.thy ===== *)
theory HRT_Timing
  imports HRT_Board
begin

text \<open>
  The latency measurement \<open>hardrt_h755_dwt_timing\<close>: two timer interrupts stamp a cycle counter and give a
  semaphore, two tasks take the semaphores and record the elapsed cycles. The tasks are cut where an
  interrupt can come between accesses to the variables both sides use.
\<close>

section \<open>Statistics\<close>

record hrt_stats =
  st_min :: u32
  st_max :: u32
  st_avg :: u32
  st_count :: u32
  st_sum :: u64

definition stats_init :: "hrt_stats \<Rightarrow> hrt_stats" where
  "stats_init s = s\<lparr>st_min := 0xFFFFFFFF, st_max := 0, st_avg := 0, st_count := 0, st_sum := 0\<rparr>"

text \<open>None is the division by zero of a counter that has wrapped.\<close>

definition stats_record :: "hrt_stats \<Rightarrow> u32 \<Rightarrow> hrt_stats option" where
  "stats_record s v =
     (let s = (if v < st_min s then s\<lparr>st_min := v\<rparr> else s);
          s = (if v > st_max s then s\<lparr>st_max := v\<rparr> else s);
          s = s\<lparr>st_sum := st_sum s + ucast v\<rparr>;
          s = s\<lparr>st_count := st_count s + 1\<rparr>
      in if st_count s = 0 then None
         else Some (s\<lparr>st_avg := ucast (st_sum s div ucast (st_count s))\<rparr>))"

section \<open>State\<close>

text \<open>Where a task is: before its first statement, in \<open>hrt_sem_take\<close>, or holding a sample it has not yet
  recorded.\<close>

datatype task_at = AtEntry | InTake | Sampled u32

record timing =
  io :: bus
  g_tick_stats :: hrt_stats
  g_sem_stats :: hrt_stats
  g_tick_done :: u32
  g_evt_done :: u32
  tim2_psc_dbg :: u32
  tim2_arr_dbg :: u32
  tim3_psc_dbg :: u32
  tim3_arr_dbg :: u32
  sem_tick :: hrt_sem
  sem_evt :: hrt_sem
  t0_tick :: u32
  t0_evt :: u32
  tick_armed :: u32
  evt_armed :: u32
  g_irqs_enabled :: u32
  tick_at :: task_at
  evt_at :: task_at
  bkpts :: nat
  tknl :: cortexm

definition DEMCR :: u32 where "DEMCR = 0xE000EDFC"

definition DWT_CTRL :: u32 where "DWT_CTRL = 0xE0001000"

definition DWT_CYCCNT :: u32 where "DWT_CYCCNT = 0xE0001004"

definition TICK_TARGET_SAMPLES :: u32 where "TICK_TARGET_SAMPLES = 10000"

definition EVT_TARGET_SAMPLES :: u32 where "EVT_TARGET_SAMPLES = 10000"

definition dwt_init :: "bus \<Rightarrow> bus" where
  "dwt_init m =
     (let m = m(DEMCR := m DEMCR OR push_bit 24 1);
          m = m(DWT_CYCCNT := 0)
      in m(DWT_CTRL := m DWT_CTRL OR 1))"

definition cycles_now :: "timing \<Rightarrow> u32" where
  "cycles_now w = io w DWT_CYCCNT"

definition timing_target_reached :: "timing \<Rightarrow> timing" where
  "timing_target_reached w = w\<lparr>bkpts := bkpts w + 1\<rparr>"

definition maybe_finish :: "timing \<Rightarrow> timing" where
  "maybe_finish w = (if g_tick_done w \<noteq> 0 \<and> g_evt_done w \<noteq> 0 then timing_target_reached w else w)"

section \<open>Tasks\<close>

text \<open>A step of a task runs to the next cut: from the entry or the recording of a sample into \<open>hrt_sem_take\<close>,
  and from there to the sample, or round again when the event is not armed.\<close>

definition take_tick :: "cortexm build \<Rightarrow> timing \<Rightarrow> timing" where
  "take_tick B w =
     (case hrt_sem_take B (sem_tick w) (tknl w) of (_, s, k) \<Rightarrow> w\<lparr>sem_tick := s, tknl := k, tick_at := InTake\<rparr>)"

definition TaskTickLatency :: "cortexm build \<Rightarrow> timing \<Rightarrow> timing option" where
  "TaskTickLatency B w =
     (case tick_at w of
        AtEntry \<Rightarrow> Some (take_tick B (w\<lparr>g_irqs_enabled := 1\<rparr>))
      | InTake \<Rightarrow>
          if tick_armed w \<noteq> 0
          then let t1 = cycles_now w;
                   d = t1 - t0_tick w
               in Some (w\<lparr>tick_armed := 0, tick_at := Sampled d\<rparr>)
          else Some (take_tick B w)
      | Sampled d \<Rightarrow>
          (case stats_record (g_tick_stats w) d of
             None \<Rightarrow> None
           | Some s \<Rightarrow>
               let w = w\<lparr>g_tick_stats := s\<rparr>;
                   w = (if st_count (g_tick_stats w) \<ge> TICK_TARGET_SAMPLES
                        then maybe_finish (w\<lparr>g_tick_done := 1\<rparr>) else w)
               in Some (take_tick B w)))"

definition take_evt :: "cortexm build \<Rightarrow> timing \<Rightarrow> timing" where
  "take_evt B w =
     (case hrt_sem_take B (sem_evt w) (tknl w) of (_, s, k) \<Rightarrow> w\<lparr>sem_evt := s, tknl := k, evt_at := InTake\<rparr>)"

definition TaskEventLatency :: "cortexm build \<Rightarrow> timing \<Rightarrow> timing option" where
  "TaskEventLatency B w =
     (case evt_at w of
        AtEntry \<Rightarrow> Some (take_evt B w)
      | InTake \<Rightarrow>
          if evt_armed w \<noteq> 0
          then let t1 = cycles_now w;
                   d = t1 - t0_evt w
               in Some (w\<lparr>evt_armed := 0, evt_at := Sampled d\<rparr>)
          else Some (take_evt B w)
      | Sampled d \<Rightarrow>
          (case stats_record (g_sem_stats w) d of
             None \<Rightarrow> None
           | Some s \<Rightarrow>
               let w = w\<lparr>g_sem_stats := s\<rparr>;
                   w = (if st_count (g_sem_stats w) \<ge> EVT_TARGET_SAMPLES
                        then maybe_finish (w\<lparr>g_evt_done := 1\<rparr>) else w)
               in Some (take_evt B w)))"

section \<open>Timers\<close>

definition timer_psc :: "u32 \<Rightarrow> u32" where
  "timer_psc clock =
     (let tim_clk = clock div 2;
          psc = tim_clk div 1000000;
          psc = (if psc = 0 then 1 else psc)
      in psc - 1)"

definition timer_arr :: "u32 \<Rightarrow> u32 \<Rightarrow> u32" where
  "timer_arr dflt hz =
     (let hz = (if hz = 0 then dflt else hz);
          arr = 1000000 div hz;
          arr = (if arr = 0 then 1 else arr)
      in arr - 1)"

definition tim2_init_event :: "cmsis \<Rightarrow> cm_link \<Rightarrow> u32 \<Rightarrow> timing \<Rightarrow> timing" where
  "tim2_init_event C L hz w =
     (let m = io w;
          m = set_bits C RCC_APB1LENR (msk C RCC_APB1LENR_TIM2EN) m;
          m = set_bits C RCC_APB1LRSTR (msk C RCC_APB1LRSTR_TIM2RST) m;
          m = and_bits C RCC_APB1LRSTR (NOT (msk C RCC_APB1LRSTR_TIM2RST)) m;
          psc = timer_psc (SystemCoreClock L);
          arr = timer_arr 1000 hz;
          m = wr C TIM2_PSC psc m;
          m = wr C TIM2_ARR arr m;
          w = w\<lparr>tim2_psc_dbg := psc, tim2_arr_dbg := arr\<rparr>;
          m = wr C TIM2_EGR (msk C TIM_EGR_UG) m;
          m = wr C TIM2_SR 0 m;
          m = wr C TIM2_DIER (msk C TIM_DIER_UIE) m;
          m = wr C TIM2_CR1 (msk C TIM_CR1_CEN) m;
          m = NVIC_SetPriority C TIM2_IRQn 12 m;
          m = NVIC_ClearPendingIRQ C TIM2_IRQn m;
          m = NVIC_EnableIRQ C TIM2_IRQn m
      in w\<lparr>io := m\<rparr>)"

definition TIM2_IRQHandler :: "cmsis \<Rightarrow> cortexm build \<Rightarrow> timing \<Rightarrow> timing" where
  "TIM2_IRQHandler C B w =
     (if rd C TIM2_SR (io w) AND msk C TIM_SR_UIF \<noteq> 0
      then
        let w = w\<lparr>io := and_bits C TIM2_SR (NOT (msk C TIM_SR_UIF)) (io w)\<rparr> in
        if g_irqs_enabled w = 0 then w
        else if st_count (g_tick_stats w) \<ge> TICK_TARGET_SAMPLES then w
        else
          let w = (if tick_armed w = 0 then w\<lparr>t0_tick := cycles_now w, tick_armed := 1\<rparr> else w)
          in (case hrt_sem_give_from_isr B (sem_tick w) (tknl w) of (_, s, k) \<Rightarrow> w\<lparr>sem_tick := s, tknl := k\<rparr>)
      else w)"

definition tim3_init_event :: "cmsis \<Rightarrow> cm_link \<Rightarrow> u32 \<Rightarrow> timing \<Rightarrow> timing" where
  "tim3_init_event C L hz w =
     (let m = io w;
          m = set_bits C RCC_APB1LENR (msk C RCC_APB1LENR_TIM3EN) m;
          m = set_bits C RCC_APB1LRSTR (msk C RCC_APB1LRSTR_TIM3RST) m;
          m = and_bits C RCC_APB1LRSTR (NOT (msk C RCC_APB1LRSTR_TIM3RST)) m;
          psc = timer_psc (SystemCoreClock L);
          arr = timer_arr 200 hz;
          m = wr C TIM3_PSC psc m;
          m = wr C TIM3_ARR arr m;
          w = w\<lparr>tim3_psc_dbg := psc, tim3_arr_dbg := arr\<rparr>;
          m = wr C TIM3_EGR (msk C TIM_EGR_UG) m;
          m = wr C TIM3_SR 0 m;
          m = wr C TIM3_DIER (msk C TIM_DIER_UIE) m;
          m = wr C TIM3_CR1 (msk C TIM_CR1_CEN) m;
          m = NVIC_SetPriority C TIM3_IRQn 12 m;
          m = NVIC_ClearPendingIRQ C TIM3_IRQn m;
          m = NVIC_EnableIRQ C TIM3_IRQn m
      in w\<lparr>io := m\<rparr>)"

definition TIM3_IRQHandler :: "cmsis \<Rightarrow> cortexm build \<Rightarrow> timing \<Rightarrow> timing" where
  "TIM3_IRQHandler C B w =
     (if rd C TIM3_SR (io w) AND msk C TIM_SR_UIF \<noteq> 0
      then
        let w = w\<lparr>io := and_bits C TIM3_SR (NOT (msk C TIM_SR_UIF)) (io w)\<rparr> in
        if g_irqs_enabled w = 0 then w
        else if st_count (g_sem_stats w) \<ge> EVT_TARGET_SAMPLES then w
        else
          let w = (if evt_armed w = 0 then w\<lparr>t0_evt := cycles_now w, evt_armed := 1\<rparr> else w)
          in (case hrt_sem_give_from_isr B (sem_evt w) (tknl w) of (_, s, k) \<Rightarrow> w\<lparr>sem_evt := s, tknl := k\<rparr>)
      else w)"

section \<open>main\<close>

definition timing_main :: "cmsis \<Rightarrow> cm_link \<Rightarrow> task_syms \<Rightarrow> cortexm build \<Rightarrow> timing \<Rightarrow> timing" where
  "timing_main C L S B w =
     (let w = w\<lparr>io := SystemInit C (io w)\<rparr>;
          w = w\<lparr>io := hold_cm4 (io w)\<rparr>;
          w = w\<lparr>io := dwt_init (io w)\<rparr>;
          w = w\<lparr>g_tick_stats := stats_init (g_tick_stats w)\<rparr>;
          w = w\<lparr>g_sem_stats := stats_init (g_sem_stats w)\<rparr>;
          w = w\<lparr>tknl := snd (hrt_init B (Some (board_config L)) (tknl w))\<rparr>;
          w = w\<lparr>sem_tick := hrt_sem_init 0 (sem_tick w)\<rparr>;
          w = w\<lparr>sem_evt := hrt_sem_init 0 (sem_evt w)\<rparr>;
          p_tick = \<lparr>priority = HRT_PRIO0, timeslice = 0\<rparr>;
          p_evt = \<lparr>priority = HRT_PRIO1, timeslice = 0\<rparr>;
          w = w\<lparr>tknl := snd (hrt_create_task B (fn_A S) 0 (stack_A S) 1024 (Some p_tick) (tknl w))\<rparr>;
          w = w\<lparr>tknl := snd (hrt_create_task B (fn_B S) 0 (stack_B S) 1024 (Some p_evt) (tknl w))\<rparr>;
          w = tim2_init_event C L 1000 w;
          w = tim3_init_event C L 200 w
      in w\<lparr>tknl := hrt_start B (tknl w)\<rparr>)"

section \<open>Runs\<close>

text \<open>The variables at the start of \<open>main\<close>: every flag is zero and no task has run.\<close>

definition timing_boot :: "timing \<Rightarrow> bool" where
  "timing_boot w \<longleftrightarrow> g_tick_done w = 0 \<and> g_evt_done w = 0 \<and> tick_armed w = 0 \<and> evt_armed w = 0 \<and>
     tick_at w = AtEntry \<and> evt_at w = AtEntry \<and> bkpts w = 0"

text \<open>The tasks and the interrupts run in any order; the hardware may change the registers and the kernel
  may switch tasks at any time.\<close>

inductive timing_step :: "cmsis \<Rightarrow> cortexm build \<Rightarrow> timing \<Rightarrow> timing \<Rightarrow> bool" for C :: cmsis and B :: "cortexm build" where
  tim2: "timing_step C B w (TIM2_IRQHandler C B w)"
| tim3: "timing_step C B w (TIM3_IRQHandler C B w)"
| tick_task: "TaskTickLatency B w = Some w' \<Longrightarrow> timing_step C B w w'"
| evt_task: "TaskEventLatency B w = Some w' \<Longrightarrow> timing_step C B w w'"
| hardware: "timing_step C B w (w\<lparr>io := m\<rparr>)"
| kernel: "timing_step C B w (w\<lparr>tknl := k\<rparr>)"

section \<open>What the statistics record\<close>

definition summary :: "hrt_stats \<Rightarrow> u32 list \<Rightarrow> bool" where
  "summary s xs \<longleftrightarrow> length xs < 2 ^ 32 \<and> unat (st_count s) = length xs \<and>
     unat (st_sum s) = sum_list (map unat xs) \<and>
     st_min s = Min (insert 0xFFFFFFFF (set xs)) \<and> st_max s = Max (insert 0 (set xs)) \<and>
     (xs \<noteq> [] \<longrightarrow> unat (st_avg s) = sum_list (map unat xs) div length xs)"

lemma sum_unat_bound: "sum_list (map unat (xs :: u32 list)) \<le> length xs * (2 ^ 32 - 1)"
proof (induction xs)
  case (Cons x xs)
  have "unat x < 2 ^ LENGTH(32)" by (rule unsigned_less)
  then have "unat x \<le> 2 ^ 32 - 1" by simp
  with Cons show ?case by simp
qed simp

lemma stats_init_summary: "summary (stats_init s) []"
  by (simp add: summary_def stats_init_def)

lemma if_min: "(if v < m then v else m) = min v (m :: u32)" and if_max: "(if v > m then v else m) = max v (m :: u32)"
  by (auto simp: min_def max_def)

lemma stats_record_summary:
  assumes "summary s xs" "Suc (length xs) < 2 ^ 32"
  shows "\<exists>s'. stats_record s v = Some s' \<and> summary s' (xs @ [v])"
proof -
  let ?n = "Suc (length xs)" and ?t = "sum_list (map unat (xs @ [v]))"
  have cnt: "unat (st_count s + 1) = ?n" using assms by (intro unat_Suc_bounded [of _ "2 ^ 32 - 1", THEN trans]) (auto simp: summary_def)
  then have nz: "st_count s + 1 \<noteq> 0" by (metis Zero_not_Suc unat_0)
  have tb: "?t \<le> ?n * (2 ^ 32 - 1)" using sum_unat_bound [of "xs @ [v]"] by simp
  also have "\<dots> \<le> (2 ^ 32 - 1) * (2 ^ 32 - 1)" using assms(2) by (intro mult_right_mono) simp_all
  finally have small: "?t < 2 ^ 64" by simp
  have sum: "unat (st_sum s + ucast v) = ?t"
    using assms(1) small by (simp add: summary_def unat_word_ariths unat_ucast_up)
  have "?t div ?n \<le> 2 ^ 32 - 1" 
    using div_le_mono [OF tb, of ?n] nonzero_mult_div_cancel_left [of ?n "2 ^ 32 - 1"] by simp
  moreover have "?n mod 18446744073709551616 = ?n" using assms(2) by simp
  ultimately have avg: "unat (ucast ((st_sum s + ucast v) div ucast (st_count s + 1)) :: u32) = ?t div ?n"
    using sum cnt by (simp add: unat_ucast_mod unat_div_distrib unat_ucast_up)
  have "st_min s = Min (insert 0xFFFFFFFF (set xs))" "st_max s = Max (insert 0 (set xs))"
    using assms(1) by (simp_all add: summary_def)
  then have mn: "(if v < st_min s then v else st_min s) = Min (insert 0xFFFFFFFF (set (xs @ [v])))"
    and mx: "(if v > st_max s then v else st_max s) = Max (insert 0 (set (xs @ [v])))"
    unfolding if_min if_max using Min_insert [of "insert 0xFFFFFFFF (set xs)" v] Max_insert [of "insert 0 (set xs)" v]
    by (simp_all add: insert_commute [of _ v] del: Min_insert Max_insert)
  show ?thesis
    using nz cnt sum avg mn mx assms(2) by (auto simp: stats_record_def Let_def summary_def)
qed

section \<open>The invariant of a run\<close>

definition pending :: "u32 \<Rightarrow> task_at \<Rightarrow> nat" where
  "pending armed at = (if armed \<noteq> 0 then 1 else 0) + (case at of Sampled _ \<Rightarrow> 1 | _ \<Rightarrow> 0)"

definition side_inv :: "hrt_stats \<Rightarrow> u32 \<Rightarrow> task_at \<Rightarrow> u32 \<Rightarrow> bool" where
  "side_inv s armed at done \<longleftrightarrow> (\<exists>xs. summary s xs) \<and> unat (st_count s) + pending armed at \<le> 10001 \<and>
     (done \<noteq> 0 \<longrightarrow> 10000 \<le> unat (st_count s))"

definition timing_inv :: "timing \<Rightarrow> bool" where
  "timing_inv w \<longleftrightarrow> side_inv (g_tick_stats w) (tick_armed w) (tick_at w) (g_tick_done w) \<and>
     side_inv (g_sem_stats w) (evt_armed w) (evt_at w) (g_evt_done w) \<and>
     (0 < bkpts w \<longrightarrow> g_tick_done w \<noteq> 0 \<and> g_evt_done w \<noteq> 0)"

lemma side_arm:
  assumes "side_inv s armed at done" "\<not> 10000 \<le> st_count s"
  shows "side_inv s 1 at done"
proof -
  have "unat (st_count s) < 10000" using assms(2) by (simp add: word_le_nat_alt)
  then show ?thesis using assms(1) by (cases at) (auto simp: side_inv_def pending_def split: if_splits)
qed

lemma side_sample: "side_inv s armed InTake done \<Longrightarrow> armed \<noteq> 0 \<Longrightarrow> side_inv s 0 (Sampled d) done"
  by (simp add: side_inv_def pending_def)

lemma side_take: "side_inv s armed at done \<Longrightarrow> side_inv s armed InTake done"
  by (cases at) (simp_all add: side_inv_def pending_def split: if_splits)

lemma side_record:
  assumes "side_inv s armed (Sampled d) done"
  obtains s' where "stats_record s d = Some s'" "side_inv s' armed InTake done"
    "10000 \<le> st_count s' \<longrightarrow> side_inv s' armed InTake 1"
proof -
  obtain xs where xs: "summary s xs" using assms by (auto simp: side_inv_def)
  have b: "unat (st_count s) \<le> 10000" "length xs = unat (st_count s)"
    using assms xs by (simp_all add: side_inv_def pending_def summary_def)
  obtain s' where s': "stats_record s d = Some s'" "summary s' (xs @ [d])"
    using stats_record_summary [OF xs, of d] b by auto
  have "unat (st_count s') = Suc (unat (st_count s))" using s'(2) b by (simp add: summary_def)
  then have "side_inv s' armed InTake done" "10000 \<le> st_count s' \<longrightarrow> side_inv s' armed InTake 1"
    using s'(2) assms by (auto simp: side_inv_def pending_def word_le_nat_alt)
  then show thesis by (rule that [OF s'(1)])
qed

lemma tick_task_inv:
  assumes "timing_inv w"
  shows "\<exists>w'. TaskTickLatency B w = Some w' \<and> timing_inv w'"
proof (cases "tick_at w")
  case AtEntry
  then show ?thesis using assms side_take
    by (fastforce simp: TaskTickLatency_def timing_inv_def take_tick_def split: prod.splits)
next
  case InTake
  then show ?thesis using assms side_take side_sample
    by (fastforce simp: TaskTickLatency_def timing_inv_def take_tick_def Let_def split: prod.splits)
next
  case (Sampled d)
  have "side_inv (g_tick_stats w) (tick_armed w) (Sampled d) (g_tick_done w)"
    using assms Sampled by (simp add: timing_inv_def)
  then obtain s' where "stats_record (g_tick_stats w) d = Some s'" "side_inv s' (tick_armed w) InTake (g_tick_done w)"
    "10000 \<le> st_count s' \<longrightarrow> side_inv s' (tick_armed w) InTake 1" by (rule side_record)
  then show ?thesis using assms Sampled
    by (auto simp: TaskTickLatency_def timing_inv_def take_tick_def maybe_finish_def timing_target_reached_def
        TICK_TARGET_SAMPLES_def Let_def split: prod.splits)
qed

lemma evt_task_inv:
  assumes "timing_inv w"
  shows "\<exists>w'. TaskEventLatency B w = Some w' \<and> timing_inv w'"
proof (cases "evt_at w")
  case AtEntry
  then show ?thesis using assms side_take
    by (fastforce simp: TaskEventLatency_def timing_inv_def take_evt_def split: prod.splits)
next
  case InTake
  then show ?thesis using assms side_take side_sample
    by (fastforce simp: TaskEventLatency_def timing_inv_def take_evt_def Let_def split: prod.splits)
next
  case (Sampled d)
  have "side_inv (g_sem_stats w) (evt_armed w) (Sampled d) (g_evt_done w)"
    using assms Sampled by (simp add: timing_inv_def)
  then obtain s' where "stats_record (g_sem_stats w) d = Some s'" "side_inv s' (evt_armed w) InTake (g_evt_done w)"
    "10000 \<le> st_count s' \<longrightarrow> side_inv s' (evt_armed w) InTake 1" by (rule side_record)
  then show ?thesis using assms Sampled
    by (auto simp: TaskEventLatency_def timing_inv_def take_evt_def maybe_finish_def timing_target_reached_def
        EVT_TARGET_SAMPLES_def Let_def split: prod.splits)
qed

lemma irq_inv:
  assumes "timing_inv w"
  shows "timing_inv (TIM2_IRQHandler C B w)" "timing_inv (TIM3_IRQHandler C B w)"
  using assms side_arm
  by (auto simp: TIM2_IRQHandler_def TIM3_IRQHandler_def timing_inv_def TICK_TARGET_SAMPLES_def EVT_TARGET_SAMPLES_def
      Let_def split: prod.splits)

lemma timing_step_inv: "timing_step C B w w' \<Longrightarrow> timing_inv w \<Longrightarrow> timing_inv w'"
proof (induction rule: timing_step.induct)
  case (tick_task w w')
  then show ?case using tick_task_inv [of w B] by auto
next
  case (evt_task w w')
  then show ?case using evt_task_inv [of w B] by auto
qed (simp_all add: irq_inv, simp_all add: timing_inv_def)

lemma timing_steps_inv: "(timing_step C B)\<^sup>*\<^sup>* w w' \<Longrightarrow> timing_inv w \<Longrightarrow> timing_inv w'"
  by (induction rule: rtranclp_induct) (auto intro: timing_step_inv)

lemma timing_main_inv:
  assumes "timing_boot w"
  shows "timing_inv (timing_main C L S B w)"
proof -
  have z: "side_inv (stats_init s) 0 AtEntry 0" for s
    using stats_init_summary [of s] by (auto simp: side_inv_def pending_def stats_init_def)
  show ?thesis using assms z
    by (simp add: timing_main_def timing_inv_def timing_boot_def tim2_init_event_def tim3_init_event_def Let_def)
qed

section \<open>Properties\<close>

definition record_all :: "hrt_stats \<Rightarrow> u32 list \<Rightarrow> hrt_stats option" where
  "record_all s xs = foldl (\<lambda>r v. Option.bind r (\<lambda>s. stats_record s v)) (Some s) xs"

lemma record_all_summary:
  "length xs < 2 ^ 32 \<Longrightarrow> \<exists>s'. record_all (stats_init s) xs = Some s' \<and> summary s' xs"
proof (induction xs rule: rev_induct)
  case Nil
  then show ?case by (simp add: record_all_def stats_init_summary)
next
  case (snoc v xs)
  then obtain s' where s': "record_all (stats_init s) xs = Some s'" "summary s' xs" by auto
  then show ?case using stats_record_summary [OF s'(2), of v] snoc.prems by (simp add: record_all_def)
qed

lemma min_top: "min 0xFFFFFFFF (v :: u32) = v"
proof -
  have "unat v < 2 ^ LENGTH(32)" by (rule unsigned_less)
  then show ?thesis by (simp add: min_absorb2 word_le_nat_alt)
qed

text \<open>\<open>stats_record\<close> keeps the exact summary of the samples it was given since \<open>stats_init\<close>: their number, least
  and greatest, sum, and the mean rounded down. Neither the 64-bit sum nor the 32-bit mean overflows, and
  the division is never by zero, for fewer than 2^32 samples.\<close>

theorem stats_record_correct:
  assumes "xs \<noteq> []" "length xs < 2 ^ 32"
  shows "\<exists>s'. record_all (stats_init s) xs = Some s' \<and> unat (st_count s') = length xs \<and>
    st_min s' = Min (set xs) \<and> st_max s' = Max (set xs) \<and> unat (st_sum s') = sum_list (map unat xs) \<and>
    unat (st_avg s') = sum_list (map unat xs) div length xs"
  using record_all_summary [OF assms(2), of s] assms(1) by (auto simp: summary_def min_top)

definition zero_stats :: hrt_stats where
  "zero_stats = \<lparr>st_min = 0, st_max = 0, st_avg = 0, st_count = 0, st_sum = 0\<rparr>"

theorem stats_record_correct_witness:
  "\<exists>s'. record_all (stats_init zero_stats) [4, 9, 2] = Some s' \<and> st_min s' = 2 \<and> st_max s' = 9 \<and> unat (st_avg s') = 5"
proof -
  let ?xs = "[4, 9, 2] :: u32 list"
  have "\<exists>s'. record_all (stats_init zero_stats) ?xs = Some s' \<and> unat (st_count s') = length ?xs \<and>
    st_min s' = Min (set ?xs) \<and> st_max s' = Max (set ?xs) \<and> unat (st_sum s') = sum_list (map unat ?xs) \<and>
    unat (st_avg s') = sum_list (map unat ?xs) div length ?xs"
    by (rule stats_record_correct) simp_all
  then show ?thesis by (auto simp: min_def max_def)
qed

text \<open>C25: The latency measurement cannot run away, however the tasks, the two interrupts and the kernel interleave
  after \<open>main\<close>. A task never divides by zero; each side records at most 10001 samples, one more than the
  target because an interrupt may arm the event again while the last sample is being recorded; a
  completion flag means that the target was reached; and the debugger is only stopped when both flags are
  set.\<close>

theorem timing_run_safe:
  assumes "timing_boot w" "(timing_step C B)\<^sup>*\<^sup>* (timing_main C L S B w) w'"
  shows "TaskTickLatency B w' \<noteq> None \<and> TaskEventLatency B w' \<noteq> None \<and>
    unat (st_count (g_tick_stats w')) \<le> 10001 \<and> unat (st_count (g_sem_stats w')) \<le> 10001 \<and>
    (g_tick_done w' \<noteq> 0 \<longrightarrow> 10000 \<le> unat (st_count (g_tick_stats w'))) \<and>
    (g_evt_done w' \<noteq> 0 \<longrightarrow> 10000 \<le> unat (st_count (g_sem_stats w'))) \<and>
    (0 < bkpts w' \<longrightarrow> g_tick_done w' \<noteq> 0 \<and> g_evt_done w' \<noteq> 0)"
proof -
  have i: "timing_inv w'" using timing_steps_inv [OF assms(2)] timing_main_inv [OF assms(1)] by blast
  show ?thesis using tick_task_inv [OF i, of B] evt_task_inv [OF i, of B] i by (auto simp: timing_inv_def side_inv_def)
qed

definition demo_timing :: timing where
  "demo_timing = \<lparr>io = \<lambda>_. 0, g_tick_stats = zero_stats, g_sem_stats = zero_stats, g_tick_done = 0, g_evt_done = 0,
     tim2_psc_dbg = 0, tim2_arr_dbg = 0, tim3_psc_dbg = 0, tim3_arr_dbg = 0,
     sem_tick = \<lparr>sem_count = 0, sem_max_count = 0, sem_q = [0, 0, 0], sem_head = 0, sem_tail = 0, sem_count_wait = 0\<rparr>,
     sem_evt = \<lparr>sem_count = 0, sem_max_count = 0, sem_q = [0, 0, 0], sem_head = 0, sem_tail = 0, sem_count_wait = 0\<rparr>,
     t0_tick = 0, t0_evt = 0, tick_armed = 0, evt_armed = 0, g_irqs_enabled = 0, tick_at = AtEntry, evt_at = AtEntry,
     bkpts = 0, tknl = C_ready\<rparr>"

theorem timing_run_safe_witness:
  "timing_boot demo_timing \<and>
   unat (st_count (g_tick_stats (TIM2_IRQHandler demo_cmsis CB
     (timing_main demo_cmsis demo_link demo_syms CB demo_timing)))) \<le> 10001"
proof -
  have b: "timing_boot demo_timing" by (simp add: timing_boot_def demo_timing_def)
  show ?thesis
    using b timing_run_safe [OF b, of demo_cmsis CB demo_link demo_syms, OF r_into_rtranclp, OF timing_step.tim2]
    by blast
qed

lemma timer_psc_value:
  assumes "2000000 dvd unat clock" "clock \<noteq> 0"
  shows "unat (timer_psc clock) + 1 = unat clock div 2 div 1000000" "(unat clock div 2 div 1000000) * 1000000 = unat clock div 2"
proof -
  obtain m where m: "unat clock = 2000000 * m" using assms(1) by (rule dvdE)
  have "m \<noteq> 0" using m assms(2) by (metis mult_0_right unat_eq_0_iff)
  then have q: "unat (clock div 2 div 1000000) = m" "m \<noteq> 0" using m by (simp_all add: unat_div_distrib)
  have "timer_psc clock = clock div 2 div 1000000 - 1" using q by (auto simp: timer_psc_def Let_def)
  then show "unat (timer_psc clock) + 1 = unat clock div 2 div 1000000"
    using q m unat_pred_pos [of "clock div 2 div 1000000"] by fastforce
  show "(unat clock div 2 div 1000000) * 1000000 = unat clock div 2" using m by simp
qed

lemma timer_arr_value:
  assumes "unat hz dvd 1000000" "hz \<noteq> 0"
  shows "unat (timer_arr dflt hz) + 1 = 1000000 div unat hz" "(1000000 div unat hz) * unat hz = 1000000"
proof -
  show d: "(1000000 div unat hz) * unat hz = 1000000" using assms(1) by simp
  have q: "unat (1000000 div hz) = 1000000 div unat hz" by (simp add: unat_div_distrib)
  then have nz: "1000000 div hz \<noteq> 0" using d by fastforce
  then have "timer_arr dflt hz = 1000000 div hz - 1" using assms(2) by (simp add: timer_arr_def Let_def)
  then show "unat (timer_arr dflt hz) + 1 = 1000000 div unat hz"
    using unat_pred_pos [OF nz] q nz by (metis Suc_eq_plus1 Suc_pred' unat_gt_0)
qed

text \<open>The event timers run at the requested rate: with a clock that is a multiple of 2 MHz and a rate that
  divides 1 MHz, the prescaler and the period written by \<open>tim2_init_event\<close> and \<open>tim3_init_event\<close> divide the
  timer clock, half the core clock, by exactly the ratio of the two. A rate of 0 stands for 1000 Hz on
  the first timer and 200 Hz on the second.\<close>

theorem timer_event_rate:
  fixes C :: cmsis and w :: timing
  assumes "2000000 dvd unat (SystemCoreClock L)" "SystemCoreClock L \<noteq> 0" "unat hz dvd 1000000" "hz \<noteq> 0"
  defines "w2 \<equiv> tim2_init_event C L hz w" and "w3 \<equiv> tim3_init_event C L hz w"
  shows "(unat (tim2_psc_dbg w2) + 1) * (unat (tim2_arr_dbg w2) + 1) * unat hz = unat (SystemCoreClock L) div 2 \<and>
    (unat (tim3_psc_dbg w3) + 1) * (unat (tim3_arr_dbg w3) + 1) * unat hz = unat (SystemCoreClock L) div 2 \<and>
    tim2_init_event C L 0 w = tim2_init_event C L 1000 w \<and> tim3_init_event C L 0 w = tim3_init_event C L 200 w"
proof -
  have p: "tim2_psc_dbg w2 = timer_psc (SystemCoreClock L)" "tim2_arr_dbg w2 = timer_arr 1000 hz"
    "tim3_psc_dbg w3 = timer_psc (SystemCoreClock L)" "tim3_arr_dbg w3 = timer_arr 200 hz"
    by (simp_all add: w2_def w3_def tim2_init_event_def tim3_init_event_def Let_def)
  note v = timer_psc_value [OF assms(1,2)] timer_arr_value [OF assms(3,4)]
  have "unat (SystemCoreClock L) div 2 div 1000000 * (1000000 div unat hz) * unat hz = unat (SystemCoreClock L) div 2"
    using v(2,4) by (metis mult.assoc)
  moreover have "timer_arr 1000 0 = timer_arr 1000 1000" "timer_arr 200 0 = timer_arr 200 200"
    by (simp_all add: timer_arr_def)
  ultimately show ?thesis unfolding p v(1,3) by (simp add: tim2_init_event_def tim3_init_event_def)
qed

theorem timer_event_rate_witness:
  "(unat (tim2_psc_dbg (tim2_init_event demo_cmsis demo_link 1000 demo_timing)) + 1) *
   (unat (tim2_arr_dbg (tim2_init_event demo_cmsis demo_link 1000 demo_timing)) + 1) * 1000 = 32000000"
  using timer_event_rate [of demo_link 1000 demo_cmsis demo_timing] by (simp add: demo_link_def)

end
