(* ===== verification/HRT_CM_Calls.thy ===== *)
theory HRT_CM_Calls
  imports HRT_Port_CortexM
begin

text \<open>
  What a call of the kernel may touch on Cortex-M. A call runs on the stack of the task that makes
  it and does not itself switch: it changes control blocks, ready queues and the object it works on,
  and may set PendSV pending. \<open>quiet\<close> says that it leaves the register bank, the memory of the stacks
  and every saved stack pointer alone and queues only tasks that exist, the set \<open>T\<close>.

  The condition \<open>sane\<close> a call relies on is weaker than \<open>kinv\<close>: it allows duplicate and stale entries in the
  ready queues, which yielding leaves behind on this port, so that what is shown here holds for
  every program.
\<close>

section \<open>Tasks that may be queued\<close>

definition sane :: "'p env \<Rightarrow> nat set \<Rightarrow> 'p kernel_scheme \<Rightarrow> bool" where
  "sane B T k \<longleftrightarrow> kshape B k \<and> T \<subseteq> {..<HARDRT_MAX_TASKS B} \<and> HARDRT_MAX_TASKS B - 1 \<in> T \<and>
     (\<exists>c \<in> T. g_current k = int c) \<and> (\<forall>p < HARDRT_MAX_PRIO B. set (rq_list B k p) \<subseteq> T) \<and>
     (\<forall>i < HARDRT_MAX_TASKS B. state (g_tcbs k ! i) \<noteq> HRT_UNUSED \<longrightarrow> i \<in> T)"

text \<open>The same without a running task, as it is before the first switch.\<close>

definition rq_sane :: "'p env \<Rightarrow> nat set \<Rightarrow> 'p kernel_scheme \<Rightarrow> bool" where
  "rq_sane B T k \<longleftrightarrow> kshape B k \<and> T \<subseteq> {..<HARDRT_MAX_TASKS B} \<and> HARDRT_MAX_TASKS B - 1 \<in> T \<and>
     (\<forall>p < HARDRT_MAX_PRIO B. set (rq_list B k p) \<subseteq> T) \<and>
     (\<forall>i < HARDRT_MAX_TASKS B. state (g_tcbs k ! i) \<noteq> HRT_UNUSED \<longrightarrow> i \<in> T)"

lemma sane_iff: "sane B T k \<longleftrightarrow> rq_sane B T k \<and> (\<exists>c \<in> T. g_current k = int c)"
  by (auto simp: sane_def rq_sane_def)

definition quiet :: "cortexm build \<Rightarrow> nat set \<Rightarrow> cortexm \<Rightarrow> cortexm \<Rightarrow> bool" where
  "quiet B T k k' \<longleftrightarrow> sane B T k' \<and> map sp (g_tcbs k') = map sp (g_tcbs k) \<and> g_current k' = g_current k \<and>
     g_fault k' = g_fault k \<and> mem k' = mem k \<and> psp k' = psp k \<and> r4_r11 k' = r4_r11 k"

named_theorems quiet_intros

lemma sane_bounds:
  assumes "sane B T k"
  shows "kshape B k" "valid_build B" "length (g_tcbs k) = HARDRT_MAX_TASKS B" "HARDRT_MAX_TASKS B < 256"
    "i \<in> T \<Longrightarrow> i < HARDRT_MAX_TASKS B"
  using assms kshapeD(1,2) [of B k] valid_build_bounds(2) [of B] by (auto simp: sane_def)

lemma sane_current:
  assumes "sane B T k"
  obtains c where "g_current k = int c" "c \<in> T" "c < HARDRT_MAX_TASKS B"
  using assms sane_bounds(5) [OF assms] by (auto simp: sane_def)

lemma quietD:
  assumes "quiet B T k k'"
  shows "sane B T k'" "g_current k' = g_current k" "length (g_tcbs k') = HARDRT_MAX_TASKS B"
  using assms sane_bounds(3) by (auto simp: quiet_def)

lemma quiet_refl [quiet_intros]: "sane B T k \<Longrightarrow> quiet B T k k"
  by (simp add: quiet_def)

lemma quiet_trans: "quiet B T a b \<Longrightarrow> quiet B T b c \<Longrightarrow> quiet B T a c"
  by (simp add: quiet_def)

lemma quiet_step: "quiet B T a b \<Longrightarrow> (sane B T b \<Longrightarrow> quiet B T b c) \<Longrightarrow> quiet B T a c"
  by (simp add: quiet_def)

section \<open>The pieces calls are made of\<close>

lemma sane_core: "core a = core b \<Longrightarrow> sane B T a = sane B T b"
  using rq_list_core [OF sched_core_of_core, of a b B] core_fields(1,2) [of a b] kshape_core [of a b B]
  by (simp add: sane_def)

lemma quiet_same:
  assumes "quiet B T k a" "core b = core a" "mem b = mem a" "psp b = psp a" "r4_r11 b = r4_r11 a"
  shows "quiet B T k b"
  using assms sane_core [OF assms(2), of B T] core_fields(1,2,11) [OF assms(2)] by (simp add: quiet_def)

lemma quiet_hooks [quiet_intros]:
  assumes "quiet B T k a"
  shows "quiet B T k (cm_crit_enter a)" "quiet B T k (cm_crit_exit a)" "quiet B T k (cm_pend_context_switch a)"
    "quiet B T k (snd (cm_yield_to_scheduler a))"
  using assms by (auto intro!: quiet_same [OF assms] simp: cm_hook_core)
    (simp_all add: cm_crit_enter_def cm_crit_exit_def cm_pend_context_switch_def cm_yield_to_scheduler_def Let_def)

lemma quiet_error [quiet_intros]: "quiet B T k a \<Longrightarrow> quiet B T k (hrt_error e a)"
  by (auto simp: quiet_def sane_def kshape_def hrt_error_def rq_list_def Let_def)

lemma quiet_write [quiet_intros]:
  assumes "quiet B T k a" "i \<in> T" "sp t = sp (g_tcbs a ! i)"
  shows "quiet B T k (a\<lparr>g_tcbs := (g_tcbs a)[i := t]\<rparr>)"
proof -
  have i: "i < length (g_tcbs a)" using sane_bounds(3,5) [OF quietD(1) [OF assms(1)]] assms(2) by simp
  have "j \<in> T" if "j < HARDRT_MAX_TASKS B" "state ((g_tcbs a)[i := t] ! j) \<noteq> HRT_UNUSED" for j
    using that assms(2) quietD(1) [OF assms(1)] by (cases "j = i") (auto simp: sane_def)
  then have "sane B T (a\<lparr>g_tcbs := (g_tcbs a)[i := t]\<rparr>)"
    using quietD(1) [OF assms(1)] by (auto simp: sane_def kshape_write)
  moreover have "map sp ((g_tcbs a)[i := t]) = map sp (g_tcbs a)"
    using i assms(3) by (metis list_update_id map_update nth_map)
  ultimately show ?thesis using assms(1) by (simp add: quiet_def)
qed

lemma quiet_upd [quiet_intros]:
  assumes "quiet B T k a" "i \<in> T" "\<And>t. sp (f t) = sp t"
  shows "quiet B T k (tcb_upd (Some (int i)) f a)"
proof -
  have "i < length (g_tcbs a)" using sane_bounds(3,5) [OF quietD(1) [OF assms(1)]] assms(2) by simp
  with assms show ?thesis by (simp add: quiet_write)
qed

lemma sane_push:
  assumes "sane B T k" "i \<in> T"
  shows "sane B T (rq_push B p (int i) k)"
proof -
  note b = sane_bounds [OF assms(1)]
  consider "unat p \<ge> HARDRT_MAX_PRIO B" | "unat p < HARDRT_MAX_PRIO B" "length (rq_list B k (unat p)) \<ge> HARDRT_MAX_TASKS B"
    | "unat p < HARDRT_MAX_PRIO B" "length (rq_list B k (unat p)) < HARDRT_MAX_TASKS B" by linarith
  then show ?thesis
  proof cases
    case 1
    with assms(1) show ?thesis by (simp add: rq_push_bad_prio sane_def kshape_def)
  next
    case 2
    with assms(1) b(5) [OF assms(2)] show ?thesis by (simp add: rq_push_full sane_def kshape_def)
  next
    case 3
    note r = rq_push_room [OF b(1) 3(1) b(5) [OF assms(2)] 3(2)]
    from assms show ?thesis by (auto simp: sane_def r(1,2))
  qed
qed

lemma quiet_push [quiet_intros]:
  assumes "quiet B T k a" "i \<in> T"
  shows "quiet B T k (rq_push B p (int i) a)"
  using assms sane_push [OF quietD(1) [OF assms(1)] assms(2)]
    cm_more(1-3) [OF more_basic(4), of B p "int i" a] by (simp add: quiet_def)

lemma quiet_make_ready [quiet_intros]:
  assumes "quiet B T k a" "i \<in> T"
  shows "quiet B T k (hrt__make_ready B (int i) a)"
proof -
  note b = sane_bounds [OF quietD(1) [OF assms(1)]]
  have i: "i < HARDRT_MAX_TASKS B" "i < 256" using b(4) b(5) [OF assms(2)] by simp_all
  show ?thesis using assms i by (auto simp: hrt__make_ready_def Let_def intro!: quiet_intros)
qed

lemma quiet_if: "(c \<Longrightarrow> quiet B T k a) \<Longrightarrow> (\<not> c \<Longrightarrow> quiet B T k b) \<Longrightarrow> quiet B T k (if c then a else b)"
  by simp

section \<open>Tasks and time\<close>

lemma sleep_quiet:
  fixes ms :: u32
  assumes "sane (cm_build L n p dbg) T k"
  shows "quiet (cm_build L n p dbg) T k (snd (hrt_sleep (cm_build L n p dbg) ms k))"
proof -
  obtain c where c: "g_current k = int c" "c \<in> T" "c < n" using sane_current [OF assms] by auto
  show ?thesis using assms c by (auto simp: hrt_sleep_def Let_def intro!: quiet_intros)
qed

lemma quiet_yield [quiet_intros]:
  assumes "quiet (cm_build L n p dbg) T k a"
  shows "quiet (cm_build L n p dbg) T k (snd (hrt_yield (cm_build L n p dbg) a))"
proof -
  note a = quietD(1) [OF assms]
  obtain c where c: "g_current a = int c" "c \<in> T" "c < n" using sane_current [OF a] by auto
  have n: "c < 256" "length (g_tcbs a) = n" using sane_bounds(3,4) [OF a] c(3) by auto
  show ?thesis using assms c n by (auto simp: hrt_yield_def Let_def intro!: quiet_intros)
qed

lemma delete_quiet:
  assumes "sane (cm_build L n p dbg) T k"
  shows "quiet (cm_build L n p dbg) T k (snd (hrt_task_delete (cm_build L n p dbg) k))"
proof -
  obtain c where c: "g_current k = int c" "c \<in> T" "c < n" using sane_current [OF assms] by auto
  show ?thesis using assms c by (auto simp: hrt_task_delete_def hrt__get_current_def Let_def intro!: quiet_intros)
qed

lemma quiet_inc_tick [quiet_intros]: "quiet B T k a \<Longrightarrow> quiet B T k (hrt__inc_tick a)"
  by (auto simp: quiet_def sane_def kshape_def hrt__inc_tick_def rq_list_def Let_def)

lemma quiet_tick_wake:
  assumes "quiet B T k (snd s)" "i < HARDRT_MAX_TASKS B"
  shows "quiet B T k (snd (tick_wake B i s))"
proof -
  obtain trig a where s: "s = (trig, a)" by (cases s)
  note b = quietD(1) [OF assms(1)]
  have "i \<in> T" if "state (g_tcbs a ! i) = HRT_SLEEP" using b assms(2) that by (simp add: s sane_def)
  moreover have "length (g_tcbs a) = HARDRT_MAX_TASKS B" using sane_bounds(3) [OF b] by (simp add: s)
  ultimately show ?thesis using assms by (auto simp: s tick_wake_def Let_def intro!: quiet_intros)
qed

lemma quiet_tick_wakes:
  assumes "quiet B T k (snd s)" "\<forall>i \<in> set is. i < HARDRT_MAX_TASKS B"
  shows "quiet B T k (snd (fold (tick_wake B) is s))"
  using assms by (induction "is" arbitrary: s) (simp_all add: quiet_tick_wake)

lemma quiet_charge:
  assumes "quiet B T k (snd s)"
  shows "quiet B T k (snd (tick_charge B s))"
proof -
  obtain trig a where s: "s = (trig, a)" by (cases s)
  note b = quietD(1) [OF assms]
  obtain c where c: "g_current a = int c" "c \<in> T" "c < HARDRT_MAX_TASKS B" using sane_current [OF b] by (auto simp: s)
  have "length (g_tcbs a) = HARDRT_MAX_TASKS B" using sane_bounds(3) [OF b] by (simp add: s)
  then show ?thesis using assms c by (auto simp: s tick_charge_def hrt__get_current_def Let_def intro!: quiet_intros)
qed

lemma quiet_tick [quiet_intros]:
  assumes "quiet (cm_build L n p dbg) T k a"
  shows "quiet (cm_build L n p dbg) T k (hrt__tick_isr (cm_build L n p dbg) a)"
proof -
  let ?B = "cm_build L n p dbg"
  have "quiet ?B T k (snd (tick_charge ?B (fold (tick_wake ?B) [0..<n] (False, hrt__inc_tick a))))"
    using assms by (intro quiet_charge quiet_tick_wakes) (simp_all add: quiet_inc_tick)
  then show ?thesis by (auto simp: hrt__tick_isr_def Let_def split_beta intro!: quiet_intros)
qed

section \<open>Waiter queues\<close>

context bounded_fifo
begin

lemma push_members: "inv s \<Longrightarrow> ok x \<Longrightarrow> set (lst (push x s)) \<subseteq> insert x (set (lst s))"
  by (auto simp: push_lst)

lemma pop_members:
  assumes "inv s"
  obtains (none) "pop s = (none, s)"
    | (some) x where "x \<in> set (lst s)" "fst (pop s) = enc x" "set (lst (snd (pop s))) \<subseteq> set (lst s)"
  using pop_empty [OF assms] pop_fst [OF assms] pop_lst [OF assms] by (cases "lst s") auto

end

definition sem_sane :: "'p env \<Rightarrow> nat set \<Rightarrow> hrt_sem \<Rightarrow> bool" where
  "sem_sane B T s \<longleftrightarrow> sem_ring B s \<and> set (sem_waiters B s) \<subseteq> T"

definition mutex_sane :: "'p env \<Rightarrow> nat set \<Rightarrow> hrt_mutex \<Rightarrow> bool" where
  "mutex_sane B T m \<longleftrightarrow> mutex_ring B m \<and> set (mutex_waiters B m) \<subseteq> T"

definition queue_sane :: "'p env \<Rightarrow> nat set \<Rightarrow> hrt_queue \<Rightarrow> bool" where
  "queue_sane B T q \<longleftrightarrow> rx_ok B q \<and> tx_ok B q \<and> set (rx_waiters B q) \<subseteq> T \<and> set (tx_waiters B q) \<subseteq> T"

section \<open>Semaphores\<close>

lemma sem_sane_count [simp]: "sem_sane B T (s\<lparr>sem_count := n\<rparr>) = sem_sane B T s"
  by (simp add: sem_sane_def sem_ring_def)

lemma sem_push_sane:
  assumes "sem_sane B T s" "i \<in> T" "i < HARDRT_MAX_TASKS B"
  shows "sem_sane B T (fst (sem_waitq_push B (word_of_nat i) (s, k)))" "snd (sem_waitq_push B (word_of_nat i) (s, k)) = k"
proof -
  have r: "sem_ring B s" using assms(1) by (simp add: sem_sane_def)
  show "sem_sane B T (fst (sem_waitq_push B (word_of_nat i) (s, k)))"
    using semq.push_members [of B "(s, k)" i] semq.push_inv [of B "(s, k)" i] assms by (auto simp: sem_sane_def)
  have "length (sem_waiters B s) \<le> HARDRT_MAX_TASKS B" using semq.lst_bound [of B "(s, k)"] r by simp
  then show "snd (sem_waitq_push B (word_of_nat i) (s, k)) = k"
    using sem_push_room(1) [OF r assms(3)] sem_push_full [OF r assms(3)] by (cases "length (sem_waiters B s) < HARDRT_MAX_TASKS B") auto
qed

lemma sem_give_cs_quiet:
  assumes "quiet B T k a" "sem_sane B T s"
  shows "quiet B T k (snd (snd (sem_give_cs B s a)))" "sem_sane B T (fst (snd (sem_give_cs B s a)))"
proof -
  have r: "sem_ring B s" and w: "set (sem_waiters B s) \<subseteq> T" using assms(2) by (simp_all add: sem_sane_def)
  have "quiet B T k (snd (snd (sem_give_cs B s a))) \<and> sem_sane B T (fst (snd (sem_give_cs B s a)))"
  proof (cases "sem_waiters B s")
    case Nil
    then show ?thesis using assms by (simp add: sem_give_cs_def sem_pop_empty)
  next
    case (Cons i ws)
    note p = sem_pop_Cons [OF r Cons, of a]
    have i: "i \<in> T" "i < HARDRT_MAX_TASKS B" using w Cons r by (auto simp: sem_ring_def)
    obtain s' where e: "sem_waitq_pop B (s, a) = (int i, s', a)"
      using p(1,6) by (metis prod.collapse)
    have "sem_sane B T s'" using p(2,3) w Cons by (simp add: e sem_sane_def)
    then show ?thesis using assms(1) i by (simp add: sem_give_cs_def e quiet_make_ready)
  qed
  then show "quiet B T k (snd (snd (sem_give_cs B s a)))" "sem_sane B T (fst (snd (sem_give_cs B s a)))" by simp_all
qed

lemma sem_take_quiet:
  fixes L :: cm_link
  assumes "sane (cm_build L n p dbg) T k" "sem_sane (cm_build L n p dbg) T s"
  defines "B \<equiv> cm_build L n p dbg"
  shows "quiet B T k (snd (snd (hrt_sem_take B s k)))" "sem_sane B T (fst (snd (hrt_sem_take B s k)))"
    "quiet B T k (snd (snd (hrt_sem_try_take B s k)))" "sem_sane B T (fst (snd (hrt_sem_try_take B s k)))"
proof -
  note q0 = quiet_refl [OF assms(1)]
  let ?a = "cm_crit_enter (cm_crit_exit (cm_crit_enter k))"
  have q: "quiet B T k ?a" using q0 by (auto simp: B_def intro!: quiet_intros)
  obtain c where c: "g_current ?a = int c" "c \<in> T" "c < n" using sane_current [OF quietD(1) [OF q]] by (auto simp: B_def)
  have cur: "g_current (cm_crit_exit (cm_crit_enter k)) = int c" using c(1) core_fields(2) [OF cm_hook_core(4)] by metis
  have p: "sem_sane B T (fst (sem_waitq_push B (word_of_nat c) (s, ?a)))" "snd (sem_waitq_push B (word_of_nat c) (s, ?a)) = ?a"
    using sem_push_sane [of B T s c ?a] assms(2) c(2,3) by (simp_all add: B_def)
  show "quiet B T k (snd (snd (hrt_sem_try_take B s k)))" "sem_sane B T (fst (snd (hrt_sem_try_take B s k)))"
    using q0 assms(2) by (auto simp: hrt_sem_try_take_def B_def Let_def split_beta intro!: quiet_intros)
  show "quiet B T k (snd (snd (hrt_sem_take B s k)))" "sem_sane B T (fst (snd (hrt_sem_take B s k)))"
    using q0 assms(2) c cur p q
    by (auto simp: hrt_sem_take_def hrt_sem_try_take_def sem_take_slow_def hrt__get_current_def B_def Let_def split_beta
        intro!: quiet_intros)
qed

lemma sem_give_quiet:
  fixes L :: cm_link
  assumes "sane (cm_build L n p dbg) T k" "sem_sane (cm_build L n p dbg) T s"
  defines "B \<equiv> cm_build L n p dbg"
  shows "quiet B T k (snd (snd (hrt_sem_give B s k)))" "sem_sane B T (fst (snd (hrt_sem_give B s k)))"
    "quiet B T k (snd (snd (hrt_sem_give_from_isr B s k)))" "sem_sane B T (fst (snd (hrt_sem_give_from_isr B s k)))"
proof -
  have q: "quiet B T k (cm_crit_enter k)" using quiet_refl [OF assms(1)] by (auto simp: B_def intro!: quiet_intros)
  note g = sem_give_cs_quiet [OF q, of s]
  show "quiet B T k (snd (snd (hrt_sem_give B s k)))" "sem_sane B T (fst (snd (hrt_sem_give B s k)))"
    "quiet B T k (snd (snd (hrt_sem_give_from_isr B s k)))" "sem_sane B T (fst (snd (hrt_sem_give_from_isr B s k)))"
    using g assms(2) by (auto simp: hrt_sem_give_def hrt_sem_give_from_isr_def sem_give_common_def B_def Let_def split_beta
        intro!: quiet_intros)
qed

section \<open>Mutexes\<close>

lemma mutex_sane_owner [simp]: "mutex_sane B T (m\<lparr>locked := l, owner := x\<rparr>) = mutex_sane B T m"
  by (simp add: mutex_sane_def)

lemma mutex_push_sane:
  assumes "mutex_sane B T m" "i \<in> T" "i < HARDRT_MAX_TASKS B"
  shows "mutex_sane B T (mutex_waitq_push B (word_of_nat i) m)"
  using mtxq.push_members [of B m i] mtxq.push_inv [of B m i] assms by (auto simp: mutex_sane_def)

lemma mutex_lock_quiet:
  fixes L :: cm_link
  assumes "sane (cm_build L n p dbg) T k" "mutex_sane (cm_build L n p dbg) T m"
  defines "B \<equiv> cm_build L n p dbg"
  shows "quiet B T k (snd (snd (hrt_mutex_lock B m k)))" "mutex_sane B T (fst (snd (hrt_mutex_lock B m k)))"
    "quiet B T k (snd (snd (hrt_mutex_try_lock B m k)))" "mutex_sane B T (fst (snd (hrt_mutex_try_lock B m k)))"
proof -
  note q0 = quiet_refl [OF assms(1)]
  obtain c where c: "g_current k = int c" "c \<in> T" "c < n" using sane_current [OF assms(1)] by auto
  have p: "mutex_sane B T (mutex_waitq_push B (word_of_nat c) m)" using mutex_push_sane [of B T m c] assms(2) c(2,3) by (simp add: B_def)
  show "quiet B T k (snd (snd (hrt_mutex_try_lock B m k)))" "mutex_sane B T (fst (snd (hrt_mutex_try_lock B m k)))"
    using q0 assms(2) by (auto simp: hrt_mutex_try_lock_def hrt__get_current_def B_def Let_def split_beta intro!: quiet_intros)
  show "quiet B T k (snd (snd (hrt_mutex_lock B m k)))" "mutex_sane B T (fst (snd (hrt_mutex_lock B m k)))"
    using q0 assms(2) c p
    by (auto simp: hrt_mutex_lock_def hrt_mutex_try_lock_def mutex_lock_slow_def hrt__get_current_def B_def Let_def split_beta
        intro!: quiet_intros)
qed

lemma mutex_unlock_quiet:
  fixes L :: cm_link
  assumes "sane (cm_build L n p dbg) T k" "mutex_sane (cm_build L n p dbg) T m"
  defines "B \<equiv> cm_build L n p dbg"
  shows "quiet B T k (snd (snd (hrt_mutex_unlock B m k)))" "mutex_sane B T (fst (snd (hrt_mutex_unlock B m k)))"
proof -
  note q0 = quiet_refl [OF assms(1)]
  have r: "mutex_ring B m" "set (mutex_waiters B m) \<subseteq> T" using assms(2) by (simp_all add: mutex_sane_def B_def)
  have "quiet B T k (snd (snd (hrt_mutex_unlock B m k))) \<and> mutex_sane B T (fst (snd (hrt_mutex_unlock B m k)))"
  proof (cases "mutex_waiters B m")
    case Nil
    then show ?thesis using q0 assms(2)
      by (auto simp: hrt_mutex_unlock_def hrt__get_current_def mutex_pop_empty B_def Let_def split_beta intro!: quiet_intros)
  next
    case (Cons i ws)
    obtain m' where e: "mutex_waitq_pop B m = (int i, m')" using mutex_pop_Cons(1) [OF r(1) Cons] by (metis prod.collapse)
    have m': "mutex_sane B T m'" and i: "i \<in> T" using mutex_pop_Cons(2,3) [OF r(1) Cons] r(2) Cons by (simp_all add: e mutex_sane_def)
    show ?thesis using q0 assms(2) e m' i
      by (auto simp: hrt_mutex_unlock_def hrt__get_current_def B_def Let_def split_beta intro!: quiet_intros)
  qed
  then show "quiet B T k (snd (snd (hrt_mutex_unlock B m k)))" "mutex_sane B T (fst (snd (hrt_mutex_unlock B m k)))" by simp_all
qed

section \<open>Queues\<close>

lemma queue_sane_buffer [simp]:
  "queue_sane B T (snd (enqueue_cs q x)) = queue_sane B T q" "queue_sane B T (snd (snd (dequeue_cs q x))) = queue_sane B T q"
  by (simp_all add: queue_sane_def)

lemma queue_push_sane:
  assumes "queue_sane B T q" "i \<in> T" "i < HARDRT_MAX_TASKS B"
  shows "queue_sane B T (rx_push B (word_of_nat i) q)" "queue_sane B T (tx_push B (word_of_nat i) q)"
  using rxq.push_members [of B q i] rxq.push_inv [of B q i] txq.push_members [of B q i] txq.push_inv [of B q i] assms
  by (auto simp: queue_sane_def)

text \<open>Waking the oldest waiter, if there is one.\<close>

lemma rx_wake_quiet:
  assumes "quiet B T k a" "queue_sane B T q"
  shows "quiet B T k (if fst (rx_pop B q) \<ge> 0 then hrt__make_ready B (fst (rx_pop B q)) a else a)"
    "queue_sane B T (snd (rx_pop B q))"
proof -
  have r: "rx_ok B q" using assms(2) by (simp add: queue_sane_def)
  have "quiet B T k (if fst (rx_pop B q) \<ge> 0 then hrt__make_ready B (fst (rx_pop B q)) a else a) \<and> queue_sane B T (snd (rx_pop B q))"
    using assms rxq.pop_inv [OF r] by (cases rule: rxq.pop_members [OF r]) (auto simp: queue_sane_def intro!: quiet_intros)
  then show "quiet B T k (if fst (rx_pop B q) \<ge> 0 then hrt__make_ready B (fst (rx_pop B q)) a else a)"
    "queue_sane B T (snd (rx_pop B q))" by simp_all
qed

lemma tx_wake_quiet:
  assumes "quiet B T k a" "queue_sane B T q"
  shows "quiet B T k (if fst (tx_pop B q) \<ge> 0 then hrt__make_ready B (fst (tx_pop B q)) a else a)"
    "queue_sane B T (snd (tx_pop B q))"
proof -
  have r: "tx_ok B q" using assms(2) by (simp add: queue_sane_def)
  have "quiet B T k (if fst (tx_pop B q) \<ge> 0 then hrt__make_ready B (fst (tx_pop B q)) a else a) \<and> queue_sane B T (snd (tx_pop B q))"
    using assms txq.pop_inv [OF r] by (cases rule: txq.pop_members [OF r]) (auto simp: queue_sane_def intro!: quiet_intros)
  then show "quiet B T k (if fst (tx_pop B q) \<ge> 0 then hrt__make_ready B (fst (tx_pop B q)) a else a)"
    "queue_sane B T (snd (tx_pop B q))" by simp_all
qed

lemma send_cs_quiet:
  assumes "quiet B T k a" "queue_sane B T q"
  shows "quiet B T k (snd (snd (send_cs B q x a)))" "queue_sane B T (fst (snd (send_cs B q x a)))"
  using rx_wake_quiet [OF assms(1), of "snd (enqueue_cs q x)"] assms by (auto simp: send_cs_def split_beta)

lemma recv_cs_quiet:
  assumes "quiet B T k a" "queue_sane B T q"
  shows "quiet B T k (snd (snd (recv_cs B q x a)))" "queue_sane B T (fst (snd (recv_cs B q x a)))"
  using tx_wake_quiet [OF assms(1), of "snd (snd (dequeue_cs q x))"] assms by (auto simp: recv_cs_def split_beta)

lemma queue_try_quiet:
  fixes L :: cm_link
  assumes "quiet (cm_build L n p dbg) T k a" "queue_sane (cm_build L n p dbg) T q"
  defines "B \<equiv> cm_build L n p dbg"
  shows "quiet B T k (snd (snd (hrt_queue_try_send B q item a)))" "queue_sane B T (fst (snd (hrt_queue_try_send B q item a)))"
    "quiet B T k (snd (snd (hrt_queue_try_recv B q out a)))" "queue_sane B T (fst (snd (hrt_queue_try_recv B q out a)))"
    "quiet B T k (snd (snd (hrt_queue_try_send_from_isr B q item a)))"
    "queue_sane B T (fst (snd (hrt_queue_try_send_from_isr B q item a)))"
    "quiet B T k (snd (snd (hrt_queue_try_recv_from_isr B q out a)))"
    "queue_sane B T (fst (snd (hrt_queue_try_recv_from_isr B q out a)))"
proof -
  have e: "quiet B T k (cm_crit_enter a)" using assms(1) by (auto simp: B_def intro!: quiet_intros)
  note s = send_cs_quiet [OF e assms(2) [folded B_def]]
  note r = recv_cs_quiet [OF e assms(2) [folded B_def]]
  show "quiet B T k (snd (snd (hrt_queue_try_send B q item a)))" "queue_sane B T (fst (snd (hrt_queue_try_send B q item a)))"
    using assms(1,2) s by (auto simp: hrt_queue_try_send_def B_def Let_def split_beta split: option.split intro!: quiet_intros)
  show "quiet B T k (snd (snd (hrt_queue_try_recv B q out a)))" "queue_sane B T (fst (snd (hrt_queue_try_recv B q out a)))"
    using assms(1,2) r by (auto simp: hrt_queue_try_recv_def B_def Let_def split_beta split: option.split intro!: quiet_intros)
  show "quiet B T k (snd (snd (hrt_queue_try_send_from_isr B q item a)))"
    "queue_sane B T (fst (snd (hrt_queue_try_send_from_isr B q item a)))"
    using assms(1,2) s by (auto simp: hrt_queue_try_send_from_isr_def B_def Let_def split_beta split: option.split intro!: quiet_intros)
  show "quiet B T k (snd (snd (hrt_queue_try_recv_from_isr B q out a)))"
    "queue_sane B T (fst (snd (hrt_queue_try_recv_from_isr B q out a)))"
    using assms(1,2) r by (auto simp: hrt_queue_try_recv_from_isr_def B_def Let_def split_beta split: option.split intro!: quiet_intros)
qed

lemma queue_slow_quiet:
  fixes L :: cm_link
  assumes "quiet (cm_build L n p dbg) T k a" "queue_sane (cm_build L n p dbg) T q"
  defines "B \<equiv> cm_build L n p dbg"
  shows "quiet B T k (snd (snd (queue_send_slow B q x a)))" "queue_sane B T (fst (snd (queue_send_slow B q x a)))"
    "quiet B T k (snd (snd (queue_recv_slow B q x a)))" "queue_sane B T (fst (snd (queue_recv_slow B q x a)))"
proof -
  have e: "quiet B T k (cm_crit_enter a)" using assms(1) by (auto simp: B_def intro!: quiet_intros)
  have s: "queue_sane B T (snd (enqueue_cs q x))" "queue_sane B T (snd (snd (dequeue_cs q x)))" using assms(2) by (simp_all add: B_def)
  note w = rx_wake_quiet [OF e s(1)] tx_wake_quiet [OF e s(2)]
  obtain c where c: "g_current a = int c" "c \<in> T" "c < n" using sane_current [OF quietD(1) [OF assms(1)]] by auto
  note p = queue_push_sane [OF assms(2) c(2), folded B_def]
  show "quiet B T k (snd (snd (queue_send_slow B q x a)))" "queue_sane B T (fst (snd (queue_send_slow B q x a)))"
    using e w(1,2) p c by (auto simp: queue_send_slow_def hrt__get_current_def B_def Let_def split_beta intro!: quiet_intros)
  show "quiet B T k (snd (snd (queue_recv_slow B q x a)))" "queue_sane B T (fst (snd (queue_recv_slow B q x a)))"
    using e w(3,4) p c by (auto simp: queue_recv_slow_def hrt__get_current_def B_def Let_def split_beta intro!: quiet_intros)
qed

lemma queue_iter_quiet:
  fixes L :: cm_link
  assumes "sane (cm_build L n p dbg) T k" "queue_sane (cm_build L n p dbg) T q"
  defines "B \<equiv> cm_build L n p dbg"
  shows "quiet B T k (snd (snd (queue_send_iter B q x k)))" "queue_sane B T (fst (snd (queue_send_iter B q x k)))"
    "quiet B T k (snd (snd (queue_recv_iter B q x k)))" "queue_sane B T (fst (snd (queue_recv_iter B q x k)))"
proof -
  note t = queue_try_quiet [OF quiet_refl [OF assms(1)] assms(2)]
  note s = queue_slow_quiet [OF t(1,2) [of "Some x"], of x, folded B_def]
  note r = queue_slow_quiet [OF t(3,4) [of "Some x"], folded B_def]
  show "quiet B T k (snd (snd (queue_send_iter B q x k)))" "queue_sane B T (fst (snd (queue_send_iter B q x k)))"
    using t(1,2) [of "Some x", folded B_def] s(1,2) by (auto simp: queue_send_iter_def split_beta)
  show "quiet B T k (snd (snd (queue_recv_iter B q x k)))" "queue_sane B T (fst (snd (queue_recv_iter B q x k)))"
    using t(3,4) [of "Some x", folded B_def] r(3,4) by (auto simp: queue_recv_iter_def split_beta)
qed

section \<open>The scheduling decision\<close>

lemma pick_sane:
  assumes "rq_sane B T k"
  obtains n where "fst (hrt__pick_next_ready B k) = int n" "n \<in> T" "rq_sane B T (snd (hrt__pick_next_ready B k))"
proof -
  have k: "kshape B k" "valid_build B" using assms kshapeD(1) by (auto simp: rq_sane_def)
  have T: "i < HARDRT_MAX_TASKS B" if "i \<in> T" for i using assms that by (auto simp: rq_sane_def)
  have q: "\<forall>r < HARDRT_MAX_PRIO B. \<forall>i \<in> set (rq_list B k r). i < HARDRT_MAX_TASKS B"
    using assms T by (auto simp: rq_sane_def)
  show thesis
  proof (cases rule: pick_cases_shape [OF k(1) q])
    case 1
    have "HRT_IDLE_ID B = int (HARDRT_MAX_TASKS B - 1)" "HARDRT_MAX_TASKS B - 1 \<in> T"
      using assms valid_build_bounds(1) [OF k(2)] by (auto simp: HRT_IDLE_ID_def rq_sane_def)
    with 1 assms that show ?thesis by simp
  next
    case (2 r i js)
    have i: "i \<in> T" using assms 2(1,2) by (auto simp: rq_sane_def)
    note f = pick_found_shape [OF k(1) 2(1,2) T [OF i] 2(3)]
    have "rq_sane B T (snd (hrt__pick_next_ready B k))"
      using assms 2(1,2) f(2) by (fastforce simp: rq_sane_def f(3))
    with f(1) i that show ?thesis by blast
  qed
qed

lemma schedule_sane:
  assumes "sane B T k" "g_current k = int c" "s \<noteq> 0"
  defines "ts \<equiv> (g_tcbs k)[c := (g_tcbs k ! c)\<lparr>sp := s\<rparr>]"
  obtains n k' where "hrt__schedule B s k = (sp (ts ! n), k')" "n \<in> T" "g_current k' = int n" "g_tcbs k' = ts"
    "sane B T k'" "g_fault k' = g_fault k"
proof -
  note b = sane_bounds [OF assms(1)]
  have c: "c \<in> T" "c < HARDRT_MAX_TASKS B" using sane_current [OF assms(1)] assms(2) by auto
  let ?k1 = "k\<lparr>g_tcbs := ts\<rparr>"
  have "j \<in> T" if "j < HARDRT_MAX_TASKS B" "state (ts ! j) \<noteq> HRT_UNUSED" for j
    using that assms(1) c(1) by (cases "j = c") (auto simp: sane_def ts_def)
  then have k1: "sane B T ?k1" using assms(1) by (auto simp: sane_def ts_def kshape_write)
  then have rq: "rq_sane B T (requeued B c s k)" using sane_push [OF k1 c(1)] by (simp add: requeued_def ts_def Let_def sane_iff)
  obtain n where n: "fst (hrt__pick_next_ready B (requeued B c s k)) = int n" "n \<in> T"
    "rq_sane B T (snd (hrt__pick_next_ready B (requeued B c s k)))" using pick_sane [OF rq] by blast
  obtain k3 where k3: "hrt__pick_next_ready B (requeued B c s k) = (int n, k3)" using n(1) by (metis prod.collapse)
  note e = schedule_eq [OF b(1) assms(2) c(2) assms(3) k3 b(5) [OF n(2)]]
  have t: "g_tcbs k3 = ts" "g_fault k3 = g_fault k"
    using pick_fields(1,6) [of B "requeued B c s k", unfolded k3 snd_conv]
    by (simp_all add: requeued_def ts_def Let_def split: if_splits)
  have "sane B T (k3\<lparr>g_current := int n\<rparr>)" using n(2,3) by (auto simp: k3 sane_def rq_sane_def kshape_def)
  with e t n(2) that show thesis by simp
qed

lemma first_schedule_sane:
  assumes "rq_sane B T k"
  obtains n k' where "hrt__schedule B 0 k = (sp (g_tcbs k ! n), k')" "n \<in> T" "g_current k' = int n" "g_tcbs k' = g_tcbs k"
    "sane B T k'" "g_fault k' = g_fault k"
proof -
  obtain n where n: "fst (hrt__pick_next_ready B k) = int n" "n \<in> T" "rq_sane B T (snd (hrt__pick_next_ready B k))"
    using pick_sane [OF assms] by blast
  obtain k3 where k3: "hrt__pick_next_ready B k = (int n, k3)" using n(1) by (metis prod.collapse)
  have t: "g_tcbs k3 = g_tcbs k" "g_fault k3 = g_fault k" using pick_fields(1,6) [of B k, unfolded k3 snd_conv] by simp_all
  have l: "n < HARDRT_MAX_TASKS B" "n < length (g_tcbs k3)" using n(2) assms kshapeD(2) [of B k] t(1) by (auto simp: rq_sane_def)
  have "hrt__schedule B 0 k = (sp (g_tcbs k ! n), k3\<lparr>g_current := int n\<rparr>)"
    using l t(1) tcb_of_Some [of n "k3\<lparr>g_current := int n\<rparr>"] deref_Some [of n "k3\<lparr>g_current := int n\<rparr>"]
    by (simp add: hrt__schedule_def k3 hrt__set_current_def get_sp_def Let_def)
  moreover have "sane B T (k3\<lparr>g_current := int n\<rparr>)" using n(2,3) by (auto simp: k3 sane_def rq_sane_def kshape_def)
  ultimately show thesis using that n(2) t by simp
qed

end
