(* ===== verification/HRT_CM_System.thy ===== *)
theory HRT_CM_System
  imports HRT_CM_Calls
begin

text \<open>
  A whole Cortex-M system: one register bank and one memory, shared by all tasks.

  A world is the machine with the registers the hardware stacks on exception entry (r0-r3, r12, lr,
  pc, xPSR) and the application's semaphores, mutexes and queues. Its steps are those of the running
  task's own code, which may change the registers and write anywhere but into the stacks of the other
  tasks; the calls of the kernel; interrupts, the tick among them; and the PendSV exception, with the
  handler's instructions. \<open>stk\<close> gives the stack area of each task, \<open>T\<close> the tasks that exist, the idle
  task included.

  A task has a \<open>context\<close>: the processor's registers if it runs, the frame on its stack otherwise.
  The lemmas show that only the task's own code changes its context: every task has the registers
  and the stack to itself. The hardware is taken to push eight words, so the stack pointer is kept
  eight-byte aligned and the floating-point registers are not in use, as the return value
  \<open>0xFFFFFFFD\<close> of the handler presumes.
\<close>

section \<open>Worlds and their steps\<close>

record cm_world =
  mach :: cortexm
  regs :: "u32 list"
  cm_sems :: "hrt_sem list"
  cm_mutexes :: "hrt_mutex list"
  cm_queues :: "hrt_queue list"

datatype cm_call =
    CallSleep u32 | CallYield | CallDelete | CallSemTake nat | CallSemTryTake nat | CallSemGive nat
  | CallLock nat | CallTryLock nat | CallUnlock nat
  | CallSend nat "u8 list" | CallTrySend nat "u8 list option" | CallRecv nat "u8 list" | CallTryRecv nat "u8 list option"

datatype cm_irq = IrqSysTick | IrqTimer | IrqSemGive nat | IrqSend nat "u8 list option" | IrqRecv nat "u8 list option"

definition put_sem :: "nat \<Rightarrow> hrt_sem \<times> cortexm \<Rightarrow> cm_world \<Rightarrow> cm_world" where
  "put_sem i r w = w\<lparr>mach := snd r, cm_sems := (cm_sems w)[i := fst r]\<rparr>"

definition put_mutex :: "nat \<Rightarrow> hrt_mutex \<times> cortexm \<Rightarrow> cm_world \<Rightarrow> cm_world" where
  "put_mutex i r w = w\<lparr>mach := snd r, cm_mutexes := (cm_mutexes w)[i := fst r]\<rparr>"

definition put_queue :: "nat \<Rightarrow> hrt_queue \<times> cortexm \<Rightarrow> cm_world \<Rightarrow> cm_world" where
  "put_queue i r w = w\<lparr>mach := snd r, cm_queues := (cm_queues w)[i := fst r]\<rparr>"

fun cm_do :: "cortexm build \<Rightarrow> cm_call \<Rightarrow> cm_world \<Rightarrow> cm_world" where
  "cm_do B (CallSleep ms) w = w\<lparr>mach := snd (hrt_sleep B ms (mach w))\<rparr>"
| "cm_do B CallYield w = w\<lparr>mach := snd (hrt_yield B (mach w))\<rparr>"
| "cm_do B CallDelete w = w\<lparr>mach := snd (hrt_task_delete B (mach w))\<rparr>"
| "cm_do B (CallSemTake i) w = put_sem i (snd (hrt_sem_take B (cm_sems w ! i) (mach w))) w"
| "cm_do B (CallSemTryTake i) w = put_sem i (snd (hrt_sem_try_take B (cm_sems w ! i) (mach w))) w"
| "cm_do B (CallSemGive i) w = put_sem i (snd (hrt_sem_give B (cm_sems w ! i) (mach w))) w"
| "cm_do B (CallLock i) w = put_mutex i (snd (hrt_mutex_lock B (cm_mutexes w ! i) (mach w))) w"
| "cm_do B (CallTryLock i) w = put_mutex i (snd (hrt_mutex_try_lock B (cm_mutexes w ! i) (mach w))) w"
| "cm_do B (CallUnlock i) w = put_mutex i (snd (hrt_mutex_unlock B (cm_mutexes w ! i) (mach w))) w"
| "cm_do B (CallSend i x) w = put_queue i (snd (queue_send_iter B (cm_queues w ! i) x (mach w))) w"
| "cm_do B (CallTrySend i x) w = put_queue i (snd (hrt_queue_try_send B (cm_queues w ! i) x (mach w))) w"
| "cm_do B (CallRecv i x) w = put_queue i (snd (queue_recv_iter B (cm_queues w ! i) x (mach w))) w"
| "cm_do B (CallTryRecv i x) w = put_queue i (snd (hrt_queue_try_recv B (cm_queues w ! i) x (mach w))) w"

fun cm_call_ok :: "cm_world \<Rightarrow> cm_call \<Rightarrow> bool" where
  "cm_call_ok w (CallSemTake i) \<longleftrightarrow> i < length (cm_sems w)"
| "cm_call_ok w (CallSemTryTake i) \<longleftrightarrow> i < length (cm_sems w)"
| "cm_call_ok w (CallSemGive i) \<longleftrightarrow> i < length (cm_sems w)"
| "cm_call_ok w (CallLock i) \<longleftrightarrow> i < length (cm_mutexes w)"
| "cm_call_ok w (CallTryLock i) \<longleftrightarrow> i < length (cm_mutexes w)"
| "cm_call_ok w (CallUnlock i) \<longleftrightarrow> i < length (cm_mutexes w)"
| "cm_call_ok w (CallSend i x) \<longleftrightarrow> i < length (cm_queues w)"
| "cm_call_ok w (CallTrySend i x') \<longleftrightarrow> i < length (cm_queues w)"
| "cm_call_ok w (CallRecv i x) \<longleftrightarrow> i < length (cm_queues w)"
| "cm_call_ok w (CallTryRecv i x') \<longleftrightarrow> i < length (cm_queues w)"
| "cm_call_ok w _ \<longleftrightarrow> True"

text \<open>An interrupt: the hardware stacks the registers, the handler runs on the main stack, the
  registers are popped again.\<close>

fun cm_irq_body :: "cortexm build \<Rightarrow> cm_irq \<Rightarrow> cm_world \<Rightarrow> cm_world" where
  "cm_irq_body B IrqSysTick w = w\<lparr>mach := SysTick_Handler B (mach w)\<rparr>"
| "cm_irq_body B IrqTimer w = w\<lparr>mach := hrt_tick_from_isr B (mach w)\<rparr>"
| "cm_irq_body B (IrqSemGive i) w = put_sem i (snd (hrt_sem_give_from_isr B (cm_sems w ! i) (mach w))) w"
| "cm_irq_body B (IrqSend i x) w = put_queue i (snd (hrt_queue_try_send_from_isr B (cm_queues w ! i) x (mach w))) w"
| "cm_irq_body B (IrqRecv i x) w = put_queue i (snd (hrt_queue_try_recv_from_isr B (cm_queues w ! i) x (mach w))) w"

fun cm_irq_ok :: "cm_world \<Rightarrow> cm_irq \<Rightarrow> bool" where
  "cm_irq_ok w (IrqSemGive i) \<longleftrightarrow> i < length (cm_sems w)"
| "cm_irq_ok w (IrqSend i x) \<longleftrightarrow> i < length (cm_queues w)"
| "cm_irq_ok w (IrqRecv i x) \<longleftrightarrow> i < length (cm_queues w)"
| "cm_irq_ok w _ \<longleftrightarrow> True"

definition cm_interrupt :: "cortexm build \<Rightarrow> cm_irq \<Rightarrow> cm_world \<Rightarrow> cm_world" where
  "cm_interrupt B q w =
     (let w = cm_irq_body B q (w\<lparr>mach := hw_stack (regs w) (mach w)\<rparr>)
      in case hw_unstack (mach w) of (rs, k) \<Rightarrow> w\<lparr>regs := rs, mach := k\<rparr>)"

text \<open>The PendSV exception, from thread mode to thread mode.\<close>

definition cm_switch :: "cortexm build \<Rightarrow> cm_world \<Rightarrow> cm_world option" where
  "cm_switch B w =
     (case PendSV_Handler B 12 0xFFFFFFFD \<lparr>pc = At 0, r0 = regs w ! 0, r1 = regs w ! 1, lr = ExcReturn 0xFFFFFFFD\<rparr>
             (hw_stack (regs w) (mach w)) of
        None \<Rightarrow> None
      | Some (exc, k) \<Rightarrow>
          if exc = 0xFFFFFFFD then (case hw_unstack k of (rs, k) \<Rightarrow> Some (w\<lparr>regs := rs, mach := k\<rparr>)) else None)"

section \<open>Stacks and contexts\<close>

type_synonym stack_area = "u32 \<times> u32"

definition stacks_ok :: "(nat \<Rightarrow> stack_area) \<Rightarrow> nat set \<Rightarrow> bool" where
  "stacks_ok stk T \<longleftrightarrow> (\<forall>i \<in> T. 0 < fst (stk i)) \<and>
     (\<forall>i \<in> T. \<forall>j \<in> T. i \<noteq> j \<longrightarrow> snd (stk i) \<le> fst (stk j) \<or> snd (stk j) \<le> fst (stk i))"

definition in_area :: "stack_area \<Rightarrow> u32 \<Rightarrow> bool" where
  "in_area a x \<longleftrightarrow> fst a \<le> x \<and> x < snd a"

text \<open>A stack pointer with room for one frame below it.\<close>

definition room :: "stack_area \<Rightarrow> u32 \<Rightarrow> bool" where
  "room a p \<longleftrightarrow> unat (fst a) + 64 \<le> unat p \<and> p \<le> snd a"

type_synonym cm_context = "u32 list \<times> u32 list \<times> u32"

definition frame_at :: "(u32 \<Rightarrow> u32) \<Rightarrow> u32 \<Rightarrow> cm_context" where
  "frame_at m s = (load_words m (s + 32) 8, load_words m s 8, s + 64)"

definition task_context :: "cm_world \<Rightarrow> nat \<Rightarrow> cm_context" where
  "task_context w i =
     (if g_current (mach w) = int i then (regs w, r4_r11 (mach w), psp (mach w))
      else frame_at (mem (mach w)) (sp (g_tcbs (mach w) ! i)))"

definition context_psp :: "cm_context \<Rightarrow> u32" where
  "context_psp c = snd (snd c)"

definition task_view :: "(nat \<Rightarrow> stack_area) \<Rightarrow> cm_world \<Rightarrow> nat \<Rightarrow> cm_context \<times> (u32 \<Rightarrow> u32 option)" where
  "task_view stk w i =
     (task_context w i,
      \<lambda>x. if context_psp (task_context w i) \<le> x \<and> x < snd (stk i) then Some (mem (mach w) x) else None)"

definition objects_sane :: "cortexm build \<Rightarrow> nat set \<Rightarrow> cm_world \<Rightarrow> bool" where
  "objects_sane B T w \<longleftrightarrow> (\<forall>s \<in> set (cm_sems w). sem_sane B T s) \<and> (\<forall>m \<in> set (cm_mutexes w). mutex_sane B T m) \<and>
     (\<forall>q \<in> set (cm_queues w). queue_sane B T q)"

definition cm_inv :: "cortexm build \<Rightarrow> (nat \<Rightarrow> stack_area) \<Rightarrow> nat set \<Rightarrow> cm_world \<Rightarrow> bool" where
  "cm_inv B stk T w \<longleftrightarrow> sane B T (mach w) \<and> stacks_ok stk T \<and> length (regs w) = 8 \<and> length (r4_r11 (mach w)) = 8 \<and>
     (\<forall>i \<in> T. room (stk i) (context_psp (task_context w i))) \<and> objects_sane B T w"

datatype cm_event = Ran nat | Called | Interrupted | Switched

inductive cm_sys :: "cortexm build \<Rightarrow> (nat \<Rightarrow> stack_area) \<Rightarrow> nat set \<Rightarrow> cm_world \<Rightarrow> cm_event \<Rightarrow> cm_world \<Rightarrow> bool"
  for B stk T where
  thread: "g_current (mach w) = int c \<Longrightarrow> length rs = 8 \<Longrightarrow> length ws = 8 \<Longrightarrow> room (stk c) p \<Longrightarrow>
    (\<forall>i \<in> T. i \<noteq> c \<longrightarrow> (\<forall>x. in_area (stk i) x \<longrightarrow> m x = mem (mach w) x)) \<Longrightarrow>
    cm_sys B stk T w (Ran c) (w\<lparr>regs := rs, mach := (mach w)\<lparr>mem := m, psp := p, r4_r11 := ws\<rparr>\<rparr>)"
| call: "cm_call_ok w f \<Longrightarrow> cm_sys B stk T w Called (cm_do B f w)"
| irq: "cm_irq_ok w q \<Longrightarrow> cm_sys B stk T w Interrupted (cm_interrupt B q w)"
| switch: "pendsv_taken (mach w) \<Longrightarrow> cm_switch B w = Some w' \<Longrightarrow> cm_sys B stk T w Switched w'"

inductive cm_runs :: "cortexm build \<Rightarrow> (nat \<Rightarrow> stack_area) \<Rightarrow> nat set \<Rightarrow> cm_world \<Rightarrow> cm_event list \<Rightarrow> cm_world \<Rightarrow> bool"
  for B stk T where
  none: "cm_runs B stk T w [] w"
| more: "cm_sys B stk T w e w' \<Longrightarrow> cm_runs B stk T w' es w'' \<Longrightarrow> cm_runs B stk T w (e # es) w''"

inductive_cases cm_runsE: "cm_runs B stk T w es w'"

section \<open>Memory\<close>

lemma frame_at_cong:
  assumes "unat s + 64 < 2 ^ 32" "\<And>x. unat s \<le> unat x \<Longrightarrow> unat x < unat s + 64 \<Longrightarrow> m x = m' x"
  shows "frame_at m s = frame_at m' s"
proof -
  have "unat (s + 32) = unat s + 32" using assms(1) unat_plus_small [of s 32] by simp
  then show ?thesis unfolding frame_at_def using assms by (auto intro!: load_words_cong)
qed

text \<open>What is in memory when the two halves of a frame have been stored, by the hardware and by the handler.\<close>

lemma stacked_frame:
  fixes m :: "u32 \<Rightarrow> u32"
  assumes "length rs = 8" "length ws = 8" "64 \<le> unat p"
  defines "m' \<equiv> store_words ws (p - 64) (store_words rs (p - 32) m)"
  shows "frame_at m' (p - 64) = (rs, ws, p)" "unat x < unat p - 64 \<or> unat p \<le> unat x \<Longrightarrow> m' x = m x"
proof -
  have u: "unat (p - 64) = unat p - 64" "unat (p - 32) = unat p - 32" using assms(3) by (simp_all add: unat_minus_small)
  have p: "unat p < 2 ^ 32" using unsigned_less [of p, where ?'a = nat] by simp
  have hi: "load_words m' (p - 32) 8 = load_words (store_words rs (p - 32) m) (p - 32) 8"
    unfolding m'_def using assms(2,3) u p by (intro load_words_cong store_words_outside) auto
  have "load_words (store_words rs (p - 32) m) (p - 32) 8 = rs" "load_words m' (p - 64) 8 = ws"
    using load_store_words [of rs "p - 32" m] load_store_words [of ws "p - 64"] assms(1,2) by (simp_all add: m'_def)
  with hi show "frame_at m' (p - 64) = (rs, ws, p)" by (simp add: frame_at_def)
  assume x: "unat x < unat p - 64 \<or> unat p \<le> unat x"
  have "m' x = store_words rs (p - 32) m x"
    unfolding m'_def using x assms(2,3) u p by (intro store_words_outside) auto
  also have "\<dots> = m x" using x assms(1,3) u p by (intro store_words_outside) auto
  finally show "m' x = m x" .
qed

section \<open>Calls\<close>

lemma put_sane:
  assumes "objects_sane B T w"
  shows "sem_sane B T (fst r) \<Longrightarrow> objects_sane B T (put_sem i r w)"
    "mutex_sane B T (fst r') \<Longrightarrow> objects_sane B T (put_mutex i r' w)"
    "queue_sane B T (fst r'') \<Longrightarrow> objects_sane B T (put_queue i r'' w)"
  using assms set_update_subset_insert [of "cm_sems w" i "fst r"] set_update_subset_insert [of "cm_mutexes w" i "fst r'"]
    set_update_subset_insert [of "cm_queues w" i "fst r''"]
  by (auto simp: objects_sane_def put_sem_def put_mutex_def put_queue_def)

lemma put_fields [simp]:
  "mach (put_sem i r w) = snd r" "mach (put_mutex i r' w) = snd r'" "mach (put_queue i r'' w) = snd r''"
  "regs (put_sem i r w) = regs w" "regs (put_mutex i r' w) = regs w" "regs (put_queue i r'' w) = regs w"
  by (simp_all add: put_sem_def put_mutex_def put_queue_def)

lemma objects_nth:
  assumes "objects_sane B T w"
  shows "i < length (cm_sems w) \<Longrightarrow> sem_sane B T (cm_sems w ! i)"
    "i < length (cm_mutexes w) \<Longrightarrow> mutex_sane B T (cm_mutexes w ! i)"
    "i < length (cm_queues w) \<Longrightarrow> queue_sane B T (cm_queues w ! i)"
  using assms by (simp_all add: objects_sane_def)

lemma objects_mach [simp]: "objects_sane B T (w\<lparr>mach := k\<rparr>) = objects_sane B T w" "objects_sane B T (w\<lparr>regs := rs\<rparr>) = objects_sane B T w"
  by (simp_all add: objects_sane_def)

lemma cm_do_regs: "regs (cm_do B f w) = regs w"
  by (cases f) simp_all

lemma cm_do_quiet:
  fixes L :: cm_link
  assumes "sane (cm_build L n p dbg) T (mach w)" "objects_sane (cm_build L n p dbg) T w" "cm_call_ok w f"
  defines "B \<equiv> cm_build L n p dbg"
  shows "quiet B T (mach w) (mach (cm_do B f w))" "objects_sane B T (cm_do B f w)"
proof -
  note o = objects_nth [OF assms(2)]
  note s = assms(1) sem_take_quiet [OF assms(1)] sem_give_quiet [OF assms(1)] mutex_lock_quiet [OF assms(1)]
    mutex_unlock_quiet [OF assms(1)] queue_iter_quiet [OF assms(1)] queue_try_quiet [OF quiet_refl [OF assms(1)]]
  have "quiet B T (mach w) (mach (cm_do B f w)) \<and> objects_sane B T (cm_do B f w)"
    unfolding B_def using assms(2,3) o
    by (cases f) (simp_all add: s put_sane sleep_quiet quiet_yield [OF quiet_refl] delete_quiet)
  then show "quiet B T (mach w) (mach (cm_do B f w))" "objects_sane B T (cm_do B f w)" by simp_all
qed

lemma cm_irq_quiet:
  fixes L :: cm_link
  assumes "sane (cm_build L n p dbg) T (mach w)" "objects_sane (cm_build L n p dbg) T w" "cm_irq_ok w q"
  defines "B \<equiv> cm_build L n p dbg"
  shows "quiet B T (mach w) (mach (cm_irq_body B q w))" "objects_sane B T (cm_irq_body B q w)"
proof -
  note o = objects_nth [OF assms(2)]
  note s = assms(1) sem_give_quiet [OF assms(1)] queue_try_quiet [OF quiet_refl [OF assms(1)]]
  have "quiet B T (mach w) (mach (cm_irq_body B q w)) \<and> objects_sane B T (cm_irq_body B q w)"
    unfolding B_def using assms(2,3) o
    by (cases q) (simp_all add: s put_sane SysTick_Handler_def hrt_tick_from_isr_def quiet_refl quiet_tick [OF quiet_refl])
  then show "quiet B T (mach w) (mach (cm_irq_body B q w))" "objects_sane B T (cm_irq_body B q w)" by simp_all
qed

section \<open>Views\<close>

lemma view_eqI:
  assumes "task_context w' i = task_context w i"
    "\<And>x. context_psp (task_context w i) \<le> x \<Longrightarrow> x < snd (stk i) \<Longrightarrow> mem (mach w') x = mem (mach w) x"
  shows "task_view stk w' i = task_view stk w i"
  using assms by (auto simp: task_view_def)

lemma agree_frame:
  assumes "room a (s + 64)" "\<And>x. in_area a x \<Longrightarrow> m' x = m x"
  shows "frame_at m' s = frame_at m s"
proof -
  have b: "unat (fst a) + 64 \<le> unat (s + 64)" "unat (s + 64) \<le> unat (snd a)" "unat (snd a) < 2 ^ 32"
    using assms(1) unsigned_less [of "snd a", where ?'a = nat] by (simp_all add: room_def word_le_nat_alt)
  have "unat s = unat (s + 64) - 64" using unat_minus_small [of 64 "s + 64"] b(1) by simp
  then have "unat (fst a) \<le> unat s" "unat s + 64 = unat (s + 64)" using b(1) by simp_all
  then show ?thesis using b assms(2) by (intro frame_at_cong) (simp_all add: in_area_def word_le_nat_alt word_less_nat_alt)
qed

lemma room_area:
  assumes "room a p" "unat p - 64 \<le> unat x" "unat x < unat p"
  shows "in_area a x"
  using assms by (auto simp: room_def in_area_def word_le_nat_alt word_less_nat_alt)

lemma areas_disjoint:
  assumes "stacks_ok stk T" "i \<in> T" "j \<in> T" "i \<noteq> j" "in_area (stk i) x"
  shows "\<not> in_area (stk j) x"
proof -
  have "snd (stk i) \<le> fst (stk j) \<or> snd (stk j) \<le> fst (stk i)" using assms(1-4) by (auto simp: stacks_ok_def)
  then show ?thesis using assms(5) by (auto simp: in_area_def)
qed

lemma below_agrees:
  assumes "stacks_ok stk T" "i \<in> T" "c \<in> T" "i \<noteq> c" "room (stk c) p"
    "\<And>x. unat x < unat p - 64 \<or> unat p \<le> unat x \<Longrightarrow> m' x = m x" "in_area (stk i) x"
  shows "m' x = m x"
  using areas_disjoint [OF assms(1-4,7)] room_area [OF assms(5), of x] assms(6) [of x] by linarith

lemma view_area:
  assumes "room (stk i) (context_psp (task_context w i))" "context_psp (task_context w i) \<le> x" "x < snd (stk i)"
  shows "in_area (stk i) x"
  using assms by (auto simp: room_def in_area_def word_le_nat_alt)

text \<open>The context of a task that does not run stays as long as its stack does.\<close>

lemma parked_view:
  assumes "room (stk i) (context_psp (task_context w i))" "g_current (mach w) \<noteq> int i" "g_current (mach w') \<noteq> int i"
    "sp (g_tcbs (mach w') ! i) = sp (g_tcbs (mach w) ! i)" "\<And>x. in_area (stk i) x \<Longrightarrow> mem (mach w') x = mem (mach w) x"
  shows "task_view stk w' i = task_view stk w i"
proof (rule view_eqI)
  have "room (stk i) (sp (g_tcbs (mach w) ! i) + 64)" using assms(1,2) by (simp add: task_context_def frame_at_def context_psp_def)
  from agree_frame [OF this assms(5)] show "task_context w' i = task_context w i" using assms(2-4) by (simp add: task_context_def)
qed (use assms(1,5) view_area [of stk i w] in blast)

lemma quiet_sp:
  assumes "quiet B T k k'" "sane B T k" "i \<in> T"
  shows "sp (g_tcbs k' ! i) = sp (g_tcbs k ! i)"
proof -
  have "i < length (g_tcbs k)" "i < length (g_tcbs k')" using quietD(1,3) [OF assms(1)] sane_bounds(3,5) [OF assms(2)] assms(3) by auto
  moreover have "map sp (g_tcbs k') ! i = map sp (g_tcbs k) ! i" using assms(1) by (simp add: quiet_def)
  ultimately show ?thesis by simp
qed

lemma quiet_view:
  assumes "quiet B T (mach w) (mach w')" "sane B T (mach w)" "i \<in> T" "regs w' = regs w"
  shows "task_view stk w' i = task_view stk w i"
proof -
  have "task_context w' i = task_context w i"
    using assms(1,4) quiet_sp [OF assms(1-3)] by (simp add: quiet_def task_context_def)
  then show ?thesis using assms(1) by (intro view_eqI) (simp_all add: quiet_def)
qed

lemma view_psp: "task_view stk w' i = task_view stk w i \<Longrightarrow> context_psp (task_context w' i) = context_psp (task_context w i)"
  by (simp add: task_view_def)

section \<open>Every step keeps the invariant and the views\<close>

lemma cm_invD:
  assumes "cm_inv B stk T w"
  shows "sane B T (mach w)" "stacks_ok stk T" "length (regs w) = 8" "length (r4_r11 (mach w)) = 8"
    "i \<in> T \<Longrightarrow> room (stk i) (context_psp (task_context w i))" "objects_sane B T w"
  using assms by (simp_all add: cm_inv_def)

lemma running_room:
  assumes "cm_inv B stk T w" "g_current (mach w) = int c"
  shows "c \<in> T" "room (stk c) (psp (mach w))" "64 < unat (psp (mach w))" "unat (psp (mach w)) < 2 ^ 32"
proof -
  show c: "c \<in> T" using sane_current [OF cm_invD(1) [OF assms(1)]] assms(2) by auto
  show r: "room (stk c) (psp (mach w))" using cm_invD(5) [OF assms(1) c] assms(2) by (simp add: task_context_def context_psp_def)
  have "0 < unat (fst (stk c))" using cm_invD(2) [OF assms(1)] c by (simp add: stacks_ok_def word_less_nat_alt)
  then show "64 < unat (psp (mach w))" using r by (simp add: room_def)
  show "unat (psp (mach w)) < 2 ^ 32" using unsigned_less [of "psp (mach w)", where ?'a = nat] by simp
qed

lemma cm_invI:
  assumes "cm_inv B stk T w" "sane B T (mach w')" "objects_sane B T w'" "length (regs w') = 8" "length (r4_r11 (mach w')) = 8"
    "\<And>i. i \<in> T \<Longrightarrow> task_view stk w' i = task_view stk w i"
  shows "cm_inv B stk T w'"
  using assms(2-5) cm_invD(2,5) [OF assms(1)] view_psp [OF assms(6)] by (simp add: cm_inv_def)

definition step_ok :: "cortexm build \<Rightarrow> (nat \<Rightarrow> stack_area) \<Rightarrow> nat set \<Rightarrow> cm_world \<Rightarrow> cm_world \<Rightarrow> bool" where
  "step_ok B stk T w w' \<longleftrightarrow> cm_inv B stk T w' \<and> g_fault (mach w') = g_fault (mach w) \<and>
     (\<forall>i \<in> T. task_view stk w' i = task_view stk w i)"

lemma call_step_ok:
  fixes L :: cm_link
  assumes "cm_inv (cm_build L n p dbg) stk T w" "cm_call_ok w f"
  shows "step_ok (cm_build L n p dbg) stk T w (cm_do (cm_build L n p dbg) f w)"
proof -
  let ?B = "cm_build L n p dbg"
  note i = cm_invD [OF assms(1)]
  note q = cm_do_quiet [OF i(1,6) assms(2)]
  have v: "task_view stk (cm_do ?B f w) i = task_view stk w i" if "i \<in> T" for i
    using quiet_view [OF q(1) i(1) that cm_do_regs] .
  have "cm_inv ?B stk T (cm_do ?B f w)"
    using cm_invI [OF assms(1) quietD(1) [OF q(1)] q(2) _ _ v] i(3,4) q(1) by (simp add: cm_do_regs quiet_def)
  with v q(1) show ?thesis by (simp add: step_ok_def quiet_def)
qed

lemma irq_step_ok:
  fixes L :: cm_link
  assumes "cm_inv (cm_build L n p dbg) stk T w" "cm_irq_ok w q"
  shows "step_ok (cm_build L n p dbg) stk T w (cm_interrupt (cm_build L n p dbg) q w)"
proof -
  let ?B = "cm_build L n p dbg" and ?P = "psp (mach w)"
  note i = cm_invD [OF assms(1)]
  obtain c where c: "g_current (mach w) = int c" using sane_current [OF i(1)] by auto
  note r = running_room [OF assms(1) c]
  let ?h = "w\<lparr>mach := hw_stack (regs w) (mach w)\<rparr>" and ?m = "store_words (regs w) (?P - 32) (mem (mach w))"
  have co: "core (mach ?h) = core (mach w)" by (simp add: hw_stack_def cm_core)
  have s: "sane ?B T (mach ?h)" using sane_core [OF co] i(1) by simp
  have ok: "cm_irq_ok ?h q" using assms(2) by (cases q) simp_all
  have o: "objects_sane ?B T ?h" using i(6) by simp
  note b = cm_irq_quiet [OF s o ok]
  let ?b = "cm_irq_body ?B q ?h" and ?w = "cm_interrupt ?B q w"
  have u: "unat (?P - 32) = unat ?P - 32" using r(3) by (simp add: unat_minus_small)
  have m: "mem (mach ?b) = ?m" "psp (mach ?b) = ?P - 32" using b(1) by (simp_all add: quiet_def hw_stack_def)
  have ld: "load_words ?m (?P - 32) 8 = regs w" using load_store_words [of "regs w"] i(3) by simp
  have w: "?w = ?b\<lparr>regs := regs w, mach := (mach ?b)\<lparr>psp := ?P\<rparr>\<rparr>"
    using ld m by (simp add: cm_interrupt_def hw_unstack_def Let_def)
  have out: "?m x = mem (mach w) x" if "unat x < unat ?P - 64 \<or> unat ?P \<le> unat x" for x
    using that u r(3,4) i(3) by (intro store_words_outside) auto
  have cur: "g_current (mach ?w) = int c" "r4_r11 (mach ?w) = r4_r11 (mach w)" "g_fault (mach ?w) = g_fault (mach w)"
    using b(1) c core_fields(2,11) [OF co] by (simp_all add: w quiet_def hw_stack_def)
  have v: "task_view stk ?w i = task_view stk w i" if "i \<in> T" for i
  proof (cases "i = c")
    case True
    then have "task_context ?w i = task_context w i" using c cur by (simp add: task_context_def w)
    then show ?thesis using True c m(1) out by (intro view_eqI) (auto simp: w task_context_def context_psp_def word_le_nat_alt)
  next
    case False
    have "sp (g_tcbs (mach ?w) ! i) = sp (g_tcbs (mach w) ! i)"
      using quiet_sp [OF b(1) s that] core_fields(1) [OF co] by (simp add: w)
    then show ?thesis
      using False c cur m(1) below_agrees [OF i(2) that r(1) False r(2) out] i(5) [OF that]
      by (intro parked_view) (simp_all add: w)
  qed
  have "core (mach ?w) = core (mach ?b)" by (simp add: w cm_core)
  then have "sane ?B T (mach ?w)" using sane_core quietD(1) [OF b(1)] by blast
  moreover have "objects_sane ?B T ?w" using b(2) by (simp add: w objects_sane_def)
  ultimately have "cm_inv ?B stk T ?w" using i(3,4) cur(2) by (intro cm_invI [OF assms(1) _ _ _ _ v]) (simp_all add: w)
  with v cur(3) show ?thesis by (simp add: step_ok_def)
qed

text \<open>The state in which the handler asks for the next task: the frame of the running task is complete and its
  stack pointer stored, so that every task has its context on its stack.\<close>

lemma switch_frames:
  fixes w :: cm_world
  assumes "cm_inv B stk T w" "g_current (mach w) = int c" "i \<in> T"
  defines "m \<equiv> store_words (r4_r11 (mach w)) (psp (mach w) - 64) (store_words (regs w) (psp (mach w) - 32) (mem (mach w)))"
  defines "ts \<equiv> (g_tcbs (mach w))[c := (g_tcbs (mach w) ! c)\<lparr>sp := psp (mach w) - 64\<rparr>]"
  shows "frame_at m (sp (ts ! i)) = task_context w i" "sp (ts ! i) \<noteq> 0"
    "context_psp (task_context w i) \<le> x \<Longrightarrow> x < snd (stk i) \<Longrightarrow> m x = mem (mach w) x"
proof -
  note v = cm_invD [OF assms(1)] and r = running_room [OF assms(1,2)]
  note fr = stacked_frame [OF v(3,4) less_imp_le [OF r(3)], where m = "mem (mach w)", folded m_def]
  have agr: "m x = mem (mach w) x" if "in_area (stk i) x" "i \<noteq> c" for x
    using below_agrees [OF v(2) assms(3) r(1) that(2) r(2), of m "mem (mach w)"] fr(2) that(1) by blast
  show ctx: "frame_at m (sp (ts ! i)) = task_context w i"
  proof (cases "i = c")
    case True
    then show ?thesis using fr(1) assms(2) sane_bounds(3,5) [OF v(1)] r(1) by (simp add: ts_def task_context_def)
  next
    case False
    have "room (stk i) (sp (g_tcbs (mach w) ! i) + 64)"
      using v(5) [OF assms(3)] False assms(2) by (simp add: task_context_def frame_at_def context_psp_def)
    from agree_frame [OF this agr] show ?thesis using False assms(2) by (simp add: ts_def task_context_def)
  qed
  show "sp (ts ! i) \<noteq> 0"
  proof
    assume "sp (ts ! i) = 0"
    then have "context_psp (task_context w i) = 64" using ctx by (metis add_0 context_psp_def frame_at_def snd_conv)
    then have "fst (stk i) = 0" using v(5) [OF assms(3)] by (simp add: room_def)
    moreover have "0 < fst (stk i)" using v(2) assms(3) by (simp add: stacks_ok_def)
    ultimately show False by simp
  qed
  assume x: "context_psp (task_context w i) \<le> x" "x < snd (stk i)"
  show "m x = mem (mach w) x"
  proof (cases "i = c")
    case True
    then show ?thesis using fr(2) x(1) assms(2) by (simp add: task_context_def context_psp_def word_le_nat_alt)
  next
    case False
    then show ?thesis using agr view_area [of stk i w x] v(5) [OF assms(3)] x by simp
  qed
qed

lemma cm_switch_ok:
  fixes L :: cm_link
  assumes "cm_inv (cm_build L n p dbg) stk T w"
  obtains w' where "cm_switch (cm_build L n p dbg) w = Some w'" "step_ok (cm_build L n p dbg) stk T w w'"
proof -
  let ?B = "cm_build L n p dbg" and ?P = "psp (mach w)" and ?h = "hw_stack (regs w) (mach w)"
  note i = cm_invD [OF assms]
  obtain c where c: "g_current (mach w) = int c" using sane_current [OF i(1)] by auto
  let ?o = "switched_out ?h"
  define m where "m = store_words (r4_r11 (mach w)) (?P - 64) (store_words (regs w) (?P - 32) (mem (mach w)))"
  define ts where "ts = (g_tcbs (mach w))[c := (g_tcbs (mach w) ! c)\<lparr>sp := ?P - 64\<rparr>]"
  note fr = switch_frames [OF assms c, folded m_def ts_def]
  have co: "core ?o = core (mach w)" by (simp add: switched_out_core hw_stack_def cm_core)
  have s: "sane ?B T ?o" "g_current ?o = int c" using sane_core [OF co] i(1) core_fields(2) [OF co] c by simp_all
  have nz: "psp ?h \<noteq> 0" "?P - 64 \<noteq> 0" "psp ?h - 32 = ?P - 64" using running_room(3) [OF assms c] by (auto simp: hw_stack_def)
  obtain j k' where k': "hrt__schedule ?B (?P - 64) ?o = (sp (ts ! j), k')" "j \<in> T" "g_current k' = int j" "g_tcbs k' = ts"
    "sane ?B T k'" "g_fault k' = g_fault (mach w)"
    using schedule_sane [OF s nz(2)] core_fields(1,11) [OF co] unfolding ts_def by metis
  have mo: "mem k' = m"
    using cm_more(1) [OF more_schedule [of ?B "?P - 64" ?o, unfolded k'(1) snd_conv]]
    by (simp add: m_def switched_out_def hw_stack_def)
  define w' where "w' = w\<lparr>regs := load_words m (sp (ts ! j) + 32) 8,
    mach := (switched_in (sp (ts ! j)) k')\<lparr>psp := sp (ts ! j) + 64\<rparr>\<rparr>"
  have sw: "cm_switch ?B w = Some w'"
    using PendSV_switches [OF nz(1) k'(1) [folded nz(3)] fr(2) [OF k'(2)], of 12] mo
    by (simp add: cm_switch_def hw_unstack_def switched_in_def w'_def)
  have "task_context w' i = frame_at m (sp (ts ! i))" for i
    using k'(3,4) mo by (simp add: task_context_def w'_def switched_in_def frame_at_def)
  then have v: "task_view stk w' i = task_view stk w i" if "i \<in> T" for i
    using fr(1,3) [OF that] mo by (intro view_eqI) (simp_all add: w'_def switched_in_def)
  have co': "core (mach w') = core k'" by (simp add: w'_def cm_core switched_in_core)
  have "cm_inv ?B stk T w'"
    using sane_core [OF co'] k'(5) i(6) by (intro cm_invI [OF assms _ _ _ _ v]) (simp_all add: w'_def switched_in_def objects_sane_def)
  with v sw core_fields(11) [OF co'] k'(6) that show thesis by (simp add: step_ok_def)
qed

lemma thread_step_ok:
  assumes "cm_inv B stk T w" "g_current (mach w) = int c" "length rs = 8" "length ws = 8" "room (stk c) p"
    "\<forall>i \<in> T. i \<noteq> c \<longrightarrow> (\<forall>x. in_area (stk i) x \<longrightarrow> m x = mem (mach w) x)"
  defines "w' \<equiv> w\<lparr>regs := rs, mach := (mach w)\<lparr>mem := m, psp := p, r4_r11 := ws\<rparr>\<rparr>"
  shows "cm_inv B stk T w'" "i \<in> T \<Longrightarrow> i \<noteq> c \<Longrightarrow> task_view stk w' i = task_view stk w i" "g_fault (mach w') = g_fault (mach w)"
proof -
  note v = cm_invD [OF assms(1)]
  show o: "task_view stk w' i = task_view stk w i" if "i \<in> T" "i \<noteq> c" for i
    using that assms(2,6) v(5) [OF that(1)] by (intro parked_view) (simp_all add: w'_def)
  have "core (mach w') = core (mach w)" by (simp add: w'_def cm_core)
  then have "sane B T (mach w')" using v(1) sane_core by blast
  moreover have "room (stk i) (context_psp (task_context w' i))" if "i \<in> T" for i
    using view_psp [OF o [OF that]] v(5) [OF that] assms(2,5) by (cases "i = c") (simp_all add: w'_def task_context_def context_psp_def)
  ultimately show "cm_inv B stk T w'" using v(2,6) assms(3,4) by (simp add: cm_inv_def w'_def objects_sane_def)
qed (simp add: w'_def)

lemma cm_sys_ok:
  fixes L :: cm_link
  assumes "cm_sys (cm_build L n p dbg) stk T w e w'" "cm_inv (cm_build L n p dbg) stk T w"
  shows "cm_inv (cm_build L n p dbg) stk T w' \<and> g_fault (mach w') = g_fault (mach w) \<and>
    (\<forall>i \<in> T. e \<noteq> Ran i \<longrightarrow> task_view stk w' i = task_view stk w i)"
  using assms
proof cases
  case (thread c rs ws p m)
  then show ?thesis using thread_step_ok [OF assms(2) thread(3-7)] by auto
next
  case (call f)
  then show ?thesis using call_step_ok [OF assms(2), of f] by (simp add: step_ok_def)
next
  case (irq q)
  then show ?thesis using irq_step_ok [OF assms(2), of q] by (simp add: step_ok_def)
next
  case switch
  then show ?thesis using cm_switch_ok [OF assms(2)] by (metis option.inject step_ok_def)
qed

lemma cm_runs_ok:
  fixes L :: cm_link
  assumes "cm_runs (cm_build L n p dbg) stk T w es w'" "cm_inv (cm_build L n p dbg) stk T w"
  shows "cm_inv (cm_build L n p dbg) stk T w' \<and> g_fault (mach w') = g_fault (mach w) \<and>
    (\<forall>i \<in> T. Ran i \<notin> set es \<longrightarrow> task_view stk w' i = task_view stk w i)"
  using assms
proof (induction rule: cm_runs.induct)
  case (more w e w' es w'')
  from cm_sys_ok [OF more.hyps(1) more.prems] more.IH show ?case by auto
qed simp

end
