(* ===== verification/HRT_CM_Boot.thy ===== *)
theory HRT_CM_Boot
  imports HRT_CM_System HRT_Board HRT_Cpp
begin

text \<open>
  From reset to the first task on Cortex-M: \<open>hrt_init\<close> builds the frame of the idle task, every
  \<open>hrt_create_task\<close> that of a new task, \<open>hrt_start\<close> pends the exception, and the first PendSV, which finds the
  process stack pointer 0, dispatches the task of the best priority. The world it leaves satisfies the
  invariant of \<open>HRT_CM_System\<close>, with every task about to start in the trampoline.

  The last section has the C++ board program \<open>hardrt_h755_blinky_cpp\<close>, whose main function boots the same way.
\<close>

section \<open>Definitions\<close>

definition boot_all :: "'p env \<Rightarrow> hrt_config \<Rightarrow> task_args list \<Rightarrow> 'p kernel_scheme \<Rightarrow> 'p kernel_scheme" where
  "boot_all B cfg ts k = fold (\<lambda>t k. snd (create B t k)) ts (snd (hrt_init B (Some cfg) k))"

definition idle_frame :: "cm_link \<Rightarrow> u32 list" where
  "idle_frame L = replicate 13 0 @ [sym_trampoline L, sym_idle_task L, 0x01000000]"

definition boot_frame :: "cm_link \<Rightarrow> nat \<Rightarrow> nat \<Rightarrow> u32 list" where
  "boot_frame L n i = (if i = n - 1 then idle_frame L else first_frame L)"

definition boot_area :: "cm_link \<Rightarrow> nat \<Rightarrow> task_args list \<Rightarrow> nat \<Rightarrow> stack_area" where
  "boot_area L n ts i =
     (if i = n - 1 then (g_idle_stack L, g_idle_stack L + 256)
      else (t_stack (ts ! i), stack_top (t_stack (ts ! i)) (t_words (ts ! i))))"

definition boot_tasks :: "nat \<Rightarrow> nat \<Rightarrow> nat set" where
  "boot_tasks n m = insert (n - 1) {..<m}"

text \<open>The first PendSV interrupts \<open>main\<close>, which runs on the main stack.\<close>

definition cm_first_switch :: "cortexm build \<Rightarrow> cm_world \<Rightarrow> cm_world option" where
  "cm_first_switch B w =
     (case PendSV_Handler B 12 0xFFFFFFF9 \<lparr>pc = At 0, r0 = regs w ! 0, r1 = regs w ! 1, lr = ExcReturn 0xFFFFFFF9\<rparr> (mach w) of
        None \<Rightarrow> None
      | Some (exc, k) \<Rightarrow>
          if exc = 0xFFFFFFFD then (case hw_unstack k of (rs, k) \<Rightarrow> Some (w\<lparr>regs := rs, mach := k\<rparr>)) else None)"

text \<open>The C++ board program: \<open>TaskA\<close> and \<open>TaskB\<close> one turn of their loops, and \<open>main\<close>.\<close>

definition blinky_cpp_TaskA :: "cmsis \<Rightarrow> cortexm build \<Rightarrow> bus \<times> cortexm \<Rightarrow> bus \<times> cortexm" where
  "blinky_cpp_TaskA C B s =
     (case s of (m, k) \<Rightarrow> (wr C GPIOB_ODR (rd C GPIOB_ODR m XOR push_bit LED1_PIN 1) m, snd (Task_sleep B 100 k)))"

definition blinky_cpp_TaskB :: "cmsis \<Rightarrow> cortexm build \<Rightarrow> bus \<times> cortexm \<Rightarrow> bus \<times> cortexm" where
  "blinky_cpp_TaskB C B s =
     (case s of (m, k) \<Rightarrow> (wr C GPIOE_ODR (rd C GPIOE_ODR m XOR push_bit LED2_PIN 1) m, snd (Task_sleep B 250 k)))"

definition blinky_cpp_main ::
  "cmsis \<Rightarrow> cm_link \<Rightarrow> (nat \<Rightarrow> int \<Rightarrow> uintptr) \<Rightarrow> task_syms \<Rightarrow> cortexm build \<Rightarrow> bus \<times> cortexm \<Rightarrow> bus \<times> cortexm" where
  "blinky_cpp_main C L stacks S B s =
     (case s of (m, k) \<Rightarrow>
        let m = SystemInit C m;
            m = hold_cm4 m;
            m = gpio_init C m;
            cfg = \<lparr>cfg_tick_hz = 1000, cfg_policy = HRT_SCHED_PRIORITY_RR, cfg_default_slice = 5,
                   cfg_core_hz = SystemCoreClock L, cfg_tick_src = HRT_TICK_SYSTICK\<rparr>;
            k = snd (System_init B cfg k);
            k = snd (Task_create B stacks 512 0 (fn_A S) 0 HRT_PRIO0 5 k);
            k = snd (Task_create B stacks 512 1 (fn_B S) 0 HRT_PRIO1 5 k)
        in (m, System_start B k))"

section \<open>Frames on the stacks\<close>

definition frames_on :: "cm_link \<Rightarrow> nat \<Rightarrow> task_args list \<Rightarrow> nat \<Rightarrow> cortexm \<Rightarrow> bool" where
  "frames_on L n ts m k \<longleftrightarrow>
     (\<forall>i \<in> boot_tasks n m. sp (g_tcbs k ! i) = snd (boot_area L n ts i) - 64 \<and>
        load_words (mem k) (snd (boot_area L n ts i) - 64) 16 = boot_frame L n i)"

lemma cm_idle_frame:
  fixes p :: nat and tr :: u32 and dbg :: bool
  assumes "0 < n" "length (g_tcbs k) = n" "g_idle_stack L + 256 - 64 \<noteq> 0"
  defines "k' \<equiv> cm_init_idle_task L (cm_sizes n p dbg tr) k"
  shows "mem k' = store_words (idle_frame L) (g_idle_stack L + 256 - 64) (mem k)"
    "g_tcbs k' = (g_tcbs k)[n - 1 := (g_tcbs k ! (n - 1))\<lparr>sp := g_idle_stack L + 256 - 64\<rparr>]" "psp k' = psp k"
proof -
  let ?ws = "[0x01000000, sym_idle_task L, sym_trampoline L, 0, 0, 0, 0, 0, 0, 0, 0, 0, 0, 0, 0, 0]" and ?t = "g_idle_stack L + 256"
  have rev: "rev ?ws = idle_frame L" by (simp add: idle_frame_def numeral_eq_Suc)
  have "snd (push_words ?ws (?t, k)) = k\<lparr>mem := store_words (idle_frame L) (?t - 4 * word_of_nat (length ?ws)) (mem k)\<rparr>"
    unfolding rev [symmetric] by (rule push_words_store) simp
  then have push: "push_words ?ws (?t, k) = (?t - 64, k\<lparr>mem := store_words (idle_frame L) (?t - 64) (mem k)\<rparr>)"
    using push_words_fst [of ?ws ?t k] by (simp add: prod_eq_iff)
  obtain d where d: "n = Suc d" using assms(1) by (cases n) auto
  have id: "HRT_IDLE_ID (cm_sizes n p dbg tr) = int d" "hrt__tcb (cm_sizes n p dbg tr) (int d) = Some (int d)"
    by (simp_all add: HRT_IDLE_ID_def d)
  have e: "k' = (let s = ?t - 64; k = k\<lparr>mem := store_words (idle_frame L) s (mem k)\<rparr>;
      k = k\<lparr>g_idle_tcb := zero_tcb\<lparr>state := HRT_READY, prio := 0, timeslice_cfg := 0, slice_left := 0,
                entry := sym_idle_task L, arg := 0, sp := s\<rparr>\<rparr> in set_sp (cm_sizes n p dbg tr) (int d) s k)"
    unfolding k'_def cm_init_idle_task_def using push id(1) by (simp add: Let_def)
  show "mem k' = store_words (idle_frame L) (g_idle_stack L + 256 - 64) (mem k)"
    "g_tcbs k' = (g_tcbs k)[n - 1 := (g_tcbs k ! (n - 1))\<lparr>sp := g_idle_stack L + 256 - 64\<rparr>]" "psp k' = psp k"
    using assms(2,3) id(2) by (simp_all add: e set_sp_def Let_def d)
qed

lemma cm_create_eq:
  fixes L :: cm_link and p :: nat
  assumes "length (g_tcbs k) = n" "n < 256" "t_fn t \<noteq> 0" "t_stack t \<noteq> 0" "64 \<le> t_words t"
    "first_unused (cm_build L n p dbg) k = Some i" "unat (t_stack t) + 4 * unat (t_words t) < 2 ^ 32"
  defines "s \<equiv> stack_top (t_stack t) (t_words t) - 64"
  defines "k' \<equiv> snd (create (cm_build L n p dbg) t k)"
  shows "mem k' = store_words (first_frame L) s (mem k)" "map sp (g_tcbs k') = (map sp (g_tcbs k))[i := s]" "psp k' = psp k"
proof -
  let ?B = "cm_build L n p dbg"
  have i: "i < n" using first_unused_Some(1) [OF assms(6)] by simp
  have w: "64 \<le> unat (t_words t)" using assms(5) by (simp add: word_le_nat_alt)
  note b = stack_top_bounds [OF assms(7) w]
  have s: "s \<noteq> 0" using b(1,3) by (auto simp: s_def)
  have prep: "cm_prepare_task_stack L B' j tr (t_stack t) (t_words t) k = set_sp B' j s (k\<lparr>mem := store_words (first_frame L) s (mem k)\<rparr>)"
    for B' j tr k unfolding s_def using assms(7) w by (rule prepare_frame)
  have fn: "\<not> (t_fn t = 0 \<or> t_stack t = 0 \<or> t_words t < 64)" using assms(3-5) by auto
  let ?x = "task_tcb (t_fn t) (t_arg t) (t_stack t) (t_words t) (attr_prio (Some (t_attr t))) (timeslice (t_attr t))"
  have k': "k' = rq_push ?B (attr_prio (Some (t_attr t))) (int i)
      (k\<lparr>mem := store_words (first_frame L) s (mem k), g_tcbs := (g_tcbs k)[i := ?x\<lparr>sp := s\<rparr>]\<rparr>)"
    using fn assms(1,2,6) i s
    by (simp add: k'_def create_def hrt_create_task_def prep set_sp_def Let_def task_tcb_def zero_tcb_def attr_prio_def)
  show "mem k' = store_words (first_frame L) s (mem k)" "psp k' = psp k" "map sp (g_tcbs k') = (map sp (g_tcbs k))[i := s]"
    using cm_more(1,2) [OF more_basic(4)] by (simp_all add: k' map_update)
qed

text \<open>What the application has to provide: valid arguments, stacks that lie in the address space and do not overlap, and
  a control block left for the idle task.\<close>

definition boot_ok :: "cm_link \<Rightarrow> nat \<Rightarrow> nat \<Rightarrow> bool \<Rightarrow> task_args list \<Rightarrow> bool" where
  "boot_ok L n p dbg ts \<longleftrightarrow> valid_build (cm_build L n p dbg) \<and> length ts < n \<and>
     (\<forall>t \<in> set ts. args_ok (cm_build L n p dbg) t \<and> unat (t_stack t) + 4 * unat (t_words t) < 2 ^ 32) \<and>
     unat (g_idle_stack L) + 256 < 2 ^ 32 \<and> stacks_ok (boot_area L n ts) (boot_tasks n (length ts))"

lemma boot_room:
  assumes "boot_ok L n p dbg ts" "i \<in> boot_tasks n (length ts)"
  shows "room (boot_area L n ts i) (snd (boot_area L n ts i))"
proof (cases "i = n - 1")
  case True
  have "unat (g_idle_stack L + 256) = unat (g_idle_stack L) + 256"
    using assms(1) unat_plus_small [of "g_idle_stack L" 256] by (simp add: boot_ok_def)
  then show ?thesis using True by (simp add: boot_area_def room_def)
next
  case False
  then have i: "i < length ts" using assms(2) by (simp add: boot_tasks_def)
  then have t: "unat (t_stack (ts ! i)) + 4 * unat (t_words (ts ! i)) < 2 ^ 32" "64 \<le> unat (t_words (ts ! i))"
    using assms(1) nth_mem [of i ts] by (auto simp: boot_ok_def args_ok_def word_le_nat_alt)
  show ?thesis using stack_top_bounds(1) [OF t] False by (simp add: boot_area_def room_def)
qed

lemma boot_tops:
  assumes "boot_ok L n p dbg ts" "i \<in> boot_tasks n (length ts)"
  shows "unat (snd (boot_area L n ts i) - 64) = unat (snd (boot_area L n ts i)) - 64" "64 \<le> unat (snd (boot_area L n ts i))"
    "snd (boot_area L n ts i) - 64 \<noteq> 0" "unat (snd (boot_area L n ts i)) < 2 ^ 32"
proof -
  note r = boot_room [OF assms]
  show b: "64 \<le> unat (snd (boot_area L n ts i))" using r by (simp add: room_def)
  show u: "unat (snd (boot_area L n ts i) - 64) = unat (snd (boot_area L n ts i)) - 64" using b by (simp add: unat_minus_small)
  have "0 < fst (boot_area L n ts i)" using assms by (simp add: boot_ok_def stacks_ok_def)
  then have "64 < unat (snd (boot_area L n ts i))" using r by (simp add: room_def word_less_nat_alt)
  then show "snd (boot_area L n ts i) - 64 \<noteq> 0" using u by (metis diff_is_0_eq not_less unat_0)
  show "unat (snd (boot_area L n ts i)) < 2 ^ 32" using unsigned_less [of "snd (boot_area L n ts i)", where ?'a = nat] by simp
qed

lemma length_boot_frame [simp]: "length (boot_frame L n i) = 16"
  by (simp add: boot_frame_def idle_frame_def first_frame_def)

text \<open>Building one frame leaves those on the other stacks alone.\<close>

lemma frame_stored:
  fixes m :: "u32 \<Rightarrow> u32"
  assumes "boot_ok L n p dbg ts" "i \<in> boot_tasks n (length ts)" "j \<in> boot_tasks n (length ts)"
  defines "a \<equiv> snd (boot_area L n ts i) - 64"
  defines "m' \<equiv> store_words (boot_frame L n j) (snd (boot_area L n ts j) - 64) m"
  shows "load_words m' a 16 = (if i = j then boot_frame L n j else load_words m a 16)"
proof (cases "i = j")
  case True
  then show ?thesis using load_store_words [of "boot_frame L n j"] by (simp add: a_def m'_def)
next
  case False
  note t = boot_tops [OF assms(1,2)] and u = boot_tops [OF assms(1,3)]
  have s: "stacks_ok (boot_area L n ts) (boot_tasks n (length ts))" using assms(1) by (simp add: boot_ok_def)
  have "m' x = m x" if "unat a \<le> unat x" "unat x < unat a + 4 * 16" for x
  proof -
    have "in_area (boot_area L n ts i) x" using room_area [OF boot_room [OF assms(1,2)], of x] that t by (simp add: a_def)
    then have "\<not> in_area (boot_area L n ts j) x" using areas_disjoint [OF s assms(2,3) False] by blast
    then have "unat x < unat (snd (boot_area L n ts j)) - 64 \<or> unat (snd (boot_area L n ts j)) \<le> unat x"
      using room_area [OF boot_room [OF assms(1,3)], of x] by linarith
    then show ?thesis using u unfolding m'_def by (intro store_words_outside) auto
  qed
  moreover have "unat a + 4 * 16 \<le> 2 ^ 32" using t by (simp add: a_def)
  ultimately have "load_words m' a 16 = load_words m a 16" by (intro load_words_cong) blast+
  then show ?thesis using False by simp
qed

section \<open>Booting\<close>

lemma init_frames:
  fixes L :: cm_link and cfg :: hrt_config and k :: cortexm
  assumes "boot_ok L n p dbg ts"
  defines "k' \<equiv> snd (hrt_init (cm_build L n p dbg) (Some cfg) k)"
  shows "frames_on L n ts 0 k'" "psp k' = psp k"
proof -
  let ?B = "cm_build L n p dbg"
  obtain k2 where k2: "k' = cm_init_idle_task L (cm_sizes n p dbg (sym_trampoline L)) k2" "length (g_tcbs k2) = n" "psp k2 = psp k"
  proof
    define k1 where "k1 = k\<lparr>g_rq := replicate p (zero_prio_q n), g_tcbs := map (\<lambda>t. t\<lparr>state := HRT_UNUSED\<rparr>) (replicate n zero_tcb),
        g_tick := 0, g_current := -1, g_tick_hz := (if cfg_tick_hz cfg \<noteq> 0 then cfg_tick_hz cfg else 1000),
        g_policy := cfg_policy cfg, g_default_slice := (if cfg_default_slice cfg \<noteq> 0 then cfg_default_slice cfg else 5),
        g_core_hz := cfg_core_hz cfg, g_tick_src := cfg_tick_src cfg\<rparr>"
    have h: "port_start_systick ?B = cm_start_systick L"
      "port_init_idle_task ?B = cm_init_idle_task L (cm_sizes n p dbg (sym_trampoline L))" by (simp_all add: cm_build_def)
    show "k' = cm_init_idle_task L (cm_sizes n p dbg (sym_trampoline L)) (cm_start_systick L (g_tick_hz k1) k1)"
      by (simp add: k'_def k1_def hrt_init_def Let_def h)
    show "length (g_tcbs (cm_start_systick L (g_tick_hz k1) k1)) = n" using core_fields(1) [OF cm_hook_core(6)] by (simp add: k1_def)
    show "psp (cm_start_systick L (g_tick_hz k1) k1) = psp k" by (simp add: cm_start_systick_def Let_def k1_def)
  qed
  have i: "n - 1 \<in> boot_tasks n (length ts)" "0 < n" using assms(1) by (auto simp: boot_tasks_def boot_ok_def)
  have nz: "g_idle_stack L + 256 - 64 \<noteq> 0" using boot_tops(3) [OF assms(1) i(1)] by (simp add: boot_area_def)
  note e = cm_idle_frame [OF i(2) k2(2) nz, of p dbg "sym_trampoline L", folded k2(1)]
  have "load_words (mem k') (g_idle_stack L + 256 - 64) 16 = boot_frame L n (n - 1)"
    using frame_stored [OF assms(1) i(1) i(1), of "mem k2"] e(1) by (simp add: boot_area_def boot_frame_def)
  then show "frames_on L n ts 0 k'" using e(2) k2(2) i(2) by (simp add: frames_on_def boot_tasks_def boot_area_def)
  show "psp k' = psp k" using e(3) k2(3) by simp
qed

lemma create_frames:
  fixes L :: cm_link
  assumes "boot_ok L n p dbg ts" "frames_on L n ts m k" "length (g_tcbs k) = n" "m < length ts"
    "first_unused (cm_build L n p dbg) k = Some m"
  defines "k' \<equiv> snd (create (cm_build L n p dbg) (ts ! m) k)"
  shows "frames_on L n ts (Suc m) k'" "psp k' = psp k"
proof -
  let ?t = "ts ! m"
  have t: "t_fn ?t \<noteq> 0" "t_stack ?t \<noteq> 0" "64 \<le> t_words ?t" "unat (t_stack ?t) + 4 * unat (t_words ?t) < 2 ^ 32"
    using assms(1) nth_mem [OF assms(4)] by (auto simp: boot_ok_def args_ok_def)
  have n: "n < 256" "m < n - 1" using assms(1,4) valid_build_bounds(2) [of "cm_build L n p dbg"] by (auto simp: boot_ok_def)
  note e = cm_create_eq [OF assms(3) n(1) t(1-3) assms(5) t(4), folded k'_def]
  have len: "length (g_tcbs k') = n" using arg_cong [OF e(2), of length] assms(3) by simp
  have m: "m \<in> boot_tasks n (length ts)" "boot_frame L n m = first_frame L"
    "snd (boot_area L n ts m) = stack_top (t_stack ?t) (t_words ?t)"
    using n(2) assms(4) by (auto simp: boot_tasks_def boot_frame_def boot_area_def)
  have "sp (g_tcbs k' ! i) = snd (boot_area L n ts i) - 64 \<and>
      load_words (mem k') (snd (boot_area L n ts i) - 64) 16 = boot_frame L n i" if i: "i \<in> boot_tasks n (Suc m)" for i
  proof -
    have il: "i \<in> boot_tasks n (length ts)" "i < n" using i assms(4) n(2) by (auto simp: boot_tasks_def)
    have "sp (g_tcbs k' ! i) = map sp (g_tcbs k') ! i" using il(2) len by simp
    also have "\<dots> = (if i = m then stack_top (t_stack ?t) (t_words ?t) - 64 else sp (g_tcbs k ! i))"
      using il(2) assms(3) n(2) by (simp add: e(2) nth_list_update)
    finally have s: "sp (g_tcbs k' ! i) = (if i = m then stack_top (t_stack ?t) (t_words ?t) - 64 else sp (g_tcbs k ! i))" .
    have f: "sp (g_tcbs k ! i) = snd (boot_area L n ts i) - 64 \<and>
        load_words (mem k) (snd (boot_area L n ts i) - 64) 16 = boot_frame L n i" if "i \<noteq> m"
      using assms(2) i that by (auto simp: frames_on_def boot_tasks_def)
    show ?thesis using frame_stored [OF assms(1) il(1) m(1), of "mem k"] s f m(2,3) by (auto simp: e(1))
  qed
  then show "frames_on L n ts (Suc m) k'" by (simp add: frames_on_def)
  show "psp k' = psp k" by (rule e)
qed

definition booted :: "cm_link \<Rightarrow> nat \<Rightarrow> nat \<Rightarrow> bool \<Rightarrow> task_args list \<Rightarrow> nat \<Rightarrow> cortexm \<Rightarrow> bool" where
  "booted L n p dbg ts m k \<longleftrightarrow> kinv (cm_build L n p dbg) {} k \<and> frames_on L n ts m k \<and>
     (\<forall>j < n. state (g_tcbs k ! j) = (if j < m then HRT_READY else HRT_UNUSED))"

lemma boot_steps:
  fixes L :: cm_link and k :: cortexm and cfg :: hrt_config
  assumes "boot_ok L n p dbg ts" "m \<le> length ts"
  defines "k' \<equiv> boot_all (cm_build L n p dbg) cfg (take m ts) k"
  shows "booted L n p dbg ts m k' \<and> psp k' = psp k \<and> g_fault k' = g_fault k"
  using assms(2) unfolding k'_def
proof (induction m)
  case 0
  have v: "valid_build (cm_build L n p dbg)" using assms(1) by (simp add: boot_ok_def)
  show ?case
    using cm.init_establishes(1,3,8) [OF v, where cfg = "Some cfg" and k = k] init_frames [OF assms(1), of cfg k]
    by (simp add: boot_all_def booted_def)
next
  case (Suc m)
  let ?k = "boot_all (cm_build L n p dbg) cfg (take m ts) k" and ?B = "cm_build L n p dbg"
  have m: "m < length ts" "m < n" using Suc.prems assms(1) by (simp_all add: boot_ok_def)
  have IH: "kinv ?B {} ?k" "frames_on L n ts m ?k" "\<forall>j < n. state (g_tcbs ?k ! j) = (if j < m then HRT_READY else HRT_UNUSED)"
    "psp ?k = psp k" "g_fault ?k = g_fault k" using Suc by (simp_all add: booted_def)
  have e: "boot_all ?B cfg (take (Suc m) ts) k = snd (create ?B (ts ! m) ?k)"
    using m(1) by (simp add: boot_all_def take_Suc_conv_app_nth)
  have u: "first_unused ?B ?k = Some m"
    using IH(3) m(2) by (auto simp: first_unused_def find_Some_iff intro!: exI [of _ m])
  have a: "args_ok ?B (ts ! m)" using assms(1) nth_mem [OF m(1)] by (simp add: boot_ok_def)
  have len: "length (g_tcbs ?k) = n" using kwf_sizes(2) [OF kinv_kwf [OF IH(1)]] by simp
  note c = cm.create_ready [OF IH(1) a u] and f = create_frames [OF assms(1) IH(2) len m(1) u]
  have "state (g_tcbs (snd (create ?B (ts ! m) ?k)) ! j) = (if j < Suc m then HRT_READY else HRT_UNUSED)" if "j < n" for j
    using c(4) c(6) [of j] IH(3) that by (cases "j = m") auto
  then show ?case unfolding e booted_def using c(2,7) f IH(4,5) by simp
qed

lemma booted_sane:
  assumes "booted L n p dbg ts m k" "m < n"
  shows "rq_sane (cm_build L n p dbg) (boot_tasks n m) k"
proof -
  have w: "kwf (cm_build L n p dbg) k" and st: "\<forall>j < n. state (g_tcbs k ! j) = (if j < m then HRT_READY else HRT_UNUSED)"
    using assms(1) by (simp_all add: booted_def kinv_def)
  have "i \<in> boot_tasks n m" if "r < p" "i \<in> set (rq_list (cm_build L n p dbg) k r)" for r i
    using kwf_in_rq(1,2) [OF w, of r i] st that by (auto simp: boot_tasks_def split: if_splits)
  then show ?thesis using kwf_shape [OF w] st assms(2) by (auto simp: rq_sane_def boot_tasks_def split: if_splits)
qed

text \<open>The context a task starts with: zeroed registers, in the trampoline or, for the idle task, in its loop.\<close>

definition boot_context :: "cm_link \<Rightarrow> nat \<Rightarrow> task_args list \<Rightarrow> nat \<Rightarrow> cm_context" where
  "boot_context L n ts i =
     ([0, 0, 0, 0, 0] @ (if i = n - 1 then [sym_trampoline L, sym_idle_task L] else [0xFFFFFFFD, sym_trampoline L]) @ [0x01000000],
      replicate 8 0, snd (boot_area L n ts i))"

lemma boot_frame_at:
  assumes "load_words m (snd (boot_area L n ts i) - 64) 16 = boot_frame L n i"
  shows "frame_at m (snd (boot_area L n ts i) - 64) = boot_context L n ts i"
proof -
  let ?a = "snd (boot_area L n ts i) - 64"
  have "load_words m ?a 8 @ load_words m (?a + 32) 8 = boot_frame L n i"
    using assms load_words_split [of m ?a 8 8] by simp
  moreover have "boot_frame L n i = replicate 8 0 @ fst (boot_context L n ts i)"
    by (simp add: boot_frame_def idle_frame_def first_frame_def boot_context_def numeral_eq_Suc)
  ultimately have "load_words m ?a 8 = replicate 8 0" "load_words m (?a + 32) 8 = fst (boot_context L n ts i)"
    by (simp_all add: append_eq_append_conv)
  then show ?thesis by (simp add: frame_at_def boot_context_def)
qed

lemma first_switch_ok:
  fixes L :: cm_link
  assumes "boot_ok L n p dbg ts" "booted L n p dbg ts (length ts) (mach w)" "psp (mach w) = 0"
    "objects_sane (cm_build L n p dbg) (boot_tasks n (length ts)) w"
  obtains w' where "cm_first_switch (cm_build L n p dbg) w = Some w'"
    "cm_inv (cm_build L n p dbg) (boot_area L n ts) (boot_tasks n (length ts)) w'" "g_fault (mach w') = g_fault (mach w)"
    "\<And>i. i \<in> boot_tasks n (length ts) \<Longrightarrow> task_context w' i = boot_context L n ts i"
proof -
  let ?B = "cm_build L n p dbg" and ?T = "boot_tasks n (length ts)" and ?o = "(mach w)\<lparr>pendsv_set := False, primask := True\<rparr>"
  have fr: "sp (g_tcbs (mach w) ! i) = snd (boot_area L n ts i) - 64"
    "frame_at (mem (mach w)) (snd (boot_area L n ts i) - 64) = boot_context L n ts i" if "i \<in> ?T" for i
    using assms(2) that boot_frame_at by (auto simp: booted_def frames_on_def)
  have "rq_sane ?B ?T (mach w)" using booted_sane [OF assms(2)] assms(1) by (simp add: boot_ok_def)
  then have "rq_sane ?B ?T ?o" by (simp add: rq_sane_def kshape_def rq_list_def)
  then obtain j k' where k': "hrt__schedule ?B 0 ?o = (sp (g_tcbs ?o ! j), k')" "j \<in> ?T" "g_current k' = int j" "g_tcbs k' = g_tcbs ?o"
    "sane ?B ?T k'" "g_fault k' = g_fault ?o" by (rule first_schedule_sane)
  let ?s = "snd (boot_area L n ts j) - 64"
  have s: "sp (g_tcbs ?o ! j) = ?s" "?s \<noteq> 0" using fr(1) [OF k'(2)] boot_tops(3) [OF assms(1) k'(2)] by simp_all
  have mo: "mem k' = mem (mach w)"
    using cm_more(1) [OF more_schedule [of ?B 0 ?o, unfolded k'(1) snd_conv]] by simp
  define w' where "w' = w\<lparr>regs := load_words (mem k') (?s + 32) 8, mach := (switched_in ?s k')\<lparr>psp := ?s + 64\<rparr>\<rparr>"
  have sw: "cm_first_switch ?B w = Some w'"
    using PendSV_first_switch [OF assms(3) k'(1) [unfolded s(1)] s(2), of 12]
    by (simp add: cm_first_switch_def hw_unstack_def switched_in_def w'_def)
  have ctx: "task_context w' i = boot_context L n ts i" if "i \<in> ?T" for i
    using fr [OF that] mo k'(3,4) by (cases "i = j") (simp_all add: task_context_def w'_def switched_in_def frame_at_def)
  have co: "core (mach w') = core k'" by (simp add: w'_def cm_core switched_in_core)
  have "cm_inv ?B (boot_area L n ts) ?T w'"
    using sane_core [OF co, of ?B ?T] k'(5) assms(1,4) ctx boot_room [OF assms(1)]
    by (simp add: cm_inv_def boot_ok_def context_psp_def boot_context_def) (simp add: w'_def switched_in_def objects_sane_def)
  with sw ctx core_fields(11) [OF co] k'(6) that show thesis by simp
qed

lemma start_booted:
  fixes L :: cm_link
  shows "booted L n p dbg ts m (hrt_start (cm_build L n p dbg) k) = booted L n p dbg ts m k"
    "psp (hrt_start (cm_build L n p dbg) k) = psp k"
proof -
  have h: "port_enter_scheduler (cm_build L n p dbg) = cm_enter_scheduler" by (simp add: cm_build_def)
  have "mem (hrt_start (cm_build L n p dbg) k) = mem k" "psp (hrt_start (cm_build L n p dbg) k) = psp k"
    by (simp_all add: hrt_start_def h cm_enter_scheduler_def cm_pend_context_switch_def)
  then show "booted L n p dbg ts m (hrt_start (cm_build L n p dbg) k) = booted L n p dbg ts m k"
    "psp (hrt_start (cm_build L n p dbg) k) = psp k"
    by (simp_all add: booted_def frames_on_def cm.start_same)
qed

text \<open>Any application that creates its tasks and starts the scheduler, from the reset value 0 of the process stack
  pointer to its first task.\<close>

lemma boot_runs:
  fixes L :: cm_link and cfg :: hrt_config
  assumes "boot_ok L n p dbg ts" "psp k = 0" "mach w = hrt_start (cm_build L n p dbg) (boot_all (cm_build L n p dbg) cfg ts k)"
    "objects_sane (cm_build L n p dbg) (boot_tasks n (length ts)) w"
  obtains w' where "cm_first_switch (cm_build L n p dbg) w = Some w'"
    "cm_inv (cm_build L n p dbg) (boot_area L n ts) (boot_tasks n (length ts)) w'" "g_fault (mach w') = g_fault k"
    "\<And>i. i \<in> boot_tasks n (length ts) \<Longrightarrow> task_context w' i = boot_context L n ts i"
proof -
  note b = boot_steps [OF assms(1) le_refl, of cfg k, simplified]
  have "booted L n p dbg ts (length ts) (mach w)" "psp (mach w) = 0" "g_fault (mach w) = g_fault k"
    using b assms(2,3) by (simp_all add: start_booted cm.start_same)
  then show thesis using first_switch_ok [OF assms(1) _ _ assms(4)] that by metis
qed

lemma board_mains_booted:
  "snd (demo_main C L S B (m, k)) = hrt_start B (boot_all B (board_config L) [args_A S, args_B S] k)"
  "snd (blinky_main C L S B (m, k)) = hrt_start B (boot_all B (board_config L) [args_A S, args_B S] k)"
  by (simp_all add: mains_boot boot_all_def boot2_def)

lemma blinky_cpp_booted:
  "snd (blinky_cpp_main C L stacks S B (m, k)) = hrt_start B (boot_all B (board_config L)
     [args_A (S\<lparr>stack_A := stacks 512 0\<rparr>), args_B (S\<lparr>stack_B := stacks 512 1\<rparr>)] k)"
  by (simp add: blinky_cpp_main_def boot_all_def create_def args_A_def args_B_def Task_create_def System_init_def System_start_def
      board_config_def Let_def)

end
