(* ===== verification/HRT_Race.thy ===== *)
theory HRT_Race
  imports HRT_Demo
begin

text \<open>
  Ticks at the two places where a call has changed the state of the running task and its switch has not yet
  happened: inside \<open>hrt_yield\<close> on the POSIX port, where no critical section is open, and between
  \<open>hrt_sleep\<close> and the PendSV handler on Cortex-M. Both leave the task in its ready queue once too often.
\<close>

section \<open>A tick inside a yield\<close>

text \<open>\<open>hrt_yield\<close> up to its request of a context switch. No critical section is open there.\<close>

definition yield_push :: "posix build \<Rightarrow> posix \<Rightarrow> posix" where
  "yield_push B k =
     (let t = hrt__tcb B (g_current k);
          k = deref t k
      in if state (tcb_of k t) = HRT_READY
         then let k = tcb_upd t (\<lambda>u. u\<lparr>slice_left := timeslice_cfg u\<rparr>) k
              in rq_push B (prio (tcb_of k t)) (uint (word_of_int (g_current k) :: u8)) k
         else k)"

lemma yield_parts:
  assumes "0 \<le> g_current k" "g_current k < int (HARDRT_MAX_TASKS B)"
  shows "hrt_yield B k = port_yield_to_scheduler B (port_pend_context_switch B (yield_push B k))"
  using assms by (simp add: hrt_yield_def yield_push_def Let_def hrt__tcb_def)

lemma yield_push_core:
  assumes "0 \<le> g_current k" "g_current k < int n"
  shows "core (yield_push (posix_build n p dbg tramp) k) = core (snd (hrt_yield (posix_build n p dbg tramp) k))"
  using yield_parts [of k "posix_build n p dbg tramp"] assms posix.yield_core [of n p dbg tramp] posix.pend_core [of n p dbg tramp]
  by simp

text \<open>The scheduler loop requeues a running task whose slice is used up.\<close>

lemma back_requeues:
  assumes "kinv B R k" "g_current k = int c" "c < HARDRT_MAX_TASKS B" "state (g_tcbs k ! c) = HRT_READY"
    "rr_policy (g_policy k)" "timeslice_cfg (g_tcbs k ! c) > 0" "slice_left (g_tcbs k ! c) = 0"
    "length (rq_list B k (unat (prio (g_tcbs k ! c)))) < HARDRT_MAX_TASKS B"
  shows "rq_list B (posix_sched_back B k) r = rq_list B k r @ (if r = unat (prio (g_tcbs k ! c)) then [c] else [])"
proof -
  let ?t = "(g_tcbs k ! c)\<lparr>slice_left := timeslice_cfg (g_tcbs k ! c)\<rparr>"
  let ?k = "k\<lparr>g_tcbs := (g_tcbs k)[c := ?t]\<rparr>"
  note sz = kwf_sizes [OF kinv_kwf [OF assms(1)]]
  have b: "HARDRT_MAX_TASKS B < 256" using sz valid_build_bounds by auto
  have id: "uint (word_of_int (int c) :: u8) = int c" using assms(3) b by (simp add: uint_word_of_int)
  have eq: "hrt__on_scheduler_entry B k = rq_push B (prio (g_tcbs k ! c)) (int c) ?k"
    using assms(2-7) sz id by (simp add: hrt__on_scheduler_entry_def Let_def)
  have inv: "kinv B R ?k" using assms(1) by (rule kinv_write_same) simp_all
  have sh: "kshape B ?k" using kinv_kwf [OF inv] by (simp add: kwf_def)
  have pr: "unat (prio (g_tcbs k ! c)) < HARDRT_MAX_PRIO B" using kwf_prio [OF kinv_kwf [OF assms(1)] assms(3)] assms(4) by simp
  show ?thesis using rq_push_room(2) [OF sh pr assms(3)] assms(8) by (simp add: posix_sched_back_def eq unblock_sigalrm_def Let_def)
qed

lemma ready_queue_short:
  assumes "kwf B k" "i < HARDRT_MAX_TASKS B" "state (g_tcbs k ! i) \<noteq> HRT_READY" "r < HARDRT_MAX_PRIO B"
  shows "length (rq_list B k r) < HARDRT_MAX_TASKS B"
proof -
  have q: "distinct (rq_list B k r)" "set (rq_list B k r) \<subseteq> {..<HARDRT_MAX_TASKS B} - {i}" using assms by (auto simp: kwf_def)
  have "card (set (rq_list B k r)) \<le> card ({..<HARDRT_MAX_TASKS B} - {i})" using q(2) by (intro card_mono) auto
  then show ?thesis using q(1) assms(2) by (simp add: distinct_card)
qed

lemma tick_wake_policy: "g_policy (snd (tick_wake B i s)) = g_policy (snd s)"
  by (cases s) (simp add: tick_wake_def Let_def deref_def)

lemma tick_fold_policy: "g_policy (snd (fold (tick_wake B) is s)) = g_policy (snd s)"
  by (induction "is" arbitrary: s) (simp_all add: tick_wake_policy)

lemma tick_charge_policy: "g_policy (snd (tick_charge B s)) = g_policy (snd s)"
  by (cases s) (simp add: tick_charge_def Let_def deref_def)

lemma tick_policy: "g_policy (hrt__tick_isr (posix_build n p dbg tramp) k) = g_policy k"
  using tick_charge_policy [of "posix_build n p dbg tramp"] tick_fold_policy [of "posix_build n p dbg tramp"]
  by (simp add: hrt__tick_isr_def hrt__inc_tick_def Let_def split_beta posix_build_def posix_pend_context_switch_def)

text \<open>C37: A tick between the two halves of \<open>hrt_yield\<close> puts a task with a time slice of 1 into its ready queue twice on
  the POSIX port. The yield has queued the task and opened no critical section; the tick uses up the
  fresh slice; and the scheduler loop, which the task then enters, requeues a task with no slice left.\<close>

theorem tick_in_yield_queues_twice:
  assumes "kinv (posix_build n p dbg tramp) {c} k" "g_current k = int c" "c < n" "state (g_tcbs k ! c) = HRT_READY"
    "timeslice_cfg (g_tcbs k ! c) = 1" "rr_policy (g_policy k)" "state (g_tcbs k ! (n - 1)) = HRT_UNUSED"
  defines "k1 \<equiv> tick_sighandler (posix_build n p dbg tramp) (yield_push (posix_build n p dbg tramp) k)"
  defines "k2 \<equiv> snd (posix_yield_to_scheduler n (posix_pend_context_switch k1))"
  shows "count_list (rq_list (posix_build n p dbg tramp) (posix_sched_back (posix_build n p dbg tramp) k2)
    (unat (prio (g_tcbs k ! c)))) c = 2"
proof -
  let ?B = "posix_build n p dbg tramp" and ?k = "yield_push (posix_build n p dbg tramp) k" and ?r = "unat (prio (g_tcbs k ! c))"
  let ?y = "snd (hrt_yield (posix_build n p dbg tramp) k)"
  have cur: "0 \<le> g_current k" "g_current k < int n" using assms(2,3) by simp_all
  note co = yield_push_core [OF cur, of p dbg tramp]
  note y = posix.yield_running [of n p dbg tramp, simplified, OF assms(1-4)]
  have inv: "kinv ?B {} ?k" using y(1) kinv_same_core [OF co] by simp
  have len: "length (g_tcbs k) = n" using kwf_sizes(2) [OF kinv_kwf [OF assms(1)]] by simp
  have tcb: "g_tcbs ?k = (g_tcbs k)[c := (g_tcbs k ! c)\<lparr>slice_left := 1\<rparr>]" and kcur: "g_current ?k = int c"
    and rl: "rq_list ?B ?k ?r = rq_list ?B k ?r @ [c]"
    using core_fields(1,2) [OF co] y(2,6) y(3) [of ?r] assms(2,5) rq_list_core [OF sched_core_of_core [OF co]] by simp_all
  have pol: "g_policy ?k = g_policy k" by (simp add: yield_push_def Let_def deref_def)
  let ?D = "{i. i < n \<and> due ?k (g_tick ?k + 1) i}"
  note e = posix.tick_isr_effect [of n p dbg tramp "{}" ?k, simplified, OF inv kcur assms(3)]
  have cD: "c \<notin> ?D" using tcb assms(3,4) len by (simp add: due_def)
  have sl: "g_tcbs k1 ! c = (g_tcbs k ! c)\<lparr>slice_left := 0\<rparr>"
    using e(4) [of c] cD tcb len assms(3,4,5,6) pol by (simp add: k1_def tick_sighandler_def charged_tcb_def Let_def)
  have co2: "core k2 = core (hrt__tick_isr ?B ?k)"
    by (simp add: k2_def k1_def posix_hook_core tick_sighandler_def posix_core)
  have inv2: "kinv ?B {} k2" using e(1) kinv_same_core [OF co2] by simp
  have t2: "g_tcbs k2 = g_tcbs (hrt__tick_isr ?B ?k)" "g_current k2 = int c"
    using core_fields(1,2) [OF co2] e(5) kcur by simp_all
  have tc: "g_tcbs k2 ! c = (g_tcbs k ! c)\<lparr>slice_left := 0\<rparr>" using sl t2(1) by (simp add: k1_def tick_sighandler_def)
  have last: "state (g_tcbs k2 ! (n - 1)) \<noteq> HRT_READY"
  proof -
    have "n - 1 \<noteq> c" using assms(4,7) by auto
    then show ?thesis using e(4) [of "n - 1"] t2(1) tcb assms(7) by (simp add: Let_def due_def)
  qed
  have pr: "?r < p" using kwf_prio [OF kinv_kwf [OF assms(1)], of c] assms(3,4) by simp
  have short: "length (rq_list ?B k2 ?r) < n"
    using ready_queue_short [OF kinv_kwf [OF inv2] _ last, of ?r] assms(3) pr by simp
  have "g_policy k2 = g_policy k" using core_fields(5) [OF co2] pol tick_policy by simp
  then have bk: "rq_list ?B (posix_sched_back ?B k2) ?r = rq_list ?B k2 ?r @ [c]"
    using back_requeues [OF inv2 t2(2), of ?r] tc short assms(3-6) by simp
  have "c \<notin> set (rq_list ?B k ?r)" using posix.running_not_queued [of n p dbg tramp, simplified, OF assms(1)] assms(3) pr by (auto simp: queued_def)
  moreover have "rq_list ?B k2 ?r = rq_list ?B k ?r @ [c] @ filter (\<lambda>i. i \<in> ?D \<and> unat (prio (g_tcbs ?k ! i)) = ?r) [0..<n]"
    using e(3) [of ?r] rl rq_list_core [OF sched_core_of_core [OF co2]] by simp
  ultimately show ?thesis using bk cD by (auto simp: count_list_0_iff)
qed

definition P_slice1 :: posix where
  "P_slice1 = demo_posix [ready1\<lparr>timeslice_cfg := 1, slice_left := 1\<rparr>, ready1, free0] [[], [1]] 0"

theorem tick_in_yield_queues_twice_witness:
  "count_list (rq_list PB (posix_sched_back PB (snd (posix_yield_to_scheduler 3 (posix_pend_context_switch
     (tick_sighandler PB (yield_push PB P_slice1)))))) 1) 0 = 2"
proof -
  have k: "kinv PB {0} P_slice1" "g_current P_slice1 = int 0" "state (g_tcbs P_slice1 ! 0) = HRT_READY"
    "timeslice_cfg (g_tcbs P_slice1 ! 0) = 1" "rr_policy (g_policy P_slice1)" "state (g_tcbs P_slice1 ! (3 - 1)) = HRT_UNUSED"
    "unat (prio (g_tcbs P_slice1 ! 0)) = 1" by code_simp+
  show ?thesis
    using tick_in_yield_queues_twice [of 3 2 True "0x100" 0 P_slice1, folded PB_def, OF k(1,2) _ k(3-6)] k(7) by simp
qed

section \<open>A tick inside a sleep on Cortex-M\<close>

text \<open>The tick after a sleep of one tick makes the sleeper ready and queues it, while it is still the current task.\<close>

lemma tick_wakes_current:
  fixes ms :: u32
  assumes "kinv (cm_build L n p dbg) {c} k" "g_current k = int c" "c < n" "state (g_tcbs k ! c) = HRT_READY"
    "\<forall>r < p. rq_list (cm_build L n p dbg) k r = []" "\<forall>i < n. i \<noteq> c \<longrightarrow> state (g_tcbs k ! i) \<noteq> HRT_SLEEP"
    "hrt__ms_to_ticks ms (g_tick_hz k) = 1" "g_tick_src k \<noteq> HRT_TICK_EXTERNAL"
  defines "B \<equiv> cm_build L n p dbg"
  defines "t \<equiv> SysTick_Handler B (snd (hrt_sleep B ms k))"
  shows "kshape B t" "state (g_tcbs t ! c) = HRT_READY" "prio (g_tcbs t ! c) = prio (g_tcbs k ! c)" "g_current t = int c"
    "r < p \<Longrightarrow> rq_list B t r = (if r = unat (prio (g_tcbs k ! c)) then [c] else [])"
proof -
  let ?s = "snd (hrt_sleep B ms k)" and ?p = "unat (prio (g_tcbs k ! c))"
  have B: "HARDRT_MAX_TASKS B = n" "HARDRT_MAX_PRIO B = p" by (simp_all add: B_def)
  have cN: "c < HARDRT_MAX_TASKS (cm_build L n p dbg)" and u: "state (g_tcbs k ! c) \<noteq> HRT_UNUSED" using assms(3,4) by simp_all
  note sl = cm.sleep_running [OF assms(1,2) cN u, where ms = ms, folded B_def]
  have cur: "g_current ?s = int c" using sl(6) assms(2) by simp
  have len: "length (g_tcbs k) = n" using kwf_sizes(2) [OF kinv_kwf [OF assms(1)]] by simp
  have D: "{i. i < n \<and> due ?s (g_tick ?s + 1) i} = {c}"
    using assms(3,6,7) sl(2,7) len by (auto simp: due_def nth_list_update sleep_expired_def split: if_splits)
  note e = cm.tick_isr_effect [OF sl(1) [unfolded B_def] cur [unfolded B_def] cN, folded B_def, unfolded B D]
  have "g_tick_src ?s = g_tick_src k"
    using assms(2,3) len by (simp add: hrt_sleep_def B_def Let_def cm_yield_to_scheduler_def cm_pend_context_switch_def)
  then have t: "t = hrt__tick_isr B ?s" using assms(8) by (simp add: t_def SysTick_Handler_def hrt__cfg_tick_src_def)
  show "state (g_tcbs t ! c) = HRT_READY" "prio (g_tcbs t ! c) = prio (g_tcbs k ! c)" "g_current t = int c"
    using e(4) [of c] e(5) cur sl(2) len assms(3) by (simp_all add: t Let_def charged_tcb_def)
  show "kshape B t" using kwf_shape [OF kinv_kwf [OF e(1)]] by (simp add: t)
  assume r: "r < p"
  have "[0..<n] = [0..<c] @ c # [Suc c..<n]"
    using assms(3) by (metis append_Cons append_Nil upt_add_eq_append upt_conv_Cons le_add_diff_inverse less_imp_le zero_le)
  then have "filter (\<lambda>i. i = c \<and> ?p = r) [0..<n] = (if r = ?p then [c] else [])" by (simp add: filter_empty_conv)
  moreover have "filter (\<lambda>i. i \<in> {c} \<and> unat (prio (g_tcbs ?s ! i)) = r) [0..<n] = filter (\<lambda>i. i = c \<and> ?p = r) [0..<n]"
    using sl(2) len by (intro filter_cong) auto
  ultimately show "rq_list B t r = (if r = ?p then [c] else [])" using e(3) [of r] sl(3) assms(5) [folded B_def] r by (simp add: t)
qed

text \<open>C38: On Cortex-M a SysTick between the end of \<open>hrt_sleep\<close> and the PendSV handler, which it preempts, queues a
  task that sleeps for one tick twice: the tick makes it ready and queues it, and \<open>hrt__schedule\<close> queues the
  task it switches away from whenever that is ready. The task goes on running with an entry left in the
  queue, so that its next sleep returns at once.\<close>

theorem tick_in_sleep_queues_twice:
  fixes ms ms2 :: u32
  assumes "kinv (cm_build L n p dbg) {c} k" "g_current k = int c" "c < n" "1 < n" "state (g_tcbs k ! c) = HRT_READY"
    "\<forall>r < p. rq_list (cm_build L n p dbg) k r = []" "\<forall>i < n. i \<noteq> c \<longrightarrow> state (g_tcbs k ! i) \<noteq> HRT_SLEEP"
    "hrt__ms_to_ticks ms (g_tick_hz k) = 1" "g_tick_src k \<noteq> HRT_TICK_EXTERNAL" "s \<noteq> 0" "s2 \<noteq> 0"
  defines "B \<equiv> cm_build L n p dbg"
  defines "k1 \<equiv> snd (hrt__schedule B s (SysTick_Handler B (snd (hrt_sleep B ms k))))"
  defines "k2 \<equiv> snd (hrt__schedule B s2 (snd (hrt_sleep B ms2 k1)))"
  shows "g_current k1 = int c \<and> rq_list B k1 (unat (prio (g_tcbs k ! c))) = [c] \<and>
    g_current k2 = int c \<and> state (g_tcbs k2 ! c) = HRT_SLEEP"
proof -
  let ?t = "SysTick_Handler B (snd (hrt_sleep B ms k))" and ?p = "unat (prio (g_tcbs k ! c))"
  have cN: "c < HARDRT_MAX_TASKS B" "1 < HARDRT_MAX_TASKS B" using assms(3,4) by (simp_all add: B_def)
  note w = tick_wakes_current [OF assms(1-3,5-9), folded B_def]
  have p: "?p < p" using kwf_prio [OF kinv_kwf [OF assms(1)], of c] assms(3,5) by simp
  have pB: "unat (prio (g_tcbs ?t ! c)) < HARDRT_MAX_PRIO B" using p w(3) by (simp add: B_def)
  have rB: "\<forall>r < HARDRT_MAX_PRIO B. rq_list B ?t r = (if r = unat (prio (g_tcbs ?t ! c)) then [c] else [])"
    using w(3,5) by (simp add: B_def)
  note f = schedule_requeues_queued [OF w(1,4) cN w(2) pB rB assms(10), folded k1_def]
  have r1: "rq_list B k1 ?p = [c]" "\<forall>q < ?p. rq_list B k1 q = []" using f(4) w(5) p by simp_all
  show ?thesis
    using cm_stale_sleep [OF f(2) [unfolded B_def] f(1) assms(3) p r1(1) [unfolded B_def] r1(2) [unfolded B_def] assms(11), where ms = ms2]
      f(1) r1(1) by (simp add: k2_def B_def)
qed

theorem tick_in_sleep_queues_twice_witness:
  "g_current (snd (hrt__schedule CB 0x20001000 (snd (hrt_sleep CB 100 (snd (hrt__schedule CB 0x20001000
      (SysTick_Handler CB (snd (hrt_sleep CB 1 C_one))))))))) = 0 \<and>
   state (g_tcbs (snd (hrt__schedule CB 0x20001000 (snd (hrt_sleep CB 100 (snd (hrt__schedule CB 0x20001000
      (SysTick_Handler CB (snd (hrt_sleep CB 1 C_one))))))))) ! 0) = HRT_SLEEP"
proof -
  have h: "g_current C_one = int 0" "state (g_tcbs C_one ! 0) = HRT_READY"
    "hrt__ms_to_ticks 1 (g_tick_hz C_one) = 1" "g_tick_src C_one \<noteq> HRT_TICK_EXTERNAL"
    "\<forall>r < 2. rq_list CB C_one r = []" "\<forall>i < 3. i \<noteq> 0 \<longrightarrow> state (g_tcbs C_one ! i) \<noteq> HRT_SLEEP"
    by code_simp+
  have "(0 :: nat) < 3" "(1 :: nat) < 3" "(0x20001000 :: u32) \<noteq> 0" by simp_all
  note t = tick_in_sleep_queues_twice [of demo_link 3 2 True 0 C_one, folded CB_def,
    OF demo_kinv(8) h(1) this(1,2) h(2) h(5,6,3,4) this(3,3), of 100]
  show ?thesis using t by simp
qed

end
