(* ===== verification/HRT_CM_Props.thy ===== *)
theory HRT_CM_Props
  imports HRT_CM_Boot HRT_Race
begin

text \<open>
  The properties of whole Cortex-M systems: tasks that share one register bank and one memory do not
  disturb each other, from the reset of the board on.
\<close>

text \<open>C3: Every task has the registers and its stack to itself. In any run of a Cortex-M system, whatever calls the tasks
  make, whenever ticks and other interrupts come and switches are taken, a task that does not run its own code
  in between keeps its registers, its stack pointer and the contents of its stack; the PendSV handler always comes
  back, and no invalid control block is touched.\<close>

theorem cm_tasks_keep_context:
  fixes L :: cm_link
  assumes "cm_inv (cm_build L n p dbg) stk T w" "cm_runs (cm_build L n p dbg) stk T w es w'" "i \<in> T" "Ran i \<notin> set es"
  shows "task_view stk w' i = task_view stk w i \<and> cm_inv (cm_build L n p dbg) stk T w' \<and>
    g_fault (mach w') = g_fault (mach w) \<and> (\<exists>w''. cm_switch (cm_build L n p dbg) w' = Some w'')"
proof -
  note r = cm_runs_ok [OF assms(2,1)]
  obtain w'' where "cm_switch (cm_build L n p dbg) w' = Some w''" using cm_switch_ok r by blast
  then show ?thesis using r assms(3,4) by blast
qed

definition C_world :: cm_world where
  "C_world = \<lparr>mach = C_ready\<lparr>g_tcbs := [ready1, ready1\<lparr>sp := 0x20005000\<rparr>, free0\<lparr>sp := 0x20008000\<rparr>]\<rparr>,
     regs = [1, 2, 3, 4, 5, 6, 7, 8], cm_sems = [], cm_mutexes = [], cm_queues = []\<rparr>"

definition C_stk :: "nat \<Rightarrow> stack_area" where
  "C_stk i = [(0x20001000, 0x20002000), (0x20004000, 0x20006000), (0x20007000, 0x20009000)] ! i"

theorem cm_tasks_keep_context_witness:
  "task_view C_stk (cm_interrupt CB IrqSysTick (cm_do CB CallYield C_world)) 1 = task_view C_stk C_world 1"
proof -
  have s: "sane CB {0, 1, 2} (mach C_world)" "stacks_ok C_stk {0, 1, 2}" "g_current C_ready = 0" "psp C_ready = 0x20002000"
    "length (r4_r11 (mach C_world)) = 8" by code_simp+
  have inv: "cm_inv (cm_build demo_link 3 2 True) C_stk {0, 1, 2} C_world"
    using s by (simp add: cm_inv_def CB_def C_world_def objects_sane_def task_context_def frame_at_def context_psp_def room_def C_stk_def)
  have run: "cm_runs CB C_stk {0, 1, 2} C_world [Called, Interrupted] (cm_interrupt CB IrqSysTick (cm_do CB CallYield C_world))"
    by (rule cm_runs.more [OF cm_sys.call cm_runs.more [OF cm_sys.irq cm_runs.none]]) simp_all
  show ?thesis using cm_tasks_keep_context [OF inv run [unfolded CB_def], of 1] by (simp add: CB_def)
qed

text \<open>C23: The board programs run their tasks undisturbed. After the main function of \<open>hardrt_h755_demo\<close>,
  \<open>hardrt_h755_blinky\<close> or \<open>hardrt_h755_blinky_cpp\<close>, entered with the process stack pointer at 0 and with stacks that do not
  overlap, the first PendSV dispatches a task; each task starts in the trampoline at the top of its stack, the
  idle task in its loop. In every run that follows a task keeps its registers and stack while others
  run, the PendSV handler comes back, and no invalid control block is touched.\<close>

theorem board_tasks_keep_context:
  fixes L :: cm_link and k :: cortexm
  assumes "boot_ok L n p dbg [args_A S, args_B S]" "psp k = 0" "cm_sems w = []" "cm_mutexes w = []" "cm_queues w = []"
    "mach w = snd (demo_main C L S (cm_build L n p dbg) (m, k)) \<or> mach w = snd (blinky_main C L S (cm_build L n p dbg) (m, k)) \<or>
     mach w = snd (blinky_cpp_main C L (\<lambda>_ tag. if tag = 0 then stack_A S else stack_B S) S (cm_build L n p dbg) (m, k))"
  defines "B \<equiv> cm_build L n p dbg" and "stk \<equiv> boot_area L n [args_A S, args_B S]" and "T \<equiv> boot_tasks n 2"
  shows "\<exists>w0. cm_first_switch B w = Some w0 \<and> (\<forall>i \<in> T. task_context w0 i = boot_context L n [args_A S, args_B S] i) \<and>
    (\<forall>es w'. cm_runs B stk T w0 es w' \<longrightarrow> g_fault (mach w') = g_fault k \<and> (\<exists>w''. cm_switch B w' = Some w'') \<and>
       (\<forall>i \<in> T. Ran i \<notin> set es \<longrightarrow> task_view stk w' i = task_view stk w0 i))"
proof -
  have T: "boot_tasks n (length [args_A S, args_B S]) = T" by (simp add: T_def numeral_2_eq_2)
  have e: "mach w = hrt_start B (boot_all B (board_config L) [args_A S, args_B S] k)"
    using assms(6) by (auto simp: B_def board_mains_booted blinky_cpp_booted)
  have o: "objects_sane B (boot_tasks n (length [args_A S, args_B S])) w" using assms(3-5) by (simp add: objects_sane_def)
  obtain w0 where w0: "cm_first_switch B w = Some w0" "cm_inv B stk T w0" "g_fault (mach w0) = g_fault k"
    "\<forall>i \<in> T. task_context w0 i = boot_context L n [args_A S, args_B S] i"
    using boot_runs [OF assms(1,2) e [unfolded B_def] o [unfolded B_def], unfolded T, folded B_def stk_def] by (metis (no_types, lifting))
  have "g_fault (mach w') = g_fault k \<and> (\<exists>w''. cm_switch B w' = Some w'') \<and>
      (\<forall>i \<in> T. Ran i \<notin> set es \<longrightarrow> task_view stk w' i = task_view stk w0 i)" if "cm_runs B stk T w0 es w'" for es w'
  proof -
    note r = cm_runs_ok [OF that [unfolded B_def] w0(2) [unfolded B_def], folded B_def]
    obtain w'' where "cm_switch B w' = Some w''" using cm_switch_ok r unfolding B_def by blast
    with r w0(3) show ?thesis by auto
  qed
  with w0(1,4) show ?thesis by blast
qed

theorem board_tasks_keep_context_witness:
  "\<exists>w0. cm_first_switch CB \<lparr>mach = snd (blinky_cpp_main demo_cmsis demo_link (\<lambda>_ tag. if tag = 0 then 0x20004000 else 0x20006000)
      demo_syms CB (\<lambda>_. 0, C_ready\<lparr>psp := 0\<rparr>)), regs = [], cm_sems = [], cm_mutexes = [], cm_queues = []\<rparr> = Some w0 \<and>
    task_context w0 1 = ([0, 0, 0, 0, 0, 0xFFFFFFFD, 0x8000201, 0x01000000], replicate 8 0, 0x20006800)"
proof -
  let ?k = "C_ready\<lparr>psp := 0\<rparr>" and ?st = "\<lambda>(_ :: nat) (tag :: int). if tag = 0 then stack_A demo_syms else stack_B demo_syms"
  have "valid_build (cm_build demo_link 3 2 True)" "stacks_ok (boot_area demo_link 3 [args_A demo_syms, args_B demo_syms]) (boot_tasks 3 (Suc (Suc 0)))"
    by code_simp+
  then have ok: "boot_ok demo_link 3 2 True [args_A demo_syms, args_B demo_syms]"
    by (simp add: boot_ok_def args_ok_def args_A_def args_B_def demo_syms_def demo_link_def)
  have ctx: "boot_context demo_link 3 [args_A demo_syms, args_B demo_syms] 1 =
      ([0, 0, 0, 0, 0, 0xFFFFFFFD, 0x8000201, 0x01000000], replicate 8 0, 0x20006800)" "1 \<in> boot_tasks 3 2" by code_simp+
  have st: "(\<lambda>(_ :: nat) (tag :: int). if tag = 0 then 0x20004000 else 0x20006000 :: uintptr) = ?st" by (intro ext) (simp add: demo_syms_def)
  let ?w = "\<lparr>mach = snd (blinky_cpp_main demo_cmsis demo_link ?st demo_syms CB (\<lambda>_. 0, ?k)), regs = [], cm_sems = [], cm_mutexes = [], cm_queues = []\<rparr>"
  have h: "psp ?k = 0" "cm_sems ?w = []" "cm_mutexes ?w = []" "cm_queues ?w = []" by simp_all
  have "\<exists>w0. cm_first_switch CB ?w = Some w0 \<and> (\<forall>i \<in> boot_tasks 3 2.
      task_context w0 i = boot_context demo_link 3 [args_A demo_syms, args_B demo_syms] i)"
    using board_tasks_keep_context [OF ok h, of demo_cmsis "\<lambda>_. 0", folded CB_def] by fastforce
  then show ?thesis unfolding st using ctx by fastforce
qed

end
