(* ===== verification/HRT_Startup.thy ===== *)
theory HRT_Startup
  imports HRT_Board
begin

unbundle bit_operations_syntax

text \<open>
  The start-up code of the STM32H755 programs: the reset handler of \<open>startup/startup_stm32h755xx.s\<close>, the power set-up
  \<open>ExitRun0Mode\<close> it calls (\<open>vendor/stm32/system_stm32h7xx.c\<close>) and the system call stubs of \<open>src/syscalls.c\<close>.

  The handler is a program in the instructions it uses, \<open>reset_code\<close>, over five registers, the stack pointer,
  the carry flag and the memory of words by address. The functions it calls are a parameter: a call
  changes registers and memory as the parameter says and comes back. The lemmas show that it leaves its two
  loops and in what state it calls the static constructors and \<open>main\<close>.
\<close>

section \<open>Power supply\<close>

datatype pwr_supply =
    PWR_LDO_SUPPLY | PWR_EXTERNAL_SOURCE_SUPPLY | PWR_DIRECT_SMPS_SUPPLY
  | PWR_SMPS_1V8_SUPPLIES_LDO | PWR_SMPS_2V5_SUPPLIES_LDO
  | PWR_SMPS_1V8_SUPPLIES_EXT_AND_LDO | PWR_SMPS_2V5_SUPPLIES_EXT_AND_LDO
  | PWR_SMPS_1V8_SUPPLIES_EXT | PWR_SMPS_2V5_SUPPLIES_EXT

datatype pwr_mask =
    PWR_CR3_SMPSEN | PWR_CR3_LDOEN | PWR_CR3_BYPASS | PWR_CR3_SMPSLEVEL_0 | PWR_CR3_SMPSLEVEL_1 | PWR_CR3_SMPSEXTHP
  | PWR_CSR1_ACTVOSRDY

text \<open>The loop that waits for the voltage flag: \<open>poll i\<close> is what the \<open>i\<close>-th read of \<open>PWR->CSR1\<close> returns; the value is the
  number of reads that did not show the flag.\<close>

partial_function (option) wait_ready :: "u32 \<Rightarrow> (nat \<Rightarrow> u32) \<Rightarrow> nat \<Rightarrow> nat option" where
  "wait_ready flag poll i = (if poll i AND flag = 0 then wait_ready flag poll (Suc i) else Some i)"

declare wait_ready.simps [code]

text \<open>The new value of \<open>PWR->CR3\<close>, if the macros select a supply. \<open>smps\<close> says that the device has the step-down converter.\<close>

definition pwr_cr3 :: "(pwr_mask \<Rightarrow> u32) \<Rightarrow> bool \<Rightarrow> pwr_supply option \<Rightarrow> u32 \<Rightarrow> u32 option" where
  "pwr_cr3 M smps sel cr3 =
     (case sel of
        None \<Rightarrow> None
      | Some PWR_LDO_SUPPLY \<Rightarrow>
          Some (if smps then (cr3 AND NOT (M PWR_CR3_SMPSEN)) OR M PWR_CR3_LDOEN else cr3 OR M PWR_CR3_LDOEN)
      | Some PWR_EXTERNAL_SOURCE_SUPPLY \<Rightarrow>
          Some (if smps then (cr3 AND NOT (M PWR_CR3_SMPSEN OR M PWR_CR3_LDOEN)) OR M PWR_CR3_BYPASS
                else (cr3 AND NOT (M PWR_CR3_LDOEN)) OR M PWR_CR3_BYPASS)
      | Some s \<Rightarrow>
          if \<not> smps then None
          else Some (case s of
              PWR_SMPS_1V8_SUPPLIES_LDO \<Rightarrow> cr3 OR M PWR_CR3_SMPSLEVEL_0 OR M PWR_CR3_SMPSEN OR M PWR_CR3_LDOEN
            | PWR_SMPS_2V5_SUPPLIES_LDO \<Rightarrow> cr3 OR M PWR_CR3_SMPSLEVEL_1 OR M PWR_CR3_SMPSEN OR M PWR_CR3_LDOEN
            | PWR_SMPS_1V8_SUPPLIES_EXT_AND_LDO \<Rightarrow>
                cr3 OR M PWR_CR3_SMPSLEVEL_0 OR M PWR_CR3_SMPSEXTHP OR M PWR_CR3_SMPSEN OR M PWR_CR3_LDOEN
            | PWR_SMPS_2V5_SUPPLIES_EXT_AND_LDO \<Rightarrow>
                cr3 OR M PWR_CR3_SMPSLEVEL_1 OR M PWR_CR3_SMPSEXTHP OR M PWR_CR3_SMPSEN OR M PWR_CR3_LDOEN
            | PWR_SMPS_1V8_SUPPLIES_EXT \<Rightarrow>
                (cr3 AND NOT (M PWR_CR3_LDOEN)) OR M PWR_CR3_SMPSLEVEL_0 OR M PWR_CR3_SMPSEXTHP OR M PWR_CR3_SMPSEN OR M PWR_CR3_BYPASS
            | PWR_SMPS_2V5_SUPPLIES_EXT \<Rightarrow>
                (cr3 AND NOT (M PWR_CR3_LDOEN)) OR M PWR_CR3_SMPSLEVEL_1 OR M PWR_CR3_SMPSEXTHP OR M PWR_CR3_SMPSEN OR M PWR_CR3_BYPASS
            | _ \<Rightarrow> cr3 AND NOT (M PWR_CR3_LDOEN)))"

definition ExitRun0Mode ::
  "u32 \<Rightarrow> (pwr_mask \<Rightarrow> u32) \<Rightarrow> bool \<Rightarrow> pwr_supply option \<Rightarrow> (nat \<Rightarrow> u32) \<Rightarrow> bus \<Rightarrow> bus option" where
  "ExitRun0Mode cr3 M smps sel poll m =
     (case pwr_cr3 M smps sel (m cr3) of
        None \<Rightarrow> Some m
      | Some v \<Rightarrow> (case wait_ready (M PWR_CSR1_ACTVOSRDY) poll 0 of None \<Rightarrow> None | Some _ \<Rightarrow> Some (m(cr3 := v))))"

section \<open>The reset handler\<close>

record reset_syms =
  rs_estack :: u32
  rs_sdata :: u32
  rs_edata :: u32
  rs_sidata :: u32
  rs_sbss :: u32
  rs_ebss :: u32

datatype callee = Fn_ExitRun0Mode | Fn_SystemInit | Fn_libc_init_array | Fn_main

datatype low_reg = R0 | R1 | R2 | R3 | R4

datatype reset_instr =
    LDR_SP u32 | BL callee | LDR_lit low_reg u32 | MOVS low_reg u32 | B_to nat
  | LDR_idx low_reg low_reg low_reg | STR_idx low_reg low_reg low_reg | STR_at low_reg low_reg
  | ADDS_imm low_reg low_reg u32 | ADDS_reg low_reg low_reg low_reg | CMP low_reg low_reg | BCC nat | BX_to_LR

definition reset_code :: "reset_syms \<Rightarrow> reset_instr list" where
  "reset_code S =
     [LDR_SP (rs_estack S), BL Fn_ExitRun0Mode, BL Fn_SystemInit,
      LDR_lit R0 (rs_sdata S), LDR_lit R1 (rs_edata S), LDR_lit R2 (rs_sidata S), MOVS R3 0, B_to 11,
      LDR_idx R4 R2 R3, STR_idx R4 R0 R3, ADDS_imm R3 R3 4,
      ADDS_reg R4 R0 R3, CMP R4 R1, BCC 8,
      LDR_lit R2 (rs_sbss S), LDR_lit R4 (rs_ebss S), MOVS R3 0, B_to 20,
      STR_at R3 R2, ADDS_imm R2 R2 4,
      CMP R2 R4, BCC 18,
      BL Fn_libc_init_array, BL Fn_main, BX_to_LR]"

record reset_cpu =
  rpc :: nat
  rreg :: "low_reg \<Rightarrow> u32"
  rsp :: u32
  rlr :: nat
  carry :: bool
  rmem :: bus

text \<open>What a called function does to registers and memory; it returns behind the call with the stack pointer it found.\<close>

type_synonym reset_env = "callee \<Rightarrow> (low_reg \<Rightarrow> u32) \<times> bus \<Rightarrow> (low_reg \<Rightarrow> u32) \<times> bus"

text \<open>\<open>CMP\<close> sets the carry flag when there is no borrow, \<open>BCC\<close> branches when it is clear.\<close>

fun reset_exec :: "reset_env \<Rightarrow> reset_instr \<Rightarrow> reset_cpu \<Rightarrow> reset_cpu" where
  "reset_exec F (LDR_SP v) s = s\<lparr>rsp := v, rpc := rpc s + 1\<rparr>"
| "reset_exec F (BL f) s =
     (case F f (rreg s, rmem s) of (g, m) \<Rightarrow> s\<lparr>rreg := g, rmem := m, rlr := rpc s + 1, rpc := rpc s + 1\<rparr>)"
| "reset_exec F (LDR_lit d v) s = s\<lparr>rreg := (rreg s)(d := v), rpc := rpc s + 1\<rparr>"
| "reset_exec F (MOVS d v) s = s\<lparr>rreg := (rreg s)(d := v), rpc := rpc s + 1\<rparr>"
| "reset_exec F (B_to l) s = s\<lparr>rpc := l\<rparr>"
| "reset_exec F (LDR_idx d a b) s = s\<lparr>rreg := (rreg s)(d := rmem s (rreg s a + rreg s b)), rpc := rpc s + 1\<rparr>"
| "reset_exec F (STR_idx d a b) s = s\<lparr>rmem := (rmem s)(rreg s a + rreg s b := rreg s d), rpc := rpc s + 1\<rparr>"
| "reset_exec F (STR_at d a) s = s\<lparr>rmem := (rmem s)(rreg s a := rreg s d), rpc := rpc s + 1\<rparr>"
| "reset_exec F (ADDS_imm d a v) s =
     s\<lparr>rreg := (rreg s)(d := rreg s a + v), carry := (unat (rreg s a) + unat v \<ge> 2 ^ 32), rpc := rpc s + 1\<rparr>"
| "reset_exec F (ADDS_reg d a b) s =
     s\<lparr>rreg := (rreg s)(d := rreg s a + rreg s b), carry := (unat (rreg s a) + unat (rreg s b) \<ge> 2 ^ 32), rpc := rpc s + 1\<rparr>"
| "reset_exec F (CMP a b) s = s\<lparr>carry := (rreg s a \<ge> rreg s b), rpc := rpc s + 1\<rparr>"
| "reset_exec F (BCC l) s = s\<lparr>rpc := (if carry s then rpc s + 1 else l)\<rparr>"
| "reset_exec F BX_to_LR s = s\<lparr>rpc := rlr s\<rparr>"

definition reset_step :: "reset_env \<Rightarrow> reset_syms \<Rightarrow> reset_cpu \<Rightarrow> reset_cpu" where
  "reset_step F S s = reset_exec F (reset_code S ! rpc s) s"

definition reset_run :: "reset_env \<Rightarrow> reset_syms \<Rightarrow> nat \<Rightarrow> reset_cpu \<Rightarrow> reset_cpu" where
  "reset_run F S n s = (reset_step F S ^^ n) s"

section \<open>System call stubs\<close>

datatype errno = EBADF | ESPIPE | EAGAIN

datatype file_mode = S_IFCHR

definition sys_close :: "int \<Rightarrow> int \<times> errno" where
  "sys_close fd = (-1, EBADF)"

definition sys_fstat :: "int \<Rightarrow> file_mode option option \<Rightarrow> int \<times> file_mode option option" where
  "sys_fstat fd st = (0, case st of None \<Rightarrow> None | Some _ \<Rightarrow> Some (Some S_IFCHR))"

definition sys_isatty :: "int \<Rightarrow> int" where
  "sys_isatty fd = 1"

definition sys_lseek :: "int \<Rightarrow> int \<Rightarrow> int \<Rightarrow> int \<times> errno" where
  "sys_lseek fd ptr dir = (-1, ESPIPE)"

definition sys_read :: "int \<Rightarrow> u8 list \<Rightarrow> int \<Rightarrow> int \<times> u8 list \<times> errno" where
  "sys_read fd dst cnt = (-1, dst, EAGAIN)"

definition sys_write :: "int \<Rightarrow> u8 list \<Rightarrow> int \<Rightarrow> int" where
  "sys_write fd src cnt = cnt"

section \<open>The power set-up ends when the flag comes\<close>

lemma wait_ready_least:
  assumes "poll (i + j) AND flag \<noteq> 0" "\<forall>l < j. poll (i + l) AND flag = 0"
  shows "wait_ready flag poll i = Some (i + j)"
  using assms
proof (induction j arbitrary: i)
  case 0
  then show ?case by (subst wait_ready.simps) simp
next
  case (Suc j)
  have "wait_ready flag poll (Suc i) = Some (Suc i + j)"
    using Suc.prems by (intro Suc.IH) (auto dest: spec [of _ "Suc _"])
  moreover have "poll i AND flag = 0" using Suc.prems(2) by (auto dest: spec [of _ 0])
  ultimately show ?case by (subst wait_ready.simps) simp
qed

lemma wait_ready_result:
  assumes "wait_ready flag poll i = Some j"
  shows "poll j AND flag \<noteq> 0"
  by (rule wait_ready.raw_induct [of "\<lambda>flag poll i j. poll j AND flag \<noteq> 0", OF _ assms]) (auto split: if_splits)

lemma wait_ready_ends: "(\<exists>j. wait_ready flag poll 0 = Some j) \<longleftrightarrow> (\<exists>i. poll i AND flag \<noteq> 0)"
proof
  assume "\<exists>i. poll i AND flag \<noteq> 0"
  then have "poll (LEAST i. poll i AND flag \<noteq> 0) AND flag \<noteq> 0" by (rule LeastI_ex)
  then have "wait_ready flag poll 0 = Some (0 + (LEAST i. poll i AND flag \<noteq> 0))"
    using not_less_Least by (intro wait_ready_least) auto
  then show "\<exists>j. wait_ready flag poll 0 = Some j" by blast
qed (use wait_ready_result in blast)

lemma ExitRun0Mode_ends:
  "(\<exists>m'. ExitRun0Mode cr3 M smps sel poll m = Some m') \<longleftrightarrow>
     pwr_cr3 M smps sel (m cr3) = None \<or> (\<exists>i. poll i AND M PWR_CSR1_ACTVOSRDY \<noteq> 0)"
  using wait_ready_ends [of "M PWR_CSR1_ACTVOSRDY" poll] by (auto simp: ExitRun0Mode_def split: option.split)

section \<open>The two loops of the reset handler\<close>

lemma reset_run_add: "reset_run F S (m + n) s = reset_run F S n (reset_run F S m s)"
  by (simp add: reset_run_def add.commute [of m n] funpow_add)

lemma reset_fetch:
  "rpc s = 0 \<Longrightarrow> reset_step F S s = reset_exec F (LDR_SP (rs_estack S)) s"
  "rpc s = 1 \<Longrightarrow> reset_step F S s = reset_exec F (BL Fn_ExitRun0Mode) s"
  "rpc s = 2 \<Longrightarrow> reset_step F S s = reset_exec F (BL Fn_SystemInit) s"
  "rpc s = 3 \<Longrightarrow> reset_step F S s = reset_exec F (LDR_lit R0 (rs_sdata S)) s"
  "rpc s = 4 \<Longrightarrow> reset_step F S s = reset_exec F (LDR_lit R1 (rs_edata S)) s"
  "rpc s = 5 \<Longrightarrow> reset_step F S s = reset_exec F (LDR_lit R2 (rs_sidata S)) s"
  "rpc s = 6 \<Longrightarrow> reset_step F S s = reset_exec F (MOVS R3 0) s"
  "rpc s = 7 \<Longrightarrow> reset_step F S s = reset_exec F (B_to 11) s"
  "rpc s = 8 \<Longrightarrow> reset_step F S s = reset_exec F (LDR_idx R4 R2 R3) s"
  "rpc s = 9 \<Longrightarrow> reset_step F S s = reset_exec F (STR_idx R4 R0 R3) s"
  "rpc s = 10 \<Longrightarrow> reset_step F S s = reset_exec F (ADDS_imm R3 R3 4) s"
  "rpc s = 11 \<Longrightarrow> reset_step F S s = reset_exec F (ADDS_reg R4 R0 R3) s"
  "rpc s = 12 \<Longrightarrow> reset_step F S s = reset_exec F (CMP R4 R1) s"
  "rpc s = 13 \<Longrightarrow> reset_step F S s = reset_exec F (BCC 8) s"
  "rpc s = 14 \<Longrightarrow> reset_step F S s = reset_exec F (LDR_lit R2 (rs_sbss S)) s"
  "rpc s = 15 \<Longrightarrow> reset_step F S s = reset_exec F (LDR_lit R4 (rs_ebss S)) s"
  "rpc s = 16 \<Longrightarrow> reset_step F S s = reset_exec F (MOVS R3 0) s"
  "rpc s = 17 \<Longrightarrow> reset_step F S s = reset_exec F (B_to 20) s"
  "rpc s = 18 \<Longrightarrow> reset_step F S s = reset_exec F (STR_at R3 R2) s"
  "rpc s = 19 \<Longrightarrow> reset_step F S s = reset_exec F (ADDS_imm R2 R2 4) s"
  "rpc s = 20 \<Longrightarrow> reset_step F S s = reset_exec F (CMP R2 R4) s"
  "rpc s = 21 \<Longrightarrow> reset_step F S s = reset_exec F (BCC 18) s"
  "rpc s = 22 \<Longrightarrow> reset_step F S s = reset_exec F (BL Fn_libc_init_array) s"
  "rpc s = 23 \<Longrightarrow> reset_step F S s = reset_exec F (BL Fn_main) s"
  by (simp_all add: reset_step_def reset_code_def)

lemma reset_steps:
  "reset_run F S 2 s = reset_step F S (reset_step F S s)"
  "reset_run F S 4 s = reset_step F S (reset_step F S (reset_step F S (reset_step F S s)))"
  "reset_run F S 6 s = reset_step F S (reset_step F S (reset_step F S (reset_step F S (reset_step F S (reset_step F S s)))))"
  "reset_run F S 7 s =
     reset_step F S (reset_step F S (reset_step F S (reset_step F S (reset_step F S (reset_step F S (reset_step F S s))))))"
  "reset_run F S 8 s =
     reset_step F S (reset_step F S (reset_step F S (reset_step F S (reset_step F S (reset_step F S (reset_step F S (reset_step F S s)))))))"
  by (simp_all add: reset_run_def eval_nat_numeral)

lemma store_words_snoc:
  "store_words (ws @ [w]) a m = (store_words ws a m)(a + 4 * word_of_nat (length ws) := w)"
  by (induction ws arbitrary: a m) (simp_all add: distrib_left add.assoc)

lemma load_words_Suc: "load_words m a (Suc n) = load_words m a n @ [m (a + 4 * word_of_nat n)]"
  by (simp add: load_words_def)

definition data_copied :: "reset_syms \<Rightarrow> nat \<Rightarrow> bus \<Rightarrow> bus" where
  "data_copied S n m = store_words (load_words m (rs_sidata S) n) (rs_sdata S) m"

text \<open>The sections: whole words, inside the address space; the initial values lie outside the section they are copied to.\<close>

definition sections_ok :: "reset_syms \<Rightarrow> nat \<Rightarrow> nat \<Rightarrow> bool" where
  "sections_ok S nd nb \<longleftrightarrow>
     unat (rs_edata S) = unat (rs_sdata S) + 4 * nd \<and> unat (rs_ebss S) = unat (rs_sbss S) + 4 * nb \<and>
     unat (rs_sidata S) + 4 * nd \<le> 2 ^ 32 \<and>
     (unat (rs_sidata S) + 4 * nd \<le> unat (rs_sdata S) \<or> unat (rs_edata S) \<le> unat (rs_sidata S)) \<and>
     (unat (rs_edata S) \<le> unat (rs_sbss S) \<or> unat (rs_ebss S) \<le> unat (rs_sdata S))"

definition at_copy :: "reset_syms \<Rightarrow> bus \<Rightarrow> u32 \<Rightarrow> nat \<Rightarrow> reset_cpu \<Rightarrow> bool" where
  "at_copy S m tos i s \<longleftrightarrow> rpc s = 11 \<and> rreg s R0 = rs_sdata S \<and> rreg s R1 = rs_edata S \<and> rreg s R2 = rs_sidata S \<and>
     rreg s R3 = 4 * word_of_nat i \<and> rmem s = data_copied S i m \<and> rsp s = tos"

definition at_fill :: "reset_syms \<Rightarrow> bus \<Rightarrow> u32 \<Rightarrow> nat \<Rightarrow> reset_cpu \<Rightarrow> bool" where
  "at_fill S m tos i s \<longleftrightarrow> rpc s = 20 \<and> rreg s R2 = rs_sbss S + 4 * word_of_nat i \<and> rreg s R3 = 0 \<and> rreg s R4 = rs_ebss S \<and>
     rmem s = store_words (replicate i 0) (rs_sbss S) m \<and> rsp s = tos"

lemma u32_bound: "unat (x :: u32) < 2 ^ 32"
  using unsigned_less [of x, where ?'a = nat] by simp

lemma sections_okD:
  assumes "sections_ok S nd nb"
  shows "i \<le> nd \<Longrightarrow> unat (rs_sdata S + 4 * word_of_nat i) = unat (rs_sdata S) + 4 * i"
    "i \<le> nb \<Longrightarrow> unat (rs_sbss S + 4 * word_of_nat i) = unat (rs_sbss S) + 4 * i"
    "i < nd \<Longrightarrow> unat (rs_sidata S + 4 * word_of_nat i) = unat (rs_sidata S) + 4 * i"
  using assms u32_bound [of "rs_edata S"] u32_bound [of "rs_ebss S"] by (auto simp: sections_ok_def intro!: unat_offset)

lemma data_copied_source:
  assumes "sections_ok S nd nb" "i < nd"
  shows "data_copied S i m (rs_sidata S + 4 * word_of_nat i) = m (rs_sidata S + 4 * word_of_nat i)"
  unfolding data_copied_def
  using assms sections_okD(3) [OF assms(1,2)] u32_bound [of "rs_edata S"] by (intro store_words_outside) (auto simp: sections_ok_def)

lemma copy_turn:
  assumes "sections_ok S nd nb" "i < nd" "at_copy S m tos i s"
  shows "at_copy S m tos (Suc i) (reset_run F S 6 s)"
proof -
  have lt: "rs_sdata S + 4 * word_of_nat i < rs_edata S"
    using assms(1,2) sections_okD(1) [OF assms(1), of i] by (simp add: word_less_nat_alt sections_ok_def)
  have "data_copied S (Suc i) m = (data_copied S i m)(rs_sdata S + 4 * word_of_nat i := m (rs_sidata S + 4 * word_of_nat i))"
    by (simp add: data_copied_def load_words_Suc store_words_snoc)
  then show ?thesis
    using assms(3) lt data_copied_source [OF assms(1,2), of m]
    by (simp add: at_copy_def reset_steps reset_fetch not_le distrib_left)
qed

lemma copy_turns:
  assumes "sections_ok S nd nb" "i \<le> nd" "at_copy S m tos 0 s"
  shows "at_copy S m tos i (reset_run F S (6 * i) s)"
  using assms(2)
proof (induction i)
  case 0
  then show ?case using assms(3) by (simp add: reset_run_def)
next
  case (Suc i)
  have "reset_run F S (6 * Suc i) s = reset_run F S 6 (reset_run F S (6 * i) s)" using reset_run_add [of F S "6 * i" 6 s] by (simp add: add.commute)
  then show ?case using Suc copy_turn [OF assms(1)] by simp
qed

lemma fill_turn:
  assumes "sections_ok S nd nb" "i < nb" "at_fill S m tos i s"
  shows "at_fill S m tos (Suc i) (reset_run F S 4 s)"
proof -
  have lt: "rs_sbss S + 4 * word_of_nat i < rs_ebss S"
    using assms(1,2) sections_okD(2) [OF assms(1), of i] by (simp add: word_less_nat_alt sections_ok_def)
  have "store_words (replicate (Suc i) 0) a m = (store_words (replicate i 0) a m)(a + 4 * word_of_nat i := 0)" for a
    using store_words_snoc [of "replicate i 0" 0 a m] by (simp add: replicate_append_same)
  then show ?thesis using assms(3) lt
    by (simp add: at_fill_def reset_steps reset_fetch not_le distrib_left del: replicate_Suc)
qed

lemma fill_turns:
  assumes "sections_ok S nd nb" "i \<le> nb" "at_fill S m tos 0 s"
  shows "at_fill S m tos i (reset_run F S (4 * i) s)"
  using assms(2)
proof (induction i)
  case 0
  then show ?case using assms(3) by (simp add: reset_run_def)
next
  case (Suc i)
  have "reset_run F S (4 * Suc i) s = reset_run F S 4 (reset_run F S (4 * i) s)" using reset_run_add [of F S "4 * i" 4 s] by (simp add: add.commute)
  then show ?case using Suc fill_turn [OF assms(1)] by simp
qed

section \<open>From reset to main\<close>

lemma reset_entry:
  assumes "rpc s = 0"
  shows "at_copy S (snd (F Fn_SystemInit (F Fn_ExitRun0Mode (rreg s, rmem s)))) (rs_estack S) 0 (reset_run F S 8 s)"
proof -
  have "load_words m a 0 = []" for m a by (simp add: load_words_def)
  then show ?thesis using assms by (simp add: at_copy_def data_copied_def reset_steps reset_fetch split_beta)
qed

lemma copy_done:
  assumes "sections_ok S nd nb" "at_copy S m tos nd s"
  shows "at_fill S (data_copied S nd m) tos 0 (reset_run F S 7 s)"
proof -
  have "rs_edata S = rs_sdata S + 4 * word_of_nat nd"
    using assms(1) sections_okD(1) [OF assms(1), of nd] by (simp add: sections_ok_def word_unat_eq_iff)
  then show ?thesis using assms(2) by (simp add: at_copy_def at_fill_def reset_steps reset_fetch)
qed

lemma fill_done:
  assumes "sections_ok S nd nb" "at_fill S m tos nb s"
  shows "rpc (reset_run F S 2 s) = 22" "rsp (reset_run F S 2 s) = tos"
    "rmem (reset_run F S 2 s) = store_words (replicate nb 0) (rs_sbss S) m"
proof -
  have "rs_ebss S = rs_sbss S + 4 * word_of_nat nb"
    using assms(1) sections_okD(2) [OF assms(1), of nb] by (simp add: sections_ok_def word_unat_eq_iff)
  then show "rpc (reset_run F S 2 s) = 22" "rsp (reset_run F S 2 s) = tos"
    "rmem (reset_run F S 2 s) = store_words (replicate nb 0) (rs_sbss S) m"
    using assms(2) by (simp_all add: at_fill_def reset_steps reset_fetch)
qed

lemma reset_initialised:
  fixes F :: reset_env
  assumes "sections_ok S nd nb" "rpc s = 0"
  defines "m \<equiv> snd (F Fn_SystemInit (F Fn_ExitRun0Mode (rreg s, rmem s)))"
  defines "t \<equiv> reset_run F S (17 + 6 * nd + 4 * nb) s"
  shows "rpc t = 22" "rsp t = rs_estack S" "rmem t = store_words (replicate nb 0) (rs_sbss S) (data_copied S nd m)"
proof -
  have "t = reset_run F S 2 (reset_run F S (4 * nb) (reset_run F S 7 (reset_run F S (6 * nd) (reset_run F S 8 s))))"
    unfolding t_def reset_run_add [symmetric] by (rule arg_cong [where f = "\<lambda>n. reset_run F S n s"]) simp
  moreover note fill_done [OF assms(1) fill_turns [OF assms(1) le_refl copy_done [OF assms(1) copy_turns [OF assms(1) le_refl
      reset_entry [OF assms(2), of S F]]]], of F F F F]
  ultimately show "rpc t = 22" "rsp t = rs_estack S" "rmem t = store_words (replicate nb 0) (rs_sbss S) (data_copied S nd m)"
    by (simp_all add: m_def)
qed

text \<open>C24: The reset handler brings the program to \<open>main\<close> with its memory set up. Whatever the functions it calls do, after
  \<open>17 + 6 * nd + 4 * nb\<close> instructions it calls the static constructors with the stack pointer at the top of
  the stack, the \<open>nd\<close> words of the data section holding their initial values, the \<open>nb\<close> words of the bss section
  zero and every other word as \<open>SystemInit\<close> left it; then it calls \<open>main\<close>.\<close>

theorem reset_handler_starts_main:
  fixes F :: reset_env
  assumes "sections_ok S nd nb" "rpc s = 0"
  defines "m \<equiv> snd (F Fn_SystemInit (F Fn_ExitRun0Mode (rreg s, rmem s)))"
  defines "t \<equiv> reset_run F S (17 + 6 * nd + 4 * nb) s"
  shows "reset_code S ! rpc t = BL Fn_libc_init_array \<and> rsp t = rs_estack S \<and>
    (\<forall>i < nd. rmem t (rs_sdata S + 4 * word_of_nat i) = m (rs_sidata S + 4 * word_of_nat i)) \<and>
    (\<forall>i < nb. rmem t (rs_sbss S + 4 * word_of_nat i) = 0) \<and>
    (\<forall>x. (x < rs_sdata S \<or> rs_edata S \<le> x) \<and> (x < rs_sbss S \<or> rs_ebss S \<le> x) \<longrightarrow> rmem t x = m x) \<and>
    (rreg (reset_run F S 2 t), rmem (reset_run F S 2 t)) = F Fn_main (F Fn_libc_init_array (rreg t, rmem t))"
proof -
  note r = reset_initialised [OF assms(1,2), of F, folded m_def t_def]
  note b = u32_bound [of "rs_edata S"] u32_bound [of "rs_ebss S"]
  have e: "unat (rs_edata S) = unat (rs_sdata S) + 4 * nd" "unat (rs_ebss S) = unat (rs_sbss S) + 4 * nb"
    using assms(1) by (simp_all add: sections_ok_def)
  have bss: "rmem t x = data_copied S nd m x" if "unat x < unat (rs_sbss S) \<or> unat (rs_ebss S) \<le> unat x" for x
    unfolding r(3) using that e b by (intro store_words_outside) auto
  have dat: "data_copied S nd m x = m x" if "unat x < unat (rs_sdata S) \<or> unat (rs_edata S) \<le> unat x" for x
    unfolding data_copied_def using that e b by (intro store_words_outside) auto
  have "rmem t (rs_sdata S + 4 * word_of_nat i) = m (rs_sidata S + 4 * word_of_nat i)" if i: "i < nd" for i
  proof -
    have "rmem t (rs_sdata S + 4 * word_of_nat i) = data_copied S nd m (rs_sdata S + 4 * word_of_nat i)"
      using sections_okD(1) [OF assms(1), of i] i assms(1) by (intro bss) (auto simp: sections_ok_def)
    also have "\<dots> = load_words m (rs_sidata S) nd ! i"
      unfolding data_copied_def using i e b by (intro store_words_nth) auto
    finally show ?thesis using i by (simp add: load_words_def)
  qed
  moreover have "rmem t (rs_sbss S + 4 * word_of_nat i) = 0" if i: "i < nb" for i
    unfolding r(3) using store_words_nth [of "replicate nb 0" i "rs_sbss S"] i e b by simp
  moreover have "reset_code S ! rpc t = BL Fn_libc_init_array" by (simp add: r(1) reset_code_def)
  moreover have "(rreg (reset_run F S 2 t), rmem (reset_run F S 2 t)) = F Fn_main (F Fn_libc_init_array (rreg t, rmem t))"
    using r(1) by (simp add: reset_steps reset_fetch split_beta)
  ultimately show ?thesis using r(2) bss dat by (simp add: word_less_nat_alt word_le_nat_alt)
qed

definition demo_reset_syms :: reset_syms where
  "demo_reset_syms = \<lparr>rs_estack = 0x20020000, rs_sdata = 0x20000000, rs_edata = 0x20000008, rs_sidata = 0x08001000,
     rs_sbss = 0x20000008, rs_ebss = 0x20000010\<rparr>"

definition demo_env :: reset_env where
  "demo_env f gm =
     (case f of
        Fn_ExitRun0Mode \<Rightarrow> (fst gm, the (ExitRun0Mode 0x5802480C (\<lambda>_. 1) True None (\<lambda>_. 0) (snd gm)))
      | Fn_SystemInit \<Rightarrow> (fst gm, SystemInit demo_cmsis (snd gm))
      | _ \<Rightarrow> gm)"

definition demo_reset :: reset_cpu where
  "demo_reset = \<lparr>rpc = 0, rreg = (\<lambda>_. 7), rsp = 0, rlr = 0, carry = True, rmem = (\<lambda>x. x)\<rparr>"

theorem reset_handler_starts_main_witness:
  "rmem (reset_run demo_env demo_reset_syms 37 demo_reset) 0x20000004 = SystemInit demo_cmsis (\<lambda>x. x) 0x08001004 \<and>
   rmem (reset_run demo_env demo_reset_syms 37 demo_reset) 0x2000000C = 0 \<and>
   rsp (reset_run demo_env demo_reset_syms 37 demo_reset) = 0x20020000"
proof -
  have ok: "sections_ok demo_reset_syms 2 2" by (simp add: sections_ok_def demo_reset_syms_def)
  have "rpc demo_reset = 0" by (simp add: demo_reset_def)
  note t = reset_handler_starts_main [OF ok this, of demo_env, simplified]
  have "SystemInit demo_cmsis (\<lambda>x. x) = snd (demo_env Fn_SystemInit (demo_env Fn_ExitRun0Mode (rreg demo_reset, rmem demo_reset)))"
    by (simp add: demo_env_def demo_reset_def ExitRun0Mode_def pwr_cr3_def)
  then show ?thesis using t by (auto simp: demo_reset_syms_def dest!: spec [of _ 1])
qed

end
