(* ===== verification/HRT_Clock.thy ===== *)
theory HRT_Clock
  imports HRT_Board "HOL-Library.Log_Nat" "HOL-Library.Monad_Syntax"
begin

text \<open>
  \<open>SystemCoreClockUpdate\<close> of \<open>vendor/stm32/system_stm32h7xx.c\<close>, which reads the clock registers back and
  computes the frequency of the core, in part in single precision. A float is the rational number it stands
  for, and every operation rounds to 24 binary digits, ties to even; with the documented fields all values of
  the function are 0 or lie between \<open>2 ^ (-13)\<close> and \<open>2 ^ 45\<close>, where neither overflow nor loss of digits to the least exponent occurs.
  What C leaves undefined, a shift by 32 or more, an index outside the table and the conversion of a number
  that does not fit, is \<open>None\<close>. The bit masks of the vendor header are a parameter.
\<close>

unbundle bit_operations_syntax

section \<open>Single precision\<close>

text \<open>The exponent of a positive number: \<open>2 ^ e \<le> x < 2 ^ (e + 1)\<close>.\<close>

definition f32_exp :: "rat \<Rightarrow> int" where
  "f32_exp x =
     (let (a, b) = quotient_of x; d = int (floorlog 2 (nat a)) - int (floorlog 2 (nat b))
      in if 2 powi d \<le> x then d else d - 1)"

definition round_even :: "rat \<Rightarrow> int" where
  "round_even x =
     (let n = \<lfloor>x\<rfloor>; d = x - of_int n
      in if d < 1 / 2 \<or> d = 1 / 2 \<and> even n then n else n + 1)"

definition f32 :: "rat \<Rightarrow> rat" where
  "f32 x = (if x = 0 then 0 else let u = 2 powi (f32_exp \<bar>x\<bar> - 23) in of_int (round_even (x / u)) * u)"

definition u2f :: "u32 \<Rightarrow> rat" where "u2f w = f32 (of_nat (unat w))"

definition fadd :: "rat \<Rightarrow> rat \<Rightarrow> rat" where "fadd x y = f32 (x + y)"

definition fmul :: "rat \<Rightarrow> rat \<Rightarrow> rat" where "fmul x y = f32 (x * y)"

definition fdiv :: "rat \<Rightarrow> rat \<Rightarrow> rat" where "fdiv x y = f32 (x / y)"

definition f2u :: "rat \<Rightarrow> u32 option" where
  "f2u x = (if - 1 < x \<and> x < 2 ^ 32 then Some (if x < 0 then 0 else of_int \<lfloor>x\<rfloor>) else None)"

definition shr :: "u32 \<Rightarrow> u32 \<Rightarrow> u32 option" where
  "shr v n = (if n < 32 then Some (drop_bit (unat n) v) else None)"

section \<open>SystemCoreClockUpdate\<close>

record rcc_defs =
  RCC_CFGR_SWS :: u32
  RCC_CFGR_SWS_HSI :: u32
  RCC_CFGR_SWS_CSI :: u32
  RCC_CFGR_SWS_HSE :: u32
  RCC_CFGR_SWS_PLL1 :: u32
  RCC_CR_HSIDIV :: u32
  RCC_PLLCKSELR_PLLSRC :: u32
  RCC_PLLCKSELR_DIVM1 :: u32
  RCC_PLLCKSELR_PLLSRC_HSI :: u32
  RCC_PLLCKSELR_PLLSRC_CSI :: u32
  RCC_PLLCKSELR_PLLSRC_HSE :: u32
  RCC_PLLCFGR_PLL1FRACEN :: u32
  RCC_PLLCFGR_PLL1FRACEN_Pos :: u32
  RCC_PLL1FRACR_FRACN1 :: u32
  RCC_PLL1DIVR_N1 :: u32
  RCC_PLL1DIVR_P1 :: u32
  RCC_D1CFGR_D1CPRE :: u32
  RCC_D1CFGR_D1CPRE_Pos :: u32
  RCC_D1CFGR_HPRE :: u32
  RCC_D1CFGR_HPRE_Pos :: u32
  hdr_HSE_VALUE :: "u32 option"
  hdr_HSI_VALUE :: "u32 option"
  hdr_CSI_VALUE :: "u32 option"
  DUAL_CORE :: bool

text \<open>The oscillator frequencies, where the headers do not define them.\<close>

definition HSE_VALUE :: "rcc_defs \<Rightarrow> u32" where
  "HSE_VALUE R = (case hdr_HSE_VALUE R of None \<Rightarrow> 8000000 | Some v \<Rightarrow> v)"

definition HSI_VALUE :: "rcc_defs \<Rightarrow> u32" where
  "HSI_VALUE R = (case hdr_HSI_VALUE R of None \<Rightarrow> 64000000 | Some v \<Rightarrow> v)"

definition CSI_VALUE :: "rcc_defs \<Rightarrow> u32" where
  "CSI_VALUE R = (case hdr_CSI_VALUE R of None \<Rightarrow> 4000000 | Some v \<Rightarrow> v)"

definition D1CorePrescTable :: "u32 list" where
  "D1CorePrescTable = [0, 0, 0, 0, 1, 2, 3, 4, 1, 2, 3, 4, 6, 7, 8, 9]"

definition presc :: "u32 \<Rightarrow> u32 option" where
  "presc i = (if unat i < 16 then Some (D1CorePrescTable ! unat i) else None)"

text \<open>The internal oscillator after its divider.\<close>

definition hsi_clock :: "cmsis \<Rightarrow> rcc_defs \<Rightarrow> bus \<Rightarrow> u32 option" where
  "hsi_clock C R m = shr (HSI_VALUE R) (drop_bit 3 (rd C RCC_CR m AND RCC_CR_HSIDIV R))"

text \<open>The oscillator that feeds the PLL; the code takes CSI for every other value of the field.\<close>

definition pll_input :: "cmsis \<Rightarrow> rcc_defs \<Rightarrow> bus \<Rightarrow> u32 option" where
  "pll_input C R m =
     (let pllsource = rd C RCC_PLLCKSELR m AND RCC_PLLCKSELR_PLLSRC R
      in if pllsource = RCC_PLLCKSELR_PLLSRC_HSI R then hsi_clock C R m
         else if pllsource = RCC_PLLCKSELR_PLLSRC_CSI R then Some (CSI_VALUE R)
         else if pllsource = RCC_PLLCKSELR_PLLSRC_HSE R then Some (HSE_VALUE R)
         else Some (CSI_VALUE R))"

definition pll_clock :: "cmsis \<Rightarrow> rcc_defs \<Rightarrow> bus \<Rightarrow> u32 option" where
  "pll_clock C R m = do {
     let pllm = drop_bit 4 (rd C RCC_PLLCKSELR m AND RCC_PLLCKSELR_DIVM1 R);
     pllfracen \<leftarrow> shr (rd C RCC_PLLCFGR m AND RCC_PLLCFGR_PLL1FRACEN R) (RCC_PLLCFGR_PLL1FRACEN_Pos R);
     let fracn1 = u2f (pllfracen * drop_bit 3 (rd C RCC_PLL1FRACR m AND RCC_PLL1FRACR_FRACN1 R));
     if pllm \<noteq> 0 then do {
       src \<leftarrow> pll_input C R m;
       let pllvco = fmul (fdiv (u2f src) (u2f pllm))
         (fadd (fadd (u2f (rd C RCC_PLL1DIVR m AND RCC_PLL1DIVR_N1 R)) (fdiv fracn1 (u2f 0x2000))) (u2f 1));
       let pllp = drop_bit 9 (rd C RCC_PLL1DIVR m AND RCC_PLL1DIVR_P1 R) + 1;
       f2u (fdiv pllvco (u2f pllp))
     } else Some 0
   }"

definition common_system_clock :: "cmsis \<Rightarrow> rcc_defs \<Rightarrow> bus \<Rightarrow> u32 option" where
  "common_system_clock C R m =
     (let sws = rd C RCC_CFGR m AND RCC_CFGR_SWS R
      in if sws = RCC_CFGR_SWS_HSI R then hsi_clock C R m
         else if sws = RCC_CFGR_SWS_CSI R then Some (CSI_VALUE R)
         else if sws = RCC_CFGR_SWS_HSE R then Some (HSE_VALUE R)
         else if sws = RCC_CFGR_SWS_PLL1 R then pll_clock C R m
         else Some (CSI_VALUE R))"

text \<open>The new values of \<open>SystemCoreClock\<close> and \<open>SystemD2Clock\<close>.\<close>

definition SystemCoreClockUpdate :: "cmsis \<Rightarrow> rcc_defs \<Rightarrow> bus \<Rightarrow> (u32 \<times> u32) option" where
  "SystemCoreClockUpdate C R m = do {
     common \<leftarrow> common_system_clock C R m;
     i \<leftarrow> shr (rd C RCC_D1CFGR m AND RCC_D1CFGR_D1CPRE R) (RCC_D1CFGR_D1CPRE_Pos R);
     tmp \<leftarrow> presc i;
     common \<leftarrow> shr common tmp;
     j \<leftarrow> shr (rd C RCC_D1CFGR m AND RCC_D1CFGR_HPRE R) (RCC_D1CFGR_HPRE_Pos R);
     tmp2 \<leftarrow> presc j;
     d2 \<leftarrow> shr common (tmp2 AND 0x1F);
     Some (if DUAL_CORE R \<and> \<not> core_cm7 C then d2 else common, d2)
   }"

section \<open>Rounding\<close>

lemma f32_exp_bounds:
  assumes "0 < x"
  shows "2 powi f32_exp x \<le> x" "x < 2 powi (f32_exp x + 1)"
proof -
  obtain a b where q: "quotient_of x = (a, b)" by fastforce
  then have b: "0 < b" by (rule quotient_of_denom_pos)
  have x: "x = of_int a / of_int b" using quotient_of_div [OF q] .
  then have a: "0 < a" using assms b by (simp add: zero_less_divide_iff)
  define i j where "i = floorlog 2 (nat a)" and "j = floorlog 2 (nat b)"
  have log: "2 ^ floorlog 2 n \<le> 2 * n \<and> n < 2 ^ floorlog 2 n" if "0 < n" for n :: nat
    using floorlog_bounds [of n 2] that by (cases "floorlog 2 n") auto
  have up: "(of_int z :: rat) < 2 ^ floorlog 2 (nat z) \<and> 2 ^ floorlog 2 (nat z) \<le> 2 * (of_int z :: rat)" if "0 < z" for z
  proof -
    have "int (nat z) < int (2 ^ floorlog 2 (nat z))" "int (2 ^ floorlog 2 (nat z)) \<le> int (2 * nat z)"
      using log [of "nat z"] that by (simp_all only: of_nat_less_iff of_nat_le_iff zero_less_nat_eq)
    then have "z < 2 ^ floorlog 2 (nat z)" "2 ^ floorlog 2 (nat z) \<le> 2 * z" using that by simp_all
    then have "(of_int z :: rat) < of_int (2 ^ floorlog 2 (nat z))" "(of_int (2 ^ floorlog 2 (nat z)) :: rat) \<le> of_int (2 * z)"
      by (simp_all only: of_int_less_iff of_int_le_iff)
    then show ?thesis by simp
  qed
  have "2 ^ i / 2 / 2 ^ j \<le> x" unfolding x i_def j_def
    using up [OF a] up [OF b] b a by (intro frac_le) auto
  moreover have "x < 2 ^ i / (2 ^ j / 2)" unfolding x i_def j_def
    using up [OF a] up [OF b] b a by (intro frac_less) auto
  ultimately have "2 powi (int i - int j - 1) \<le> x" "x < 2 powi (int i - int j + 1)"
    by (simp_all add: power_int_diff power_int_add field_simps)
  then show "2 powi f32_exp x \<le> x" "x < 2 powi (f32_exp x + 1)"
    by (auto simp: f32_exp_def q i_def j_def not_le Let_def)
qed

lemma round_even_error: "\<bar>of_int (round_even x) - x\<bar> \<le> 1 / 2"
proof -
  have "of_int \<lfloor>x\<rfloor> \<le> x" "x < of_int \<lfloor>x\<rfloor> + 1" by linarith+
  then show ?thesis by (auto simp: round_even_def Let_def)
qed

lemma round_even_of_int: "round_even (of_int n) = n" by (simp add: round_even_def)

lemma f32_error:
  assumes "0 \<le> x"
  shows "\<bar>f32 x - x\<bar> \<le> x / 2 ^ 24"
proof (cases "x = 0")
  case False
  then have x: "0 < x" using assms by simp
  define u :: rat where "u = 2 powi (f32_exp x - 23)"
  have u: "0 < u" "u / 2 \<le> x / 2 ^ 24"
    using f32_exp_bounds(1) [OF x] by (simp_all add: u_def power_int_diff)
  have "f32 x - x = (of_int (round_even (x / u)) - x / u) * u" using x u(1) by (simp add: f32_def u_def Let_def left_diff_distrib)
  then have "\<bar>f32 x - x\<bar> \<le> 1 / 2 * u"
    using mult_right_mono [OF round_even_error [of "x / u"], of u] u(1) by (simp add: abs_mult)
  then show ?thesis using u(2) by simp
qed (simp add: f32_def)

lemma f32_exact:
  fixes n :: nat
  assumes "n < 2 ^ 24"
  shows "f32 (of_nat n * 2 powi e) = of_nat n * 2 powi e"
proof (cases "n = 0")
  case False
  let ?x = "of_nat n * 2 powi e :: rat"
  have x: "0 < ?x" using False by simp
  have "(of_nat n :: rat) < of_nat (2 ^ 24)" using assms by (simp only: of_nat_less_iff)
  then have "?x < 2 ^ 24 * 2 powi e" by simp
  then have "(2 :: rat) powi f32_exp ?x < 2 powi (24 + e)"
    using le_less_trans [OF f32_exp_bounds(1) [OF x]] by (simp add: power_int_add)
  then have le: "f32_exp ?x \<le> 23 + e" using power_int_increasing [of "24 + e" "f32_exp ?x" "2 :: rat"] by linarith
  define u :: rat where "u = 2 powi (f32_exp ?x - 23)"
  have "?x / u = of_nat n * 2 powi (e + 23 - f32_exp ?x)" by (simp add: u_def power_int_diff power_int_add)
  also have "\<dots> = of_int (int n * 2 ^ nat (e + 23 - f32_exp ?x))" using le by (simp add: power_int_def)
  finally have "of_int (round_even (?x / u)) = ?x / u" by (simp only: round_even_of_int)
  then show ?thesis using x by (simp add: f32_def u_def)
qed (simp add: f32_def)

lemma u2f_exact: "unat w < 2 ^ 24 \<Longrightarrow> u2f w = of_nat (unat w)"
  using f32_exact [of "unat w" 0] by (simp add: u2f_def)

text \<open>\<open>y\<close> is \<open>x\<close> after \<open>k\<close> roundings, with exact factors in between.\<close>

definition rounded :: "nat \<Rightarrow> rat \<Rightarrow> rat \<Rightarrow> bool" where
  "rounded k x y \<longleftrightarrow> 0 \<le> x \<and> x * (1 - 1 / 2 ^ 24) ^ k \<le> y \<and> y \<le> x * (1 + 1 / 2 ^ 24) ^ k"

lemma rounded_0: "0 \<le> x \<Longrightarrow> rounded 0 x x" by (simp add: rounded_def)

lemma rounded_f32:
  assumes "rounded k x y"
  shows "rounded (Suc k) x (f32 y)"
proof -
  define l h :: rat where "l = 1 - 1 / 2 ^ 24" and "h = 1 + 1 / 2 ^ 24"
  have lh: "0 \<le> l" "0 \<le> h" by (simp_all add: l_def h_def)
  have x: "0 \<le> x" "x * l ^ k \<le> y" "y \<le> x * h ^ k" using assms by (simp_all add: rounded_def l_def h_def)
  then have y: "0 \<le> y" using mult_nonneg_nonneg [OF x(1) zero_le_power [OF lh(1), of k]] by linarith
  have f: "y * l \<le> f32 y" "f32 y \<le> y * h"
    using f32_error [OF y] unfolding abs_le_iff l_def h_def right_diff_distrib distrib_left by (simp_all del: power_numeral)
  have "x * l ^ Suc k \<le> y * l" using mult_right_mono [OF x(2) lh(1)] by (simp add: ac_simps)
  moreover have "y * h \<le> x * h ^ Suc k" using mult_right_mono [OF x(3) lh(2)] by (simp add: ac_simps)
  ultimately have "x * l ^ Suc k \<le> f32 y" "f32 y \<le> x * h ^ Suc k" using f by linarith+
  then show ?thesis using x(1) by (simp only: rounded_def l_def h_def simp_thms)
qed

lemma rounded_mult:
  assumes "rounded k x y" "0 \<le> c"
  shows "rounded k (x * c) (y * c)"
  using assms mult_right_mono [of "x * (1 - 1 / 2 ^ 24) ^ k" y c] mult_right_mono [of y "x * (1 + 1 / 2 ^ 24) ^ k" c]
  by (simp add: rounded_def mult.assoc mult.commute mult.left_commute)

lemma rounded_divide: "rounded k x y \<Longrightarrow> 0 \<le> c \<Longrightarrow> rounded k (x / c) (y / c)"
  using rounded_mult [of k x y "inverse c"] by (simp add: divide_inverse)

lemma rounded_4:
  assumes "rounded 4 x y"
  shows "\<bar>y - x\<bar> \<le> x * (5 / 2 ^ 24)" "0 \<le> y"
proof -
  have x: "0 \<le> x" "x * (1 - 1 / 2 ^ 24) ^ 4 \<le> y" "y \<le> x * (1 + 1 / 2 ^ 24) ^ 4" using assms by (simp_all add: rounded_def)
  have "(1 :: rat) - 5 / 2 ^ 24 \<le> (1 - 1 / 2 ^ 24) ^ 4" "(1 + 1 / 2 ^ 24) ^ 4 \<le> (1 :: rat) + 5 / 2 ^ 24"
    by (simp_all add: power4_eq_xxxx)
  from mult_left_mono [OF this(1) x(1)] mult_left_mono [OF this(2) x(1)] x(2,3)
  have b: "x * (1 - 5 / 2 ^ 24) \<le> y" "y \<le> x * (1 + 5 / 2 ^ 24)" by (meson order_trans)+
  then show "\<bar>y - x\<bar> \<le> x * (5 / 2 ^ 24)" unfolding abs_le_iff right_diff_distrib distrib_left by linarith
  show "0 \<le> y" using b(1) x(1) by simp
qed

section \<open>Register fields\<close>

text \<open>The field of \<open>n\<close> bits from bit \<open>lo\<close> on.\<close>

definition field :: "nat \<Rightarrow> nat \<Rightarrow> u32 \<Rightarrow> nat" where
  "field lo n w = unat w div 2 ^ lo mod 2 ^ n"

lemma field_less: "field lo n w < 2 ^ n" by (simp add: field_def)

lemma unat_field: "unat (drop_bit lo (w AND push_bit lo (mask n))) = field lo n (w :: u32)"
proof -
  have "drop_bit lo (w AND push_bit lo (mask n)) = take_bit n (drop_bit lo w)"
    by (rule bit_eqI) (auto simp: bit_simps dest: bit_imp_le_length)
  then have "unat (drop_bit lo (w AND push_bit lo (mask n))) = take_bit n (drop_bit lo (unat w))"
    by (simp only: unsigned_take_bit_eq unat_drop_bit_eq)
  then show ?thesis by (simp only: field_def take_bit_eq_mod drop_bit_eq_div)
qed

lemma unat_masked:
  assumes "lo + n \<le> 32"
  shows "unat (w AND push_bit lo (mask n)) = 2 ^ lo * field lo n (w :: u32)"
proof -
  define v where "v = drop_bit lo (w AND push_bit lo (mask n))"
  have "w AND push_bit lo (mask n) = push_bit lo v" by (rule bit_eqI) (auto simp: v_def bit_simps)
  moreover have "unat v = field lo n w" by (simp only: v_def unat_field)
  ultimately have "unat (w AND push_bit lo (mask n)) = take_bit 32 (push_bit lo (field lo n w))"
    by (simp only: unsigned_push_bit_eq) simp
  moreover have "2 ^ lo * field lo n w < 2 ^ lo * 2 ^ n" by (simp add: field_less)
  then have "2 ^ lo * field lo n w < 2 ^ 32"
    using power_increasing [OF assms, of "2 :: nat"] by (simp only: power_add) linarith
  ultimately show ?thesis by (simp add: take_bit_eq_mod push_bit_eq_mult mult.commute)
qed

text \<open>The fields as the vendor documents them.\<close>

definition rcc_documented :: "rcc_defs \<Rightarrow> bool" where
  "rcc_documented R \<longleftrightarrow>
     RCC_CFGR_SWS R = push_bit 3 (mask 3) \<and> RCC_CFGR_SWS_HSI R = 0 \<and> RCC_CFGR_SWS_CSI R = 8 \<and>
     RCC_CFGR_SWS_HSE R = 16 \<and> RCC_CFGR_SWS_PLL1 R = 24 \<and> RCC_CR_HSIDIV R = push_bit 3 (mask 2) \<and>
     RCC_PLLCKSELR_PLLSRC R = push_bit 0 (mask 2) \<and> RCC_PLLCKSELR_PLLSRC_HSI R = 0 \<and>
     RCC_PLLCKSELR_PLLSRC_CSI R = 1 \<and> RCC_PLLCKSELR_PLLSRC_HSE R = 2 \<and>
     RCC_PLLCKSELR_DIVM1 R = push_bit 4 (mask 6) \<and> RCC_PLLCFGR_PLL1FRACEN R = push_bit 0 (mask 1) \<and>
     RCC_PLLCFGR_PLL1FRACEN_Pos R = 0 \<and> RCC_PLL1FRACR_FRACN1 R = push_bit 3 (mask 13) \<and>
     RCC_PLL1DIVR_N1 R = push_bit 0 (mask 9) \<and> RCC_PLL1DIVR_P1 R = push_bit 9 (mask 7) \<and>
     RCC_D1CFGR_D1CPRE R = push_bit 8 (mask 4) \<and> RCC_D1CFGR_D1CPRE_Pos R = 8 \<and>
     RCC_D1CFGR_HPRE R = push_bit 0 (mask 4) \<and> RCC_D1CFGR_HPRE_Pos R = 0"

text \<open>The frequency as a rational number, from the fields of the registers.\<close>

definition osc_freq :: "cmsis \<Rightarrow> rcc_defs \<Rightarrow> bus \<Rightarrow> nat \<Rightarrow> nat" where
  "osc_freq C R m src =
     (if src = 0 then unat (HSI_VALUE R) div 2 ^ field 3 2 (rd C RCC_CR m)
      else if src = 2 then unat (HSE_VALUE R) else unat (CSI_VALUE R))"

definition pll_freq :: "cmsis \<Rightarrow> rcc_defs \<Rightarrow> bus \<Rightarrow> rat" where
  "pll_freq C R m =
     (let frac = field 0 1 (rd C RCC_PLLCFGR m) * field 3 13 (rd C RCC_PLL1FRACR m)
      in if field 4 6 (rd C RCC_PLLCKSELR m) = 0 then 0
         else of_nat (osc_freq C R m (field 0 2 (rd C RCC_PLLCKSELR m))) / of_nat (field 4 6 (rd C RCC_PLLCKSELR m)) *
         (of_nat (field 0 9 (rd C RCC_PLL1DIVR m)) + of_nat frac / 8192 + 1) /
         of_nat (field 9 7 (rd C RCC_PLL1DIVR m) + 1))"

definition clock_freq :: "cmsis \<Rightarrow> rcc_defs \<Rightarrow> bus \<Rightarrow> rat" where
  "clock_freq C R m =
     (let sws = field 3 3 (rd C RCC_CFGR m)
      in if sws = 3 then pll_freq C R m else of_nat (osc_freq C R m sws))"

section \<open>The computed frequency\<close>

lemma masked_eq_iff:
  "lo + n \<le> 32 \<Longrightarrow> (w :: u32) AND push_bit lo (mask n) = x \<longleftrightarrow> 2 ^ lo * field lo n w = unat x"
  by (simp only: word_unat_eq_iff unat_masked)

lemma shr_Some: "unat n < 32 \<Longrightarrow> shr v n = Some (drop_bit (unat n) v)"
  by (simp add: shr_def word_less_nat_alt)

lemma unat_drop_bit_div: "unat (drop_bit n v) = unat v div 2 ^ n"
  by (simp only: unat_drop_bit_eq) (simp only: drop_bit_eq_div)

lemma eighths_exact: "k < 2 ^ 24 \<Longrightarrow> f32 (of_nat k / 8192) = of_nat k / 8192"
proof -
  assume k: "k < 2 ^ 24"
  have "(2 :: rat) powi (- 13) = 1 / 8192" by (simp add: power_int_minus)
  from f32_exact [OF k, of "- 13", unfolded this] show "f32 (of_nat k / 8192) = of_nat k / 8192" by simp
qed

text \<open>The multiplier of the PLL has at most 23 binary digits: it is computed without error.\<close>

lemma pll_multiplier:
  assumes "unat n < 512" "unat f < 8192"
  shows "fadd (fadd (u2f n) (fdiv (u2f f) (u2f 0x2000))) (u2f 1) = of_nat (unat n) + of_nat (unat f) / 8192 + 1"
proof -
  have e: "u2f n = of_nat (unat n)" "u2f f = of_nat (unat f)" "u2f 0x2000 = 8192" "u2f 1 = 1"
    using assms by (simp_all add: u2f_exact)
  have 1: "fdiv (u2f f) (u2f 0x2000) = of_nat (unat f) / 8192"
    using eighths_exact [of "unat f"] assms by (simp add: fdiv_def e)
  have 2: "fadd (u2f n) (of_nat (unat f) / 8192) = of_nat (unat n * 8192 + unat f) / 8192"
    using eighths_exact [of "unat n * 8192 + unat f"] assms by (simp add: fadd_def e add_divide_distrib)
  have "fadd (of_nat (unat n * 8192 + unat f) / 8192) 1 = of_nat ((unat n + 1) * 8192 + unat f) / 8192"
    using eighths_exact [of "(unat n + 1) * 8192 + unat f"] assms by (simp add: fadd_def add_divide_distrib ac_simps)
  then show ?thesis unfolding 1 2 e(4) by (simp add: add_divide_distrib)
qed

lemma hsi_clock_freq:
  assumes "rcc_documented R"
  obtains v where "hsi_clock C R m = Some v" "unat v = osc_freq C R m 0"
proof -
  define d where "d = drop_bit 3 (rd C RCC_CR m AND RCC_CR_HSIDIV R)"
  have "RCC_CR_HSIDIV R = push_bit 3 (mask 2)" using assms by (simp only: rcc_documented_def)
  then have d: "unat d = field 3 2 (rd C RCC_CR m)" by (simp only: d_def unat_field)
  then have "unat d < 32" using field_less [of 3 2 "rd C RCC_CR m"] by simp
  then have "hsi_clock C R m = Some (drop_bit (unat d) (HSI_VALUE R))" unfolding hsi_clock_def d_def [symmetric] by (rule shr_Some)
  then show ?thesis by (rule that) (simp only: unat_drop_bit_div d osc_freq_def simp_thms if_True)
qed

lemma pll_input_freq:
  assumes "rcc_documented R"
  obtains v where "pll_input C R m = Some v" "unat v = osc_freq C R m (field 0 2 (rd C RCC_PLLCKSELR m))"
proof -
  have f: "rd C RCC_PLLCKSELR m AND RCC_PLLCKSELR_PLLSRC R = x \<longleftrightarrow> field 0 2 (rd C RCC_PLLCKSELR m) = unat x" for x
    using assms masked_eq_iff [of 0 2 "rd C RCC_PLLCKSELR m" x] by (simp add: rcc_documented_def)
  have c: "RCC_PLLCKSELR_PLLSRC_HSI R = 0" "RCC_PLLCKSELR_PLLSRC_CSI R = 1" "RCC_PLLCKSELR_PLLSRC_HSE R = 2"
    using assms by (simp_all add: rcc_documented_def)
  have eq: "pll_input C R m = (let p = field 0 2 (rd C RCC_PLLCKSELR m) in
      if p = 0 then hsi_clock C R m else if p = 1 then Some (CSI_VALUE R) else if p = 2 then Some (HSE_VALUE R) else Some (CSI_VALUE R))"
    unfolding pll_input_def Let_def f c by simp
  obtain h where h: "hsi_clock C R m = Some h" "unat h = osc_freq C R m 0" by (rule hsi_clock_freq [OF assms])
  let ?p = "field 0 2 (rd C RCC_PLLCKSELR m)"
  show ?thesis
    by (rule that [of "if ?p = 0 then h else if ?p = 2 then HSE_VALUE R else CSI_VALUE R"])
      (use h in \<open>simp_all add: eq osc_freq_def Let_def\<close>)
qed

lemma f2u_floor:
  assumes "0 \<le> x" "x < 2 ^ 32"
  obtains c where "f2u x = Some c" "\<bar>of_nat (unat c) - x\<bar> \<le> 1"
proof -
  have b: "0 \<le> \<lfloor>x\<rfloor>" "\<lfloor>x\<rfloor> < 2 ^ 32" using assms by (simp_all add: floor_less_iff)
  then have u: "unat (of_int \<lfloor>x\<rfloor> :: u32) = nat \<lfloor>x\<rfloor>" by (simp add: unsigned_of_int take_bit_eq_mod)
  have "of_int \<lfloor>x\<rfloor> \<le> x" "x < of_int \<lfloor>x\<rfloor> + 1" by linarith+
  then have "\<bar>of_nat (unat (of_int \<lfloor>x\<rfloor> :: u32)) - x\<bar> \<le> 1" using b(1) unfolding u by (simp add: abs_le_iff)
  moreover have "f2u x = Some (of_int \<lfloor>x\<rfloor>)" using assms by (simp add: f2u_def)
  ultimately show ?thesis using that by blast
qed

text \<open>The three operations that round, after the conversion of the source frequency.\<close>

lemma pll_float_error:
  fixes src pllm pllp :: u32
  assumes "unat pllm < 2 ^ 24" "unat pllp < 2 ^ 24" "0 \<le> k"
  defines "x \<equiv> of_nat (unat src) / of_nat (unat pllm) * k / of_nat (unat pllp)"
  assumes "x \<le> 4000000000"
  obtains c where "f2u (fdiv (fmul (fdiv (u2f src) (u2f pllm)) k) (u2f pllp)) = Some c"
    "\<bar>of_nat (unat c) - x\<bar> \<le> x * (5 / 2 ^ 24) + 1"
proof -
  let ?y = "fdiv (fmul (fdiv (u2f src) (u2f pllm)) k) (u2f pllp)"
  define s m p :: rat where "s = of_nat (unat src)" and "m = of_nat (unat pllm)" and "p = of_nat (unat pllp)"
  have n: "0 \<le> s" "0 \<le> m" "0 \<le> p" unfolding s_def m_def p_def by (rule of_nat_0_le_iff)+
  have e: "u2f pllm = m" "u2f pllp = p" unfolding m_def p_def by (rule u2f_exact, rule assms)+
  have "rounded (Suc 0) s (u2f src)" unfolding u2f_def s_def [symmetric] by (rule rounded_f32 [OF rounded_0 [OF n(1)]])
  from rounded_f32 [OF rounded_divide [OF this n(2)]]
  have "rounded (Suc (Suc 0)) (s / m) (fdiv (u2f src) m)" unfolding fdiv_def .
  from rounded_f32 [OF rounded_mult [OF this assms(3)]]
  have "rounded (Suc (Suc (Suc 0))) (s / m * k) (fmul (fdiv (u2f src) m) k)" unfolding fmul_def .
  from rounded_f32 [OF rounded_divide [OF this n(3)]]
  have "rounded 4 x ?y" unfolding e x_def s_def [symmetric] m_def [symmetric] p_def [symmetric]
    by (simp add: fdiv_def [of _ p] numeral_eq_Suc)
  note r = rounded_4 [OF this]
  have "?y - x \<le> x * (5 / 2 ^ 24)" using r(1) by linarith
  moreover have "x * (5 / 2 ^ 24) \<le> 4000000000 * (5 / 2 ^ 24)" using assms(5) by (intro mult_right_mono) simp_all
  moreover have "4000000000 + 4000000000 * (5 / 2 ^ 24) < (2 ^ 32 :: rat)" by simp
  ultimately have "?y < 2 ^ 32" using assms(5) by linarith
  then obtain c where c: "f2u ?y = Some c" "\<bar>of_nat (unat c) - ?y\<bar> \<le> 1" using f2u_floor [OF r(2)] by blast
  then have "\<bar>of_nat (unat c) - x\<bar> \<le> x * (5 / 2 ^ 24) + 1" using r(1) by linarith
  with c(1) show ?thesis by (rule that)
qed

lemma pll_clock_freq:
  assumes "rcc_documented R" "pll_freq C R m \<le> 4000000000"
  obtains c where "pll_clock C R m = Some c"
    "\<bar>of_nat (unat c) - pll_freq C R m\<bar> \<le> pll_freq C R m * (5 / 2 ^ 24) + 1"
proof -
  define pllm en fr n pllp where
    "pllm = drop_bit 4 (rd C RCC_PLLCKSELR m AND push_bit 4 (mask 6))" and
    "en = drop_bit 0 (rd C RCC_PLLCFGR m AND push_bit 0 (mask 1))" and
    "fr = drop_bit 3 (rd C RCC_PLL1FRACR m AND push_bit 3 (mask 13))" and
    "n = rd C RCC_PLL1DIVR m AND push_bit 0 (mask 9)" and
    "pllp = drop_bit 9 (rd C RCC_PLL1DIVR m AND push_bit 9 (mask 7)) + 1"
  note defs = pllm_def en_def fr_def n_def pllp_def
  obtain src where src: "pll_input C R m = Some src" "unat src = osc_freq C R m (field 0 2 (rd C RCC_PLLCKSELR m))"
    by (rule pll_input_freq [OF assms(1)])
  have f: "unat pllm = field 4 6 (rd C RCC_PLLCKSELR m)" "unat en = field 0 1 (rd C RCC_PLLCFGR m)"
    "unat fr = field 3 13 (rd C RCC_PLL1FRACR m)" "unat n = field 0 9 (rd C RCC_PLL1DIVR m)"
    unfolding pllm_def en_def fr_def n_def by (simp_all only: unat_field) (simp only: unat_masked power_0 mult_1)
  have b: "unat pllm < 64" "unat en < 2" "unat fr < 8192" "unat n < 512" "field 9 7 (rd C RCC_PLL1DIVR m) < 128"
    unfolding f by (rule less_le_trans [OF field_less], simp)+
  have ef: "unat en * unat fr < 8192" using b(2,3) by (cases "unat en") auto
  then have "unat (en * fr) = unat en * unat fr" by (simp add: unat_word_ariths)
  then have k: "fadd (fadd (u2f n) (fdiv (u2f (en * fr)) (u2f 0x2000))) (u2f 1) =
      of_nat (unat n) + of_nat (unat en * unat fr) / 8192 + 1" (is "_ = ?k") using pll_multiplier [OF b(4), of "en * fr"] ef by (simp only:)
  have "unat (pllp - 1) = field 9 7 (rd C RCC_PLL1DIVR m)" unfolding pllp_def add_diff_cancel_right' by (rule unat_field)
  then have pp: "unat pllp = field 9 7 (rd C RCC_PLL1DIVR m) + 1" using b(5) unat_plus_small [of "pllp - 1" 1] by simp
  have eq: "pll_clock C R m = (if pllm \<noteq> 0 then f2u (fdiv (fmul (fdiv (u2f src) (u2f pllm)) ?k) (u2f pllp)) else Some 0)"
    using assms(1) src(1) k unfolding pll_clock_def rcc_documented_def defs by (simp add: shr_Some)
  have x: "pll_freq C R m = (if unat pllm = 0 then 0 else of_nat (unat src) / of_nat (unat pllm) * ?k / of_nat (unat pllp))"
    unfolding pll_freq_def Let_def f src(2) pp ..
  show ?thesis
  proof (cases "pllm = 0")
    case True
    then show ?thesis using that [of 0] by (simp add: eq x)
  next
    case False
    then have z: "unat pllm \<noteq> 0" by (simp add: unat_eq_zero)
    have k0: "0 \<le> ?k" by (intro add_nonneg_nonneg divide_nonneg_nonneg of_nat_0_le_iff) simp_all
    have "unat pllm < 2 ^ 24" "unat pllp < 2 ^ 24" using b(1,5) pp by simp_all
    from pll_float_error [OF this k0, of src] assms(2) z False show ?thesis using that unfolding eq x by auto
  qed
qed

lemma common_clock_freq:
  assumes "rcc_documented R" "field 3 3 (rd C RCC_CFGR m) = 3 \<longrightarrow> pll_freq C R m \<le> 4000000000"
  obtains c where "common_system_clock C R m = Some c"
    "\<bar>of_nat (unat c) - clock_freq C R m\<bar> \<le> clock_freq C R m * (5 / 2 ^ 24) + 1"
    "field 3 3 (rd C RCC_CFGR m) \<noteq> 3 \<longrightarrow> of_nat (unat c) = clock_freq C R m"
proof -
  let ?s = "field 3 3 (rd C RCC_CFGR m)"
  have f: "rd C RCC_CFGR m AND RCC_CFGR_SWS R = x \<longleftrightarrow> 8 * ?s = unat x" for x
    using assms(1) masked_eq_iff [of 3 3 "rd C RCC_CFGR m" x] by (simp add: rcc_documented_def)
  have v: "RCC_CFGR_SWS_HSI R = 0" "RCC_CFGR_SWS_CSI R = 8" "RCC_CFGR_SWS_HSE R = 16" "RCC_CFGR_SWS_PLL1 R = 24"
    using assms(1) by (simp_all add: rcc_documented_def)
  have eq: "common_system_clock C R m = (if ?s = 0 then hsi_clock C R m else if ?s = 3 then pll_clock C R m
      else Some (if ?s = 2 then HSE_VALUE R else CSI_VALUE R))"
    unfolding common_system_clock_def Let_def f v by auto
  show ?thesis
  proof (cases "?s = 3")
    case True
    then show ?thesis using pll_clock_freq [OF assms(1), of C m] assms(2) that by (auto simp: eq clock_freq_def)
  next
    case False
    obtain h where h: "hsi_clock C R m = Some h" "unat h = osc_freq C R m 0" by (rule hsi_clock_freq [OF assms(1)])
    let ?c = "if ?s = 0 then h else if ?s = 2 then HSE_VALUE R else CSI_VALUE R"
    have c: "unat ?c = osc_freq C R m ?s" using h(2) by (simp add: osc_freq_def)
    have x: "clock_freq C R m = of_nat (osc_freq C R m ?s)" using False by (simp add: clock_freq_def)
    show ?thesis by (rule that [of ?c]) (use False h(1) in \<open>simp_all only: eq c x\<close>, simp_all)
  qed
qed

lemma presc_field:
  assumes "i = field lo 4 w" "unat j = i"
  shows "presc j = Some (D1CorePrescTable ! i)" "unat (D1CorePrescTable ! i) \<le> 9"
proof -
  have i: "i < 16" using field_less [of lo 4 w] assms(1) by simp
  then show "presc j = Some (D1CorePrescTable ! i)" using assms(2) by (simp add: presc_def)
  have "\<forall>i < 16. unat (D1CorePrescTable ! i) \<le> 9" by code_simp
  then show "unat (D1CorePrescTable ! i) \<le> 9" using i by blast
qed

lemma update_prescales:
  assumes "rcc_documented R" "common_system_clock C R m = Some c"
  defines "d1 \<equiv> drop_bit (unat (D1CorePrescTable ! field 8 4 (rd C RCC_D1CFGR m))) c"
  defines "d2 \<equiv> drop_bit (unat (D1CorePrescTable ! field 0 4 (rd C RCC_D1CFGR m))) d1"
  shows "SystemCoreClockUpdate C R m = Some (if DUAL_CORE R \<and> \<not> core_cm7 C then d2 else d1, d2)"
proof -
  define i j where "i = drop_bit 8 (rd C RCC_D1CFGR m AND push_bit 8 (mask 4))"
    and "j = drop_bit 0 (rd C RCC_D1CFGR m AND push_bit 0 (mask 4))"
  have u: "unat i = field 8 4 (rd C RCC_D1CFGR m)" "unat j = field 0 4 (rd C RCC_D1CFGR m)"
    unfolding i_def j_def by (rule unat_field)+
  note p = presc_field [OF refl u(1)] presc_field [OF refl u(2)]
  have s: "shr (rd C RCC_D1CFGR m AND RCC_D1CFGR_D1CPRE R) (RCC_D1CFGR_D1CPRE_Pos R) = Some i"
    "shr (rd C RCC_D1CFGR m AND RCC_D1CFGR_HPRE R) (RCC_D1CFGR_HPRE_Pos R) = Some j"
    using assms(1) by (simp_all add: rcc_documented_def shr_Some i_def j_def)
  have and31: "w AND 0x1F = w" if "unat w \<le> 9" for w :: u32
  proof -
    have "w AND 0x1F = take_bit 5 w" by (simp add: take_bit_eq_mask mask_eq_exp_minus_1)
    then have "unat (w AND 0x1F) = take_bit 5 (unat w)" by (simp only: unsigned_take_bit_eq)
    then show ?thesis using that by (simp add: word_unat_eq_iff take_bit_eq_mod)
  qed
  show ?thesis using p unfolding SystemCoreClockUpdate_def assms(2) s d1_def d2_def
    by (simp add: shr_Some and31)
qed


definition demo_rcc :: rcc_defs where
  "demo_rcc = \<lparr>RCC_CFGR_SWS = 0x38, RCC_CFGR_SWS_HSI = 0, RCC_CFGR_SWS_CSI = 8, RCC_CFGR_SWS_HSE = 16, RCC_CFGR_SWS_PLL1 = 24,
     RCC_CR_HSIDIV = 0x18, RCC_PLLCKSELR_PLLSRC = 3, RCC_PLLCKSELR_DIVM1 = 0x3F0, RCC_PLLCKSELR_PLLSRC_HSI = 0,
     RCC_PLLCKSELR_PLLSRC_CSI = 1, RCC_PLLCKSELR_PLLSRC_HSE = 2, RCC_PLLCFGR_PLL1FRACEN = 1,
     RCC_PLLCFGR_PLL1FRACEN_Pos = 0, RCC_PLL1FRACR_FRACN1 = 0xFFF8, RCC_PLL1DIVR_N1 = 0x1FF, RCC_PLL1DIVR_P1 = 0xFE00,
     RCC_D1CFGR_D1CPRE = 0xF00, RCC_D1CFGR_D1CPRE_Pos = 8, RCC_D1CFGR_HPRE = 0xF, RCC_D1CFGR_HPRE_Pos = 0,
     hdr_HSE_VALUE = Some 25000000, hdr_HSI_VALUE = None, hdr_CSI_VALUE = None, DUAL_CORE = True\<rparr>"

lemma demo_rcc_documented: "rcc_documented demo_rcc"
  by (simp add: rcc_documented_def demo_rcc_def mask_eq_exp_minus_1)

definition clock_cmsis :: cmsis where
  "clock_cmsis = demo_cmsis\<lparr>adr := (\<lambda>r. case r of RCC_CR \<Rightarrow> 0x58024400 | RCC_CFGR \<Rightarrow> 0x58024410 | RCC_D1CFGR \<Rightarrow> 0x58024418
     | RCC_PLLCKSELR \<Rightarrow> 0x58024428 | RCC_PLLCFGR \<Rightarrow> 0x5802442C | RCC_PLL1DIVR \<Rightarrow> 0x58024430
     | RCC_PLL1FRACR \<Rightarrow> 0x58024434 | _ \<Rightarrow> 0xE000ED00)\<rparr>"



text \<open>\<open>SystemInit\<close> on the M7 core, out of reset with the internal oscillator undivided, leaves the clocks such
  that \<open>SystemCoreClockUpdate\<close> computes the frequency of that oscillator for both variables: 64 MHz, the
  values \<open>SystemCoreClock\<close> and \<open>SystemD2Clock\<close> have from the start.\<close>

theorem clock_after_reset:
  assumes "rcc_documented R" "core_cm7 C" "field 3 2 (rd C RCC_CR m) = 0" "msk C RCC_CR_HSION = 1"
    "\<forall>r \<in> {RCC_CR, RCC_CFGR, RCC_D1CFGR}. adr C r \<noteq> 0x51008108 \<and> (\<forall>r'. adr C r' = adr C r \<longrightarrow> r' = r)"
  shows "SystemCoreClockUpdate C R (SystemInit C m) = Some (HSI_VALUE R, HSI_VALUE R)"
proof -
  have w: "rd C r (wr C r' v m) = (if r = r' then v else rd C r m)" "rd C r (m(0x51008108 := v)) = rd C r m"
    if "r \<in> {RCC_CR, RCC_CFGR, RCC_D1CFGR}" for r r' v m
    using assms(5) that by (auto simp: rd_def wr_def)
  note sys = SystemInit_def reset_clocks_def Let_def set_bits_def and_bits_def
  have r: "rd C RCC_CFGR (SystemInit C m) = 0" "rd C RCC_D1CFGR (SystemInit C m) = 0"
    "rd C RCC_CR (SystemInit C m) = ((rd C RCC_CR m OR 1) AND 0xEAF6ED7F) AND 0xFFFBFFFF"
    by (simp_all add: sys w assms(2,4))
  have "rd C RCC_CR (SystemInit C m) AND push_bit 3 (mask 2) = rd C RCC_CR m AND push_bit 3 (mask 2)"
    by (simp add: r(3) and.assoc mask_eq_exp_minus_1 bit.conj_disj_distrib2)
  then have "field 3 2 (rd C RCC_CR (SystemInit C m)) = 0" using assms(3) by (metis unat_field)
  then have "clock_freq C R (SystemInit C m) = of_nat (unat (HSI_VALUE R))"
    by (simp add: clock_freq_def r(1) field_def [of 3 3] osc_freq_def)
  moreover obtain c where "common_system_clock C R (SystemInit C m) = Some c" "of_nat (unat c) = clock_freq C R (SystemInit C m)"
    using common_clock_freq [OF assms(1), of C "SystemInit C m"] by (auto simp: r(1) field_def)
  ultimately have "common_system_clock C R (SystemInit C m) = Some (HSI_VALUE R)" by (simp only: of_nat_eq_iff word_unat_eq_iff [symmetric])
  then show ?thesis
    using update_prescales [OF assms(1)] assms(2) by (simp add: r(2) field_def D1CorePrescTable_def)
qed

theorem clock_after_reset_witness:
  "SystemCoreClockUpdate clock_cmsis demo_rcc (SystemInit clock_cmsis (\<lambda>_. 0)) = Some (64000000, 64000000)"
proof -
  have "adr clock_cmsis r' = adr clock_cmsis r \<longrightarrow> r' = r" if "r \<in> {RCC_CR, RCC_CFGR, RCC_D1CFGR}" for r r'
    using that by (cases r') (auto simp: clock_cmsis_def)
  then have "\<forall>r \<in> {RCC_CR, RCC_CFGR, RCC_D1CFGR}. adr clock_cmsis r \<noteq> 0x51008108 \<and>
      (\<forall>r'. adr clock_cmsis r' = adr clock_cmsis r \<longrightarrow> r' = r)" by (auto simp: clock_cmsis_def)
  from clock_after_reset [OF demo_rcc_documented _ _ _ this, of "\<lambda>_. 0"] show ?thesis
    by (simp add: clock_cmsis_def demo_cmsis_def rd_def field_def HSI_VALUE_def demo_rcc_def)
qed

end
