(* ===== verification/Spec2Isabelle.thy ===== *)
theory Spec2Isabelle
  imports HRT_Kernel_Props HRT_Sync_Props HRT_Port_Props HRT_System_Props HRT_Timing HRT_CM_Props HRT_Startup HRT_Clock
begin

text \<open>
  HardRT: a small preemptive real-time kernel in C, with ports to Cortex-M, POSIX and a null port, a C++
  wrapper and example programs.

  \<^bold>\<open>The program.\<close> The core (\<open>src/src/core/hardrt_core.c\<close>) keeps a table of task control blocks, one ring buffer of
  ready tasks per priority, the id of the running task and a tick counter. \<open>hardrt_sched.c\<close> is the tick
  handler: it wakes the sleepers that are due and charges the time slice of the running task.
  \<open>hardrt_sem.c\<close>, \<open>hardrt_mutex.c\<close> and \<open>hardrt_queue.c\<close> are built on the core: an object has a ring buffer of
  waiting tasks, a call that must wait blocks the caller and leaves for the scheduler, a call that
  serves a waiter makes it ready. The core calls a port through a few hooks (start the tick, prepare a
  stack, pend a switch, go to the scheduler, enter and leave critical sections). On POSIX the scheduler
  is a loop that swaps contexts and the tick is a signal; on Cortex-M it is the PendSV handler, in
  assembly, which calls \<open>hrt__schedule\<close>, and the tick is the SysTick interrupt.

  \<^bold>\<open>The model.\<close> Globals are fields of the record \<open>kernel\<close> (\<open>HRT_Types\<close>), which each port extends by its own; a
  function is a HOL function from the state to its result and the new state. The configuration macros
  and the hooks of the port are the fields of the record \<open>build\<close>. Words have their C width. A dereference
  outside the table sets \<open>g_fault\<close>, an error code goes to \<open>g_error\<close>. A call that leaves for the scheduler
  on POSIX ends with the state the loop finds, and says so in its result (\<open>Hop\<close>, \<open>QRetry\<close>).

  \<^item> \<open>HRT_Prelude\<close>, \<open>HRT_Ring\<close>: collections, generic lemmas, the ring buffer all wait queues share and the
    locale \<open>bounded_fifo\<close>, interpreted on the ready queues, the three kinds of wait queue and the message
    buffer.
  \<^item> \<open>HRT_Types\<close>, \<open>HRT_Core\<close>, \<open>HRT_Sched\<close>: the types of \<open>src/inc/hardrt.h\<close>, every function of \<open>hardrt_core.c\<close> and
    \<open>hardrt_sched.c\<close>; \<open>HRT_Ready\<close> and \<open>HRT_Tasks\<close> hold the invariant \<open>kinv\<close> of the task table and ready queues and
    the effect of each operation on it, \<open>HRT_Tasks\<close> also the contract \<open>hrt_port\<close> of a port.
  \<^item> \<open>HRT_Sem\<close>, \<open>HRT_Mutex\<close>, \<open>HRT_Queue\<close>: the objects, their invariants, their abstract specifications, and the
    refinement of these by the code, proved for every port.
  \<^item> \<open>HRT_Port_Null\<close>, \<open>HRT_Port_Posix\<close>, \<open>HRT_Port_CortexM\<close>: the three ports and their interpretations of \<open>hrt_port\<close>.
    The POSIX loop is cut at its two context switches; the signal mask is a field. The PendSV handler is
    the list of its instructions, run by a machine with fuel; 12 steps are enough for every path that
    returns from the exception. \<open>HRT_Info\<close>: version and port identity.
  \<^item> \<open>HRT_Fairness\<close>: round robin among tasks that yield. \<open>HRT_Demo\<close>: small concrete systems.
  \<^item> \<open>HRT_Posix_Calls\<close>, \<open>HRT_System\<close>, \<open>HRT_Exclusion\<close>: whole programs on POSIX, as a step relation over calls of
    the running task, parts of the scheduler loop and ticks, with the invariant \<open>sys_inv\<close>.
  \<^item> \<open>HRT_Rep\<close>, \<open>HRT_Cpp\<close>: object representations and the C++ wrapper \<open>src/cpp/hardrtpp.hpp\<close>, with the locale
    \<open>typed_queue\<close> for a queue of values on any port.
  \<^item> \<open>HRT_Boot\<close>, \<open>HRT_Examples\<close>: the start of a program with two tasks, and the POSIX programs of
    \<open>src/examples/\<close> in C and C++.
  \<^item> \<open>HRT_CM_Calls\<close>, \<open>HRT_CM_System\<close>, \<open>HRT_CM_Boot\<close>: whole programs on Cortex-M, as a step relation over code of the running
    task, calls, interrupts and the PendSV exception, on one register bank and one memory. \<open>quiet\<close> is what a
    call leaves alone; the invariant \<open>cm_inv\<close> is weaker than \<open>kinv\<close> and holds in spite of stale queue entries.
    \<open>HRT_CM_Boot\<close> leads from \<open>main\<close> to the first task and has \<open>hardrt_h755_blinky_cpp\<close>.
  \<^item> \<open>HRT_Race\<close>: ticks inside \<open>hrt_yield\<close> on POSIX and between \<open>hrt_sleep\<close> and PendSV on Cortex-M.
  \<^item> \<open>HRT_Startup\<close>: the reset handler of the boards as a program in its instructions, the power set-up
    \<open>ExitRun0Mode\<close>, whose wait loop is a partial function, and the newlib stubs.
  \<^item> \<open>HRT_Board\<close>, \<open>HRT_Timing\<close>: the STM32H755 programs \<open>hardrt_h755_demo\<close>, \<open>hardrt_h755_blinky\<close> and
    \<open>hardrt_h755_dwt_timing\<close>, with \<open>SystemInit\<close> and \<open>_sbrk\<close>. \<open>HRT_Clock\<close>: \<open>SystemCoreClockUpdate\<close> of the vendor code,
    with the rounding of its single precision operations written out.

  \<^bold>\<open>The properties.\<close> \<open>HRT_Kernel_Props\<close>: the scheduler picks the head of the first non-empty priority level; what a
  tick does; sleeps end on time across wrap-around; round robin serves everyone; initialisation and
  task creation. \<open>HRT_Sync_Props\<close>: semaphores, mutexes and queues implement their specifications in tasks and
  in interrupts, and the blocking loops of the queue end. \<open>HRT_Port_Props\<close>: a context switch by PendSV saves
  and restores what it must, a new task starts in the trampoline, critical sections nest, one round of
  the POSIX loop does what the rule says. \<open>HRT_System_Props\<close>: mutual exclusion, the place of every task, and
  end-to-end delivery of the queue example, for every interleaving of the step relation. \<open>HRT_CM_Props\<close>: on
  Cortex-M every task has the registers and its stack to itself, in every run of any program and from the
  main function of the board programs on. \<open>HRT_Startup\<close>: the reset handler reaches \<open>main\<close> with memory set up. \<open>HRT_Clock\<close>: the computed core
  clock is the selected frequency up to a bounded rounding error, and 64 MHz after \<open>SystemInit\<close>.
  Theorems named after a misbehaviour state what the code does where that differs from what it documents: a second
  queue entry after a yield on Cortex-M and after ticks at the wrong moment on both ports, the PendSV exit that does not return, the task in the slot of
  the idle task, priorities out of range, overlong sleeps, an external tick that critical sections do
  not hold off.

  \<^bold>\<open>Bounds.\<close> A build has at most 12 priorities, no more than tasks, and at most 255 tasks
  (\<open>valid_build\<close>): the first two are checked by the sources, the last is what the 8-bit ids need. Sleep
  theorems hold up to \<open>2 ^ 31\<close> ticks.

  \<^bold>\<open>Not modelled.\<close> A call is one step of the system relations: ticks inside a call that is not a critical section are the subject of
  \<open>HRT_Race\<close> only, and so is the thread of \<open>two_tasks_external\<close>, of which only the effect of one pass inside a
  critical section is shown. Tasks are created before the scheduler starts. Memory other than stacks and the message
  buffers, the floating point registers, the alignment word the hardware may push, the compiler and the C
  library are left out. No program calls \<open>SystemCoreClockUpdate\<close>: its result is not connected to the clock the
  tick is set up with, which is a parameter. The vendor headers of the board,
  the generated version headers and the linker symbols are parameters. \<open>hardrt_time.c\<close> is empty, and the
  test programs check the library from outside.
\<close>

end
